(* ===== verification/Prelude.thy ===== *)
theory Prelude
  imports Main "HOL-Library.Word"
begin

text \<open>
  Shared vocabulary of the development: the fixed-width integers of the code, the way an
  operation can end, little-endian images of integers, slices of byte arrays, and the
  lemma collections that the component theories extend.

  Integer types follow the build with \<^verbatim>\<open>ENABLE_STORAGE_SIZE64=1\<close>, so that
  \<open>storage_size_t\<close> has 64 bits; \<open>size_t\<close> values are 32 bits wide on the targets of the
  framework (the emulator included) and are written as \<open>nat\<close> where they only count down.
\<close>

unbundle bit_operations_syntax

type_synonym u8 = "8 word"
type_synonym u16 = "16 word"
type_synonym u32 = "32 word"
type_synonym u64 = "64 word"
type_synonym storage_size = "64 word"

named_theorems layout_simps \<open>decoding an encoded structure\<close>
named_theorems frame_simps \<open>fields an operation does not write\<close>

text \<open>
  How a call ends: it returns a value, or it reaches a failed assertion or an access
  outside an object (after which the C++ program has no defined behaviour).
\<close>

datatype 'a run = Ret 'a | Fault

section \<open>Slices of byte arrays\<close>

definition seg :: "nat \<Rightarrow> nat \<Rightarrow> 'a list \<Rightarrow> 'a list" where
  "seg i n xs = take n (drop i xs)"

definition patch :: "nat \<Rightarrow> 'a list \<Rightarrow> 'a list \<Rightarrow> 'a list" where
  "patch i ys xs = take i xs @ ys @ drop (i + length ys) xs"

lemma length_seg [simp]: "length (seg i n xs) = min n (length xs - i)"
  by (simp add: seg_def)

lemma length_patch [simp]: "i + length ys \<le> length xs \<Longrightarrow> length (patch i ys xs) = length xs"
  by (simp add: patch_def)

lemma nth_seg [simp]: "k < n \<Longrightarrow> i + k < length xs \<Longrightarrow> seg i n xs ! k = xs ! (i + k)"
  by (simp add: seg_def)

lemma nth_patch:
  assumes "i + length ys \<le> length xs" "k < length xs"
  shows "patch i ys xs ! k = (if i \<le> k \<and> k < i + length ys then ys ! (k - i) else xs ! k)"
  using assms by (auto simp: patch_def nth_append)

lemma seg_all [simp]: "length xs \<le> n \<Longrightarrow> seg 0 n xs = xs"
  by (simp add: seg_def)

lemma patch_all [simp]: "length ys = length xs \<Longrightarrow> patch 0 ys xs = ys"
  by (simp add: patch_def)

lemma seg_patch_same [simp]:
  "i + length ys \<le> length xs \<Longrightarrow> seg i (length ys) (patch i ys xs) = ys"
  by (simp add: seg_def patch_def)

lemma seg_append_skip [simp]:
  "length xs \<le> i \<Longrightarrow> seg i n (xs @ ys) = seg (i - length xs) n ys"
  by (simp add: seg_def)

lemma seg_append_take [simp]:
  "i + n \<le> length xs \<Longrightarrow> seg i n (xs @ ys) = seg i n xs"
  by (simp add: seg_def)

lemma seg_seg: "i + n \<le> m \<Longrightarrow> seg i n (seg j m xs) = seg (j + i) n xs"
  by (simp add: seg_def drop_take ac_simps min_def)

lemma seg_replicate [simp]: "seg i n (replicate m x) = replicate (min n (m - i)) x"
  by (simp add: seg_def)

section \<open>Rounding up\<close>

lemma round_up_bounds:
  assumes "0 < (a::nat)"
  shows "x \<le> (x + a - 1) div a * a" "(x + a - 1) div a * a < x + a"
proof -
  have "(x + a - 1) div a * a + (x + a - 1) mod a = x + a - 1" by (rule div_mult_mod_eq)
  moreover have "(x + a - 1) mod a < a" using assms by simp
  ultimately show "x \<le> (x + a - 1) div a * a" "(x + a - 1) div a * a < x + a"
    using assms by linarith+
qed

section \<open>Words\<close>

lemma word_xor_cancel [simp]:
  fixes a b c :: "'a::len word"
  shows "a XOR c = b XOR c \<longleftrightarrow> a = b" and "c XOR a = c XOR b \<longleftrightarrow> a = b"
proof -
  have *: "x = y" if "x XOR c = y XOR c" for x y
  proof -
    have "(x XOR c) XOR c = (y XOR c) XOR c" using that by simp
    then show ?thesis by (simp only: xor.assoc xor_self_eq xor.right_neutral)
  qed
  then show "a XOR c = b XOR c \<longleftrightarrow> a = b" by blast
  from * show "c XOR a = c XOR b \<longleftrightarrow> a = b" by (auto simp: xor.commute [of c])
qed

lemma mask_minus_1: "(2 ^ k - 1 :: 'a::len word) = mask k"
  by (simp add: mask_eq_decr_exp)

lemma unat_push_drop: "unat (push_bit k (drop_bit k x) :: 'a::len word) = unat x div 2 ^ k * 2 ^ k"
proof -
  have "unat (push_bit k (drop_bit k x)) = take_bit LENGTH('a) (push_bit k (drop_bit k (unat x)))"
    by (simp only: unsigned_push_bit_eq unat_drop_bit_eq)
  also have "push_bit k (drop_bit k (unat x)) = unat x div 2 ^ k * 2 ^ k"
    by (simp add: push_bit_eq_mult drop_bit_eq_div)
  also have "take_bit LENGTH('a) (unat x div 2 ^ k * 2 ^ k) = unat x div 2 ^ k * 2 ^ k"
    by (rule take_bit_nat_eq_self) (rule le_less_trans [OF div_times_less_eq_dividend unsigned_less])
  finally show ?thesis .
qed

lemma unat_and_not_mask: "unat (x AND NOT (mask k) :: 'a::len word) = unat x div 2 ^ k * 2 ^ k"
proof -
  have "x AND NOT (mask k) = push_bit k (drop_bit k x)"
    by (rule bit_word_eqI) (auto simp: bit_simps)
  then show ?thesis by (simp only: unat_push_drop)
qed

lemma unat_of_nat_word: "x < 2 ^ LENGTH('a) \<Longrightarrow> unat (of_nat x :: 'a::len word) = x"
  by (simp add: unsigned_of_nat take_bit_nat_eq_self)

lemma unat_mask: "k \<le> LENGTH('a) \<Longrightarrow> unat (mask k :: 'a::len word) = 2 ^ k - 1"
proof -
  assume "k \<le> LENGTH('a)"
  then have "unat (mask k :: 'a word) = mask k"
    by (intro bit_eqI) (auto simp: bit_simps)
  then show ?thesis by (simp add: mask_eq_exp_minus_1)
qed

lemma unat_pow2: "k < LENGTH('a) \<Longrightarrow> unat (2 ^ k :: 'a::len word) = 2 ^ k"
  using unat_of_nat_word [of "2 ^ k"] by simp

lemma unat_and_mask: "unat (x AND mask k :: 'a::len word) = unat x mod 2 ^ k"
  by (metis take_bit_eq_mask take_bit_eq_mod unsigned_take_bit_eq)

lemma ucast_pow2: "k < LENGTH('a) \<Longrightarrow> k < LENGTH('b) \<Longrightarrow> (ucast (2 ^ k :: 'a::len word) :: 'b::len word) = 2 ^ k"
  by (intro bit_word_eqI) (auto simp: bit_simps)

lemma unat_ucast_up: "LENGTH('a) \<le> LENGTH('b) \<Longrightarrow> unat (ucast (x :: 'a::len word) :: 'b::len word) = unat x"
  by (simp add: unsigned_ucast_eq take_bit_nat_eq_self_iff less_le_trans [OF unsigned_less])

lemma unat_of_nat_self: "of_nat (unat w) = (w :: 'a::len word)"
  by simp

lemma of_nat_u64_less: "x < 2 ^ 64 \<Longrightarrow> y < 2 ^ 64 \<Longrightarrow> (of_nat x :: u64) < of_nat y \<longleftrightarrow> x < y"
  by (simp add: of_nat_word_less_iff take_bit_nat_eq_self)

lemma of_nat_u64_eq: "x < 2 ^ 64 \<Longrightarrow> y < 2 ^ 64 \<Longrightarrow> (of_nat x :: u64) = of_nat y \<longleftrightarrow> x = y"
  by (simp add: word_of_nat_eq_iff take_bit_nat_eq_self)

lemma unat_of_nat_u64: "x < 2 ^ 64 \<Longrightarrow> unat (of_nat x :: u64) = x"
  by (simp add: unsigned_of_nat take_bit_nat_eq_self)

section \<open>Little-endian integers\<close>

primrec le_bytes :: "nat \<Rightarrow> 'a::len word \<Rightarrow> u8 list" where
  "le_bytes 0 w = []"
| "le_bytes (Suc n) w = ucast w # le_bytes n (drop_bit 8 w)"

primrec le_word :: "u8 list \<Rightarrow> 'a::len word" where
  "le_word [] = 0"
| "le_word (b # bs) = ucast b OR push_bit 8 (le_word bs)"

lemma length_le_bytes [simp]: "length (le_bytes n w) = n"
  by (induction n arbitrary: w) auto

lemma le_word_le_bytes_take: "le_word (le_bytes n w) = take_bit (8 * n) w"
proof (induction n arbitrary: w)
  case 0
  then show ?case by simp
next
  case (Suc n)
  show ?case
    by (rule bit_word_eqI) (auto simp: Suc.IH bit_simps not_less)
qed

lemma le_word_le_bytes [simp]:
  fixes w :: "'a::len word"
  assumes "LENGTH('a) \<le> 8 * n"
  shows "le_word (le_bytes n w) = w"
  by (rule bit_word_eqI) (use assms in \<open>auto simp: le_word_le_bytes_take bit_simps\<close>)

lemma bit_le_word:
  "bit (le_word bs :: 'a::len word) k \<longleftrightarrow>
     k < LENGTH('a) \<and> k div 8 < length bs \<and> bit (bs ! (k div 8)) (k mod 8)"
proof (induction bs arbitrary: k)
  case Nil
  then show ?case by simp
next
  case (Cons b bs)
  show ?case
  proof (cases "k < 8")
    case True
    then show ?thesis by (auto simp: bit_simps)
  next
    case False
    then have "k div 8 = Suc ((k - 8) div 8)" "k mod 8 = (k - 8) mod 8"
      by (auto simp: le_div_geq le_mod_geq)
    with False show ?thesis
      by (auto simp: bit_simps Cons.IH dest: bit_imp_le_length)
  qed
qed

lemma le_bytes_le_word [simp]:
  assumes "length bs = n" "8 * n \<le> LENGTH('a::len)"
  shows "le_bytes n (le_word bs :: 'a word) = bs"
  using assms
proof (induction bs arbitrary: n)
  case Nil
  then show ?case by simp
next
  case (Cons b bs)
  then obtain m where n: "n = Suc m" "length bs = m" by auto
  have "drop_bit 8 (ucast b OR push_bit 8 (le_word bs) :: 'a word) = take_bit (8 * m) (le_word bs)"
    using Cons.prems n
    by (intro bit_word_eqI) (auto simp: bit_simps bit_le_word dest: bit_imp_le_length)
  moreover have "take_bit (8 * m) (le_word bs :: 'a word) = le_word bs"
    using n by (intro bit_word_eqI) (auto simp: bit_simps bit_le_word)
  moreover have "ucast (ucast b OR push_bit 8 (le_word bs) :: 'a word) = b"
    using Cons.prems by (intro bit_word_eqI) (auto simp: bit_simps)
  ultimately show ?case using Cons n by simp
qed

end
