(* ===== verification/DiskDefs.thy ===== *)
theory DiskDefs
  imports Prelude
begin

text \<open>
  \<^verbatim>\<open>diskdefs.h\<close> and \<^verbatim>\<open>diskdefs.cpp\<close>: the alignment helpers and the CRC-32 that GPT
  headers and partition arrays carry. The lemmas show that the checksum can be accumulated
  piece by piece (as the partition writer does), and that it detects every corruption that
  is confined to four consecutive bytes.
\<close>

section \<open>Alignment helpers\<close>

definition DISK_MIN_SECTOR_SIZE :: nat where "DISK_MIN_SECTOR_SIZE = 512"
definition DISK_MAX_SECTOR_SIZE :: nat where "DISK_MAX_SECTOR_SIZE = 512"
definition N_SEC_TRACK :: u32 where "N_SEC_TRACK = 63"
definition GPT_ITEMS :: nat where "GPT_ITEMS = 128"
definition OSTYPE_EXTENDED :: u8 where "OSTYPE_EXTENDED = 0x05"
definition FSTYPE_FAT32 :: u64 where "FSTYPE_FAT32 = 0x2020203233544146"
definition FSTYPE_EXFAT :: u64 where "FSTYPE_EXFAT = 0x2020205441465845"

definition align_up :: "u64 \<Rightarrow> u32 \<Rightarrow> u64" where
  "align_up value align = (value + ucast align - 1) AND NOT (ucast align - 1)"

definition getBlockCount :: "u64 \<Rightarrow> u32 \<Rightarrow> u64" where
  "getBlockCount byteCount blockSize = (byteCount + ucast blockSize - 1) div ucast blockSize"

section \<open>CRC-32\<close>

definition crc32_shift :: "u32 \<Rightarrow> u32" where
  "crc32_shift crc = (let msk = - (crc AND 1) in drop_bit 1 crc XOR (0xEDB88320 AND msk))"

definition crc32_byte :: "u32 \<Rightarrow> u8 \<Rightarrow> u32" where
  "crc32_byte crc d = (crc32_shift ^^ 8) (crc XOR ucast d)"

fun crc32_loop :: "u32 \<Rightarrow> u8 list \<Rightarrow> u32" where
  "crc32_loop bcc [] = bcc"
| "crc32_loop bcc (d # ds) = crc32_loop (crc32_byte bcc d) ds"

definition crc32 :: "u32 \<Rightarrow> u8 list \<Rightarrow> u32" where
  "crc32 bcc data = NOT (crc32_loop (NOT bcc) data)"

text \<open>The interface the partition writer relies on: a checksum fed in pieces.\<close>

locale running_checksum =
  fixes csum :: "'c \<Rightarrow> 'b list \<Rightarrow> 'c"
  assumes csum_nil: "csum c [] = c"
    and csum_append: "csum (csum c xs) ys = csum c (xs @ ys)"
begin

lemma csum_pieces: "foldl csum c xss = csum c (concat xss)"
  by (induction xss arbitrary: c) (auto simp: csum_nil csum_append)

end

lemma crc32_loop_append: "crc32_loop c (xs @ ys) = crc32_loop (crc32_loop c xs) ys"
  by (induction xs arbitrary: c) auto

interpretation crc: running_checksum crc32
  by unfold_locales (simp_all add: crc32_def crc32_loop_append)

subsection \<open>The shift register is a linear bijection\<close>

lemma crc32_shift_alt:
  "crc32_shift c = (if bit c 0 then drop_bit 1 c XOR 0xEDB88320 else drop_bit 1 c)"
proof (cases "bit c 0")
  case True
  then have "c AND 1 = 1" by (simp add: and_one_eq bit_0 odd_iff_mod_2_eq_one)
  with True show ?thesis by (simp add: crc32_shift_def)
next
  case False
  then have "c AND 1 = 0" by (simp add: and_one_eq bit_0 even_iff_mod_2_eq_zero)
  with False show ?thesis by (simp add: crc32_shift_def)
qed

lemma crc32_byte_unrolled:
  "crc32_byte c d = crc32_shift (crc32_shift (crc32_shift (crc32_shift
     (crc32_shift (crc32_shift (crc32_shift (crc32_shift (c XOR ucast d))))))))"
  by (simp add: crc32_byte_def eval_nat_numeral)

definition crc32_data :: "u8 list \<Rightarrow> u32" where
  "crc32_data data = crc32 0 data"

lemmas crc32_eval = crc32_def crc32_byte_unrolled crc32_shift_alt

lemma crc32_shift_top: "bit (crc32_shift c) 31 = bit c 0"
  by (auto simp: crc32_shift_alt bit_simps dest: bit_imp_le_length)

lemma crc32_shift_inj: "crc32_shift a = crc32_shift b \<Longrightarrow> a = b"
proof -
  assume eq: "crc32_shift a = crc32_shift b"
  then have low: "bit a 0 = bit b 0" by (metis crc32_shift_top)
  with eq have up: "drop_bit 1 a = drop_bit 1 b"
    by (auto simp: crc32_shift_alt split: if_splits)
  show "a = b"
  proof (rule bit_word_eqI)
    fix n assume "n < LENGTH(32)"
    show "bit a n = bit b n"
    proof (cases n)
      case 0
      with low show ?thesis by simp
    next
      case (Suc m)
      have "bit (drop_bit 1 a) m = bit (drop_bit 1 b) m" using up by simp
      with Suc show ?thesis by (simp add: bit_simps)
    qed
  qed
qed

lemma crc32_shift_xor: "crc32_shift (a XOR b) = crc32_shift a XOR crc32_shift b"
  by (rule bit_word_eqI) (auto simp: crc32_shift_alt bit_simps)

lemma crc32_shifts_inj: "(crc32_shift ^^ n) a = (crc32_shift ^^ n) b \<Longrightarrow> a = b"
  by (induction n) (auto dest: crc32_shift_inj)

lemma crc32_shifts_xor: "(crc32_shift ^^ n) (a XOR b) = (crc32_shift ^^ n) a XOR (crc32_shift ^^ n) b"
  by (induction n) (auto simp: crc32_shift_xor)

lemma crc32_shifts_clear:
  "(\<And>k. k < n \<Longrightarrow> \<not> bit c k) \<Longrightarrow> (crc32_shift ^^ n) c = drop_bit n c"
proof (induction n)
  case 0
  then show ?case by simp
next
  case (Suc n)
  then have "(crc32_shift ^^ n) c = drop_bit n c" by simp
  moreover have "\<not> bit (drop_bit n c) 0" using Suc.prems by (simp add: bit_simps)
  ultimately show ?case using crc32_shift_alt [of "drop_bit n c"] by simp
qed

lemma crc32_byte_inj: "crc32_byte a d = crc32_byte b d \<Longrightarrow> a = b"
proof -
  assume "crc32_byte a d = crc32_byte b d"
  then have "a XOR ucast d = b XOR ucast d"
    unfolding crc32_byte_def by (rule crc32_shifts_inj)
  then show "a = b" by simp
qed

lemma crc32_loop_inj: "crc32_loop a ds = crc32_loop b ds \<Longrightarrow> a = b"
  by (induction ds arbitrary: a b) (auto dest: crc32_byte_inj)

subsection \<open>Up to four bytes enter the register unchanged\<close>

lemma crc32_byte_ahead:
  assumes "\<And>k. 24 \<le> k \<Longrightarrow> \<not> bit y k"
  shows "(crc32_shift ^^ 8) (c XOR (ucast d OR push_bit 8 y)) = crc32_byte c d XOR y"
proof -
  have "c XOR (ucast d OR push_bit 8 y) = (c XOR ucast d) XOR push_bit 8 y"
    by (rule bit_word_eqI) (auto simp: bit_simps dest: bit_imp_le_length)
  moreover have "(crc32_shift ^^ 8) (push_bit 8 y) = drop_bit 8 (push_bit 8 y)"
    by (rule crc32_shifts_clear) (simp add: bit_simps)
  moreover have "drop_bit 8 (push_bit 8 y) = y"
  proof (rule bit_word_eqI)
    fix n assume "n < LENGTH(32)"
    show "bit (drop_bit 8 (push_bit 8 y)) n = bit y n"
      using assms[of n] by (cases "n < 24") (auto simp: bit_simps)
  qed
  ultimately show ?thesis by (simp add: crc32_shifts_xor crc32_byte_def)
qed

lemma crc32_loop_word:
  "length ds \<le> 4 \<Longrightarrow> crc32_loop c ds = (crc32_shift ^^ (8 * length ds)) (c XOR le_word ds)"
proof (induction ds arbitrary: c)
  case Nil
  then show ?case by simp
next
  case (Cons d ds)
  have small: "\<not> bit (le_word ds :: u32) k" if "24 \<le> k" for k
    using that Cons.prems by (auto simp: bit_le_word)
  have "(crc32_shift ^^ (8 * length (d # ds))) (c XOR le_word (d # ds))
      = (crc32_shift ^^ (8 * length ds)) ((crc32_shift ^^ 8) (c XOR le_word (d # ds)))"
    by (simp add: add.commute flip: funpow_add comp_apply [of "crc32_shift ^^ _" "crc32_shift ^^ _"])
  also have "(crc32_shift ^^ 8) (c XOR le_word (d # ds)) = crc32_byte c d XOR le_word ds"
    by (simp add: crc32_byte_ahead small)
  also have "(crc32_shift ^^ (8 * length ds)) (crc32_byte c d XOR le_word ds)
      = crc32_loop (crc32_byte c d) ds"
    using Cons by simp
  finally show ?case by simp
qed

lemma crc32_loop_window:
  assumes "length xs = length ys" "length xs \<le> 4" "crc32_loop c xs = crc32_loop c ys"
  shows "xs = ys"
proof -
  have "c XOR le_word xs = c XOR (le_word ys :: u32)"
    using assms by (simp add: crc32_loop_word crc32_shifts_inj del: word_xor_cancel)
  then have "le_word xs = (le_word ys :: u32)" by simp
  then have "le_bytes (length xs) (le_word xs :: u32) = le_bytes (length xs) (le_word ys :: u32)"
    by simp
  then show ?thesis using assms by simp
qed

section \<open>Properties\<close>

lemma crc32_burst:
  assumes "length xs = length ys" "length xs \<le> 4" "xs \<noteq> ys"
  shows "crc32 b (pre @ xs @ post) \<noteq> crc32 b (pre @ ys @ post)"
proof
  assume "crc32 b (pre @ xs @ post) = crc32 b (pre @ ys @ post)"
  then have "crc32_loop (crc32_loop (NOT b) pre) xs = crc32_loop (crc32_loop (NOT b) pre) ys"
    by (auto simp: crc32_def crc32_loop_append dest: crc32_loop_inj)
  with assms show False by (blast dest: crc32_loop_window)
qed

text \<open>The checksum of a buffer can be computed piecewise: feeding the result for one piece
  as the start value of the next one, as \<^verbatim>\<open>formatDisk\<close> does entry by entry for the partition
  array, gives the checksum of the whole.\<close>

lemma crc32_incremental: "foldl crc32 b chunks = crc32 b (concat chunks)"
  by (rule crc.csum_pieces)

text \<open>Any damage confined to four consecutive bytes changes the checksum, wherever it lies in
  the buffer and whatever the start value.\<close>

lemma crc32_detects_burst:
  assumes "length xs = length ys" "length xs \<le> 4" "xs \<noteq> ys"
  shows "crc32 b (pre @ xs @ post) \<noteq> crc32 b (pre @ ys @ post)"
  by (rule crc32_burst [OF assms])

text \<open>For a power of two and values away from the end of the 64-bit range, \<^verbatim>\<open>align_up\<close> is the
  smallest multiple of the alignment that is not below the value.\<close>

lemma align_up_next_multiple:
  assumes "k < 32" "unat v + 2 ^ k \<le> 2 ^ 64"
  shows "unat (align_up v (2 ^ k)) = (unat v + 2 ^ k - 1) div 2 ^ k * 2 ^ k
    \<and> unat v \<le> unat (align_up v (2 ^ k)) \<and> unat (align_up v (2 ^ k)) < unat v + 2 ^ k"
proof -
  have a: "(ucast (2 ^ k :: u32) :: u64) = 2 ^ k"
    using assms(1) by (simp add: ucast_pow2)
  have pos: "(1::nat) \<le> 2 ^ k" by simp
  have k64: "unat (2 ^ k - 1 :: u64) = 2 ^ k - 1"
    using assms(1) by (simp add: mask_minus_1 unat_mask)
  have "unat (v + (2 ^ k - 1)) = unat v + (2 ^ k - 1)"
  proof -
    have "unat v + unat (2 ^ k - 1 :: u64) < 2 ^ LENGTH(64)"
      using assms(2) pos by (simp add: k64)
    then show ?thesis by (simp only: unat_add_lem [THEN iffD1] k64)
  qed
  then have s: "unat (align_up v (2 ^ k)) = (unat v + 2 ^ k - 1) div 2 ^ k * 2 ^ k"
    using pos by (simp add: align_up_def a add_diff_eq unat_and_not_mask [of _ k, folded mask_minus_1])
  show ?thesis unfolding s using round_up_bounds [of "2 ^ k" "unat v"] by simp
qed

end
