(* ===== verification/DiskError.thy ===== *)
theory DiskError
  imports Prelude
begin

text \<open>
  \<^verbatim>\<open>Error.h\<close> and \<^verbatim>\<open>Error.cpp\<close>: the result codes of the partitioning functions, in the
  order of \<^verbatim>\<open>DISK_ERRORCODE_MAP\<close>, their test for success and their names.
\<close>

datatype disk_error =
    Success | BadParam | MisAligned | OutOfRange | NoSpace
  | NoMem | ReadFailure | WriteFailure | EraseFailure

text \<open>The overloaded \<^verbatim>\<open>operator!\<close>: true exactly for \<open>Success\<close>.\<close>

definition error_not :: "disk_error \<Rightarrow> bool" where
  "error_not err \<longleftrightarrow> err = Success"

fun toString_error :: "disk_error \<Rightarrow> string" where
  "toString_error Success = ''Success''"
| "toString_error BadParam = ''BadParam''"
| "toString_error MisAligned = ''MisAligned''"
| "toString_error OutOfRange = ''OutOfRange''"
| "toString_error NoSpace = ''NoSpace''"
| "toString_error NoMem = ''NoMem''"
| "toString_error ReadFailure = ''ReadFailure''"
| "toString_error WriteFailure = ''WriteFailure''"
| "toString_error EraseFailure = ''EraseFailure''"

lemma error_not_simps [simp]: "error_not err = (err = Success)"
  by (simp add: error_not_def)

end
