(* ===== verification/PartInfo.thy ===== *)
theory PartInfo
  imports Prelude DiskError
begin

text \<open>
  \<^verbatim>\<open>PartInfo.h\<close> and the name tables of \<^verbatim>\<open>PartInfo.cpp\<close>: volume types, MBR system
  indicators and the in-memory description of a partition. The record \<open>sming\<close> gathers what
  the code takes from the framework's own libraries (which are not part of this repository):
  each field is a parameter of the operations that use it, and the predicates below state
  the documented behaviour that a theorem relies on. \<open>sming_ref\<close> is a concrete instance.
\<close>

section \<open>Volume types\<close>

datatype sys_type = SysUnknown | SysFat12 | SysFat16 | SysFat32 | SysExfat

text \<open>The enumerators' values, and the order they induce.\<close>

fun sys_type_val :: "sys_type \<Rightarrow> nat" where
  "sys_type_val SysUnknown = 0"
| "sys_type_val SysFat12 = 1"
| "sys_type_val SysFat16 = 2"
| "sys_type_val SysFat32 = 3"
| "sys_type_val SysExfat = 4"

lemma sys_type_val_inj: "sys_type_val a = sys_type_val b \<Longrightarrow> a = b"
  by (cases a; cases b) auto

instantiation sys_type :: linorder
begin

definition less_eq_sys_type :: "sys_type \<Rightarrow> sys_type \<Rightarrow> bool" where
  "a \<le> b \<longleftrightarrow> sys_type_val a \<le> sys_type_val b"

definition less_sys_type :: "sys_type \<Rightarrow> sys_type \<Rightarrow> bool" where
  "a < b \<longleftrightarrow> sys_type_val a < sys_type_val b"

instance
  by standard (auto simp: less_eq_sys_type_def less_sys_type_def intro: sys_type_val_inj)

end

text \<open>\<^verbatim>\<open>fatTypes[t]\<close>: membership in the bit set of the FAT family.\<close>

definition fatTypes :: "sys_type set" where
  "fatTypes = {SysFat12, SysFat16, SysFat32, SysExfat}"

lemma fatTypes_interval: "fatTypes = {SysFat12 .. SysExfat}"
proof (rule set_eqI)
  fix t show "t \<in> fatTypes \<longleftrightarrow> t \<in> {SysFat12 .. SysExfat}"
    by (cases t) (auto simp: fatTypes_def less_eq_sys_type_def)
qed

type_synonym sys_indicator = u8

definition SI_FAT12 :: sys_indicator where "SI_FAT12 = 0x01"
definition SI_FAT16 :: sys_indicator where "SI_FAT16 = 0x04"
definition SI_FAT16B :: sys_indicator where "SI_FAT16B = 0x06"
definition SI_IFS :: sys_indicator where "SI_IFS = 0x07"
definition SI_EXFAT :: sys_indicator where "SI_EXFAT = 0x07"
definition SI_FAT32X :: sys_indicator where "SI_FAT32X = 0x0c"

lemmas SI_defs = SI_FAT12_def SI_FAT16_def SI_FAT16B_def SI_IFS_def SI_EXFAT_def SI_FAT32X_def

definition getSysTypeFromIndicator :: "sys_indicator \<Rightarrow> sys_type" where
  "getSysTypeFromIndicator si =
     (if si = SI_FAT12 then SysFat12
      else if si = SI_FAT16 \<or> si = SI_FAT16B then SysFat16
      else if si = SI_FAT32X then SysFat32
      else if si = SI_EXFAT then SysExfat
      else SysUnknown)"

fun toString_sys_type :: "sys_type \<Rightarrow> string" where
  "toString_sys_type SysUnknown = ''unknown''"
| "toString_sys_type SysFat12 = ''fat12''"
| "toString_sys_type SysFat16 = ''fat16''"
| "toString_sys_type SysFat32 = ''fat32''"
| "toString_sys_type SysExfat = ''exfat''"

section \<open>Partition descriptions\<close>

text \<open>A GUID, by the components its initialisers give.\<close>

record uuid =
  time_low :: u32
  time_mid :: u16
  time_hi_version :: u16
  clock_seq_hi :: u8
  clock_seq_low :: u8
  node0 :: u8
  node1 :: u8
  node2 :: u8
  node3 :: u8
  node4 :: u8
  node5 :: u8

definition null_uuid :: uuid where
  "null_uuid = \<lparr>time_low = 0, time_mid = 0, time_hi_version = 0, clock_seq_hi = 0, clock_seq_low = 0,
     node0 = 0, node1 = 0, node2 = 0, node3 = 0, node4 = 0, node5 = 0\<rparr>"

text \<open>\<^verbatim>\<open>Partition::FullType\<close>: a type and a subtype byte.\<close>

record full_type =
  ft_type :: u8
  ft_subtype :: u8

text \<open>\<^verbatim>\<open>DiskPart\<close>, and \<^verbatim>\<open>PartInfo\<close> which adds the members of \<^verbatim>\<open>Partition::Info\<close>.\<close>

record disk_part =
  typeGuid :: uuid
  uniqueGuid :: uuid
  systype :: sys_type
  sysind :: sys_indicator

record part_info = disk_part +
  p_name :: string
  p_type :: u8
  p_subtype :: u8
  p_offset :: u64
  p_size :: u64

definition diskpart :: "part_info \<Rightarrow> disk_part" where
  "diskpart p = disk_part.truncate p"

definition PARTITION_ALIGN :: u32 where
  "PARTITION_ALIGN = 0x100000"

section \<open>The framework's libraries\<close>

text \<open>
  \<open>vector_sort cmp xs\<close> is \<^verbatim>\<open>Vector::sort\<close> with a three-way comparator, over the elements
  (pointers, here indices) it holds; \<open>getSizeBits\<close> is the helper of \<^verbatim>\<open>Storage/Types\<close>;
  \<open>uuid_bytes\<close> and \<open>uuid_of_bytes\<close> are the memory image of a \<^verbatim>\<open>Uuid\<close>, \<open>uuid_isset\<close> its
  conversion to \<^verbatim>\<open>bool\<close>, \<open>uuid_str\<close> its conversion to a string; \<open>num_str\<close> is the decimal
  \<^verbatim>\<open>String(n)\<close>. 
  \<open>fulltype_none\<close> is the default \<^verbatim>\<open>FullType{}\<close>. The rest are constants of \<^verbatim>\<open>Storage/Partition.h\<close>.
\<close>

record sming =
  getSizeBits :: "nat \<Rightarrow> nat"
  vector_sort :: "(nat \<Rightarrow> nat \<Rightarrow> int) \<Rightarrow> nat list \<Rightarrow> nat list"
  uuid_bytes :: "uuid \<Rightarrow> u8 list"
  uuid_of_bytes :: "u8 list \<Rightarrow> uuid"
  uuid_isset :: "uuid \<Rightarrow> bool"
  uuid_str :: "uuid \<Rightarrow> string"
  num_str :: "nat \<Rightarrow> string"
  Type_invalid :: u8
  Type_data :: u8
  SubType_any :: u8
  SubType_fat :: u8
  fulltype_isset :: "full_type \<Rightarrow> bool"
  fulltype_none :: full_type

definition size_bits_law :: "sming \<Rightarrow> bool" where
  "size_bits_law L \<longleftrightarrow> (\<forall>k < 32. getSizeBits L (2 ^ k) = k)"

text \<open>Sorting with a comparator that is positive exactly when the keys are out of order is a
  stable sort by that key.\<close>

definition sort_law :: "sming \<Rightarrow> bool" where
  "sort_law L \<longleftrightarrow>
     (\<forall>(key :: nat \<Rightarrow> u64) xs. vector_sort L (\<lambda>i j. if key i > key j then 1 else 0) xs = sort_key key xs)"

definition uuid_law :: "sming \<Rightarrow> bool" where
  "uuid_law L \<longleftrightarrow>
     (\<forall>u. length (uuid_bytes L u) = 16 \<and> uuid_of_bytes L (uuid_bytes L u) = u)
   \<and> (\<forall>bs. length bs = 16 \<longrightarrow> uuid_bytes L (uuid_of_bytes L bs) = bs)
   \<and> (\<forall>u. uuid_isset L u \<longleftrightarrow> u \<noteq> null_uuid) \<and> uuid_bytes L null_uuid = replicate 16 0"

definition fulltype_law :: "sming \<Rightarrow> bool" where
  "fulltype_law L \<longleftrightarrow>
     (\<forall>ft. fulltype_isset L ft \<longleftrightarrow> ft_type ft \<noteq> Type_invalid L) \<and> Type_data L \<noteq> Type_invalid L
   \<and> ft_type (fulltype_none L) = Type_invalid L"

subsection \<open>A concrete instance\<close>

fun ref_size_bits :: "nat \<Rightarrow> nat" where
  "ref_size_bits n = (if n \<le> 1 then 0 else Suc (ref_size_bits (n div 2)))"

declare ref_size_bits.simps [simp del]

lemma ref_size_bits_pow2: "ref_size_bits (2 ^ k) = k"
proof (induction k)
  case 0
  then show ?case by (simp add: ref_size_bits.simps)
next
  case (Suc k)
  have "\<not> (2 ^ Suc k :: nat) \<le> 1" using one_less_power [of "2 :: nat" "Suc k"] by simp
  then show ?case using Suc ref_size_bits.simps [of "2 ^ Suc k"] by simp
qed

fun ref_insert :: "(nat \<Rightarrow> nat \<Rightarrow> int) \<Rightarrow> nat \<Rightarrow> nat list \<Rightarrow> nat list" where
  "ref_insert cmp x [] = [x]"
| "ref_insert cmp x (y # ys) = (if cmp x y > 0 then y # ref_insert cmp x ys else x # y # ys)"

definition ref_sort :: "(nat \<Rightarrow> nat \<Rightarrow> int) \<Rightarrow> nat list \<Rightarrow> nat list" where
  "ref_sort cmp xs = foldr (ref_insert cmp) xs []"

lemma ref_insert_key:
  "ref_insert (\<lambda>i j. if key i > (key j :: u64) then 1 else 0) x ys = insort_key key x ys"
  by (induction ys) (auto simp: not_less)

lemma ref_sort_key: "ref_sort (\<lambda>i j. if key i > (key j :: u64) then 1 else 0) xs = sort_key key xs"
  by (induction xs) (auto simp: ref_sort_def ref_insert_key)

definition ref_uuid_bytes :: "uuid \<Rightarrow> u8 list" where
  "ref_uuid_bytes u = le_bytes 4 (time_low u) @ le_bytes 2 (time_mid u) @ le_bytes 2 (time_hi_version u)
     @ [clock_seq_hi u, clock_seq_low u, node0 u, node1 u, node2 u, node3 u, node4 u, node5 u]"

definition ref_uuid_of_bytes :: "u8 list \<Rightarrow> uuid" where
  "ref_uuid_of_bytes bs = \<lparr>time_low = le_word (seg 0 4 bs), time_mid = le_word (seg 4 2 bs),
     time_hi_version = le_word (seg 6 2 bs), clock_seq_hi = bs ! 8, clock_seq_low = bs ! 9,
     node0 = bs ! 10, node1 = bs ! 11, node2 = bs ! 12, node3 = bs ! 13, node4 = bs ! 14, node5 = bs ! 15\<rparr>"

lemma ref_uuid_bytes_inverse: "ref_uuid_of_bytes (ref_uuid_bytes u) = u"
  by (simp add: ref_uuid_of_bytes_def ref_uuid_bytes_def nth_append)

lemma ref_uuid_of_bytes_inverse:
  assumes "length bs = 16"
  shows "ref_uuid_bytes (ref_uuid_of_bytes bs) = bs"
proof -
  have *: "le_bytes n (le_word (seg i n bs) :: 'a::len word) = seg i n bs" if "i + n \<le> 16" "8 * n \<le> LENGTH('a)" for i n
    using that assms by (intro le_bytes_le_word) simp_all
  have "seg 0 4 bs @ seg 4 2 bs @ seg 6 2 bs @ [bs ! 8, bs ! 9, bs ! 10, bs ! 11, bs ! 12, bs ! 13, bs ! 14, bs ! 15] = bs"
  proof (rule nth_equalityI)
    fix i assume "i < length (seg 0 4 bs @ seg 4 2 bs @ seg 6 2 bs @ [bs ! 8, bs ! 9, bs ! 10, bs ! 11, bs ! 12, bs ! 13, bs ! 14, bs ! 15])"
    then have "i < 16" using assms by simp
    then consider "i < 8" | "i \<in> {8, 9, 10, 11, 12, 13, 14, 15}" by fastforce
    then show "(seg 0 4 bs @ seg 4 2 bs @ seg 6 2 bs @ [bs ! 8, bs ! 9, bs ! 10, bs ! 11, bs ! 12, bs ! 13, bs ! 14, bs ! 15]) ! i
        = bs ! i"
      using assms by cases (auto simp: nth_append)
  qed (simp add: assms)
  then show ?thesis by (simp add: ref_uuid_bytes_def ref_uuid_of_bytes_def *)
qed

fun ref_digits :: "nat \<Rightarrow> string" where
  "ref_digits n = (if n < 10 then [char_of (48 + n)] else ref_digits (n div 10) @ [char_of (48 + n mod 10)])"

declare ref_digits.simps [simp del]

definition sming_ref :: sming where
  "sming_ref = \<lparr>getSizeBits = ref_size_bits, vector_sort = ref_sort,
     uuid_bytes = ref_uuid_bytes, uuid_of_bytes = ref_uuid_of_bytes,
     uuid_isset = (\<lambda>u. u \<noteq> null_uuid), uuid_str = (\<lambda>u. ''guid''), num_str = ref_digits,
     Type_invalid = 255, Type_data = 1, SubType_any = 0, SubType_fat = 1,
     fulltype_isset = (\<lambda>ft. ft_type ft \<noteq> 255), fulltype_none = \<lparr>ft_type = 255, ft_subtype = 0\<rparr>\<rparr>"

lemma ref_uuid_bytes_null: "ref_uuid_bytes null_uuid = replicate 16 0"
  by (simp add: ref_uuid_bytes_def null_uuid_def numeral_eq_Suc)

lemma sming_ref_laws:
  "size_bits_law sming_ref" "sort_law sming_ref" "uuid_law sming_ref" "fulltype_law sming_ref"
  by (auto simp: size_bits_law_def sort_law_def uuid_law_def fulltype_law_def sming_ref_def
      ref_size_bits_pow2 ref_sort_key ref_uuid_bytes_inverse ref_uuid_of_bytes_inverse ref_uuid_bytes_null, simp add: ref_uuid_bytes_def)

end
