(* ===== verification/DiskLayout.thy ===== *)
theory DiskLayout
  imports PartInfo
begin

text \<open>
  The structures on disk (\<^verbatim>\<open>linux/efi.h\<close>, \<^verbatim>\<open>linux/msdos_fs.h\<close>, \<^verbatim>\<open>linux/exfat_raw.h\<close>), as records with
  their little-endian images. The code overlays the structures on byte buffers; here \<open>\<dots>_of_bytes\<close>
  reads the members from a buffer and \<open>\<dots>_bytes\<close> is the memory image. The locale \<open>packed_struct\<close> says
  that the two are inverse, and derives what arrays of structures need.
\<close>

section \<open>Packed structures\<close>

text \<open>Arrays of structures.\<close>

definition enc_array :: "('r \<Rightarrow> u8 list) \<Rightarrow> 'r list \<Rightarrow> u8 list" where
  "enc_array enc rs = concat (map enc rs)"

definition dec_array :: "(u8 list \<Rightarrow> 'r) \<Rightarrow> nat \<Rightarrow> nat \<Rightarrow> u8 list \<Rightarrow> 'r list" where
  "dec_array dec sz n bs = map (\<lambda>i. dec (drop (i * sz) bs)) [0..<n]"

lemma length_dec_array [simp]: "length (dec_array dec sz n bs) = n"
  by (simp add: dec_array_def)

locale packed_struct =
  fixes enc :: "'r \<Rightarrow> u8 list" and dec :: "u8 list \<Rightarrow> 'r" and wf :: "'r \<Rightarrow> bool" and sz :: nat
  assumes enc_length: "wf r \<Longrightarrow> length (enc r) = sz"
    and dec_enc: "wf r \<Longrightarrow> dec (enc r @ tail) = r"
    and enc_dec: "sz \<le> length bs \<Longrightarrow> enc (dec bs) = take sz bs"
    and dec_wf: "sz \<le> length bs \<Longrightarrow> wf (dec bs)"
begin

lemma dec_enc_exact: "wf r \<Longrightarrow> dec (enc r) = r"
  using dec_enc [of r "[]"] by simp

lemma enc_inj: "wf r \<Longrightarrow> wf s \<Longrightarrow> enc r = enc s \<Longrightarrow> r = s"
  by (metis dec_enc_exact)

lemma dec_take: "sz \<le> length bs \<Longrightarrow> dec (take sz bs) = dec bs"
  by (metis enc_dec dec_enc_exact dec_wf)

lemma length_enc_array: "\<forall>r \<in> set rs. wf r \<Longrightarrow> length (enc_array enc rs) = length rs * sz"
  by (induction rs) (simp_all add: enc_array_def enc_length)

lemma dec_enc_array:
  "\<forall>r \<in> set rs. wf r \<Longrightarrow> n = length rs \<Longrightarrow> dec_array dec sz n (enc_array enc rs @ tail) = rs"
proof (induction rs arbitrary: n)
  case Nil
  then show ?case by (simp add: dec_array_def)
next
  case (Cons r rs)
  have "dec_array dec sz (Suc (length rs)) (enc r @ enc_array enc rs @ tail)
      = dec (enc r @ enc_array enc rs @ tail) # dec_array dec sz (length rs) (enc_array enc rs @ tail)"
    using Cons.prems(1) by (simp add: dec_array_def upt_conv_Cons enc_length flip: map_Suc_upt del: upt_Suc)
  then show ?case using Cons by (simp add: enc_array_def dec_enc)
qed

lemma enc_dec_array: "n * sz \<le> length bs \<Longrightarrow> enc_array enc (dec_array dec sz n bs) = take (n * sz) bs"
proof (induction n)
  case 0
  then show ?case by (simp add: enc_array_def dec_array_def)
next
  case (Suc n)
  then have "enc_array enc (dec_array dec sz n bs) = take (n * sz) bs" by simp
  moreover have "enc (dec (drop (n * sz) bs)) = take sz (drop (n * sz) bs)"
    using Suc.prems by (intro enc_dec) simp
  ultimately show ?case
    by (simp add: enc_array_def dec_array_def take_add [of "n * sz" sz] add.commute [of sz])
qed

lemma dec_array_wf: "n * sz \<le> length bs \<Longrightarrow> \<forall>r \<in> set (dec_array dec sz n bs). wf r"
proof -
  assume n: "n * sz \<le> length bs"
  have "wf (dec (drop (i * sz) bs))" if "i < n" for i
  proof (rule dec_wf)
    have "(i + 1) * sz \<le> n * sz" using that by (intro mult_le_mono1) simp
    then show "sz \<le> length (drop (i * sz) bs)" using n by simp
  qed
  then show ?thesis by (auto simp: dec_array_def)
qed

text \<open>Structure \<open>i\<close> of a buffer, after structure \<open>j\<close> was overwritten.\<close>

lemma dec_patch:
  assumes "wf r" "(j + 1) * sz \<le> length buf" "(i + 1) * sz \<le> length buf"
  shows "dec (drop (i * sz) (patch (j * sz) (enc r) buf)) = (if i = j then r else dec (drop (i * sz) buf))"
proof -
  let ?p = "patch (j * sz) (enc r) buf"
  have len: "length (enc r) = sz" using assms(1) by (rule enc_length)
  then have lp: "length ?p = length buf" using assms(2) by simp
  have d: "dec (drop (i * sz) xs) = dec (seg (i * sz) sz xs)" if "length xs = length buf" for xs
    using dec_take [of "drop (i * sz) xs"] assms(3) that by (simp add: seg_def)
  show ?thesis
  proof (cases "i = j")
    case True
    have "seg (j * sz) sz ?p = enc r" using seg_patch_same [of "j * sz" "enc r" buf] assms(2) len by simp
    then show ?thesis using True d [OF lp] dec_enc_exact [OF assms(1)] by simp
  next
    case False
    then have apart: "(i + 1) * sz \<le> j * sz \<or> (j + 1) * sz \<le> i * sz"
      by (metis Suc_eq_plus1 Suc_leI linorder_neqE_nat mult_le_mono1)
    have "seg (i * sz) sz ?p = seg (i * sz) sz buf"
    proof (rule nth_equalityI)
      fix k assume "k < length (seg (i * sz) sz ?p)"
      then show "seg (i * sz) sz ?p ! k = seg (i * sz) sz buf ! k"
        using assms(2,3) apart lp len by (auto simp: nth_patch)
    qed (simp add: lp)
    then show ?thesis using False d [OF lp] d [of buf] by simp
  qed
qed

end

lemma seg_join: "n + i = j \<Longrightarrow> seg i n bs @ seg j m bs = seg i (n + m) bs"
  by (auto simp: seg_def take_add add.commute [of _ i] intro: arg_cong2)

lemma seg_join_assoc: "n + i = j \<Longrightarrow> seg i n bs @ seg j m bs @ xs = seg i (n + m) bs @ xs"
  using seg_join [of n i j bs m] by (simp flip: append_assoc)

lemma seg_one: "i < length bs \<Longrightarrow> seg i (Suc 0) bs = [bs ! i]"
  by (simp add: seg_def take_Suc hd_drop_conv_nth)

lemma seg_drop [simp]: "seg i n (drop k bs) = seg (k + i) n bs"
  by (simp add: seg_def add.commute)

definition u8_bytes :: "u8 \<Rightarrow> u8 list" where "u8_bytes b = [b]"

lemma length_u8_bytes [simp]: "length (u8_bytes b) = 1"
  by (simp add: u8_bytes_def)

definition u8_at :: "nat \<Rightarrow> u8 list \<Rightarrow> u8" where "u8_at i bs = le_word (seg i 1 bs)"
definition u16_at :: "nat \<Rightarrow> u8 list \<Rightarrow> u16" where "u16_at i bs = le_word (seg i 2 bs)"
definition u32_at :: "nat \<Rightarrow> u8 list \<Rightarrow> u32" where "u32_at i bs = le_word (seg i 4 bs)"
definition u64_at :: "nat \<Rightarrow> u8 list \<Rightarrow> u64" where "u64_at i bs = le_word (seg i 8 bs)"

lemmas at_defs = u8_at_def u16_at_def u32_at_def u64_at_def

text \<open>Reading from a concatenation of fields, and re-encoding what was read.\<close>

lemma at_skip [layout_simps]:
  "length xs \<le> i \<Longrightarrow> u8_at i (xs @ ys) = u8_at (i - length xs) ys"
  "length xs \<le> i \<Longrightarrow> u16_at i (xs @ ys) = u16_at (i - length xs) ys"
  "length xs \<le> i \<Longrightarrow> u32_at i (xs @ ys) = u32_at (i - length xs) ys"
  "length xs \<le> i \<Longrightarrow> u64_at i (xs @ ys) = u64_at (i - length xs) ys"
  by (simp_all add: at_defs)

lemma at_here [layout_simps]:
  "u8_at 0 (u8_bytes a @ ys) = a" "u16_at 0 (le_bytes 2 b @ ys) = b"
  "u32_at 0 (le_bytes 4 c @ ys) = c" "u64_at 0 (le_bytes 8 d @ ys) = d"
  by (simp_all add: at_defs u8_bytes_def seg_def)

lemma at_bytes [layout_simps]:
  "i + 1 \<le> length bs \<Longrightarrow> u8_bytes (u8_at i bs) = seg i 1 bs"
  "i + 2 \<le> length bs \<Longrightarrow> le_bytes 2 (u16_at i bs) = seg i 2 bs"
  "i + 4 \<le> length bs \<Longrightarrow> le_bytes 4 (u32_at i bs) = seg i 4 bs"
  "i + 8 \<le> length bs \<Longrightarrow> le_bytes 8 (u64_at i bs) = seg i 8 bs"
  by (simp_all add: at_defs u8_bytes_def seg_one)

lemma seg_here: "length xs = n \<Longrightarrow> seg 0 n (xs @ ys) = xs"
  by simp

interpretation u16s: packed_struct "le_bytes 2" "u16_at 0" "\<lambda>_. True" 2
  by unfold_locales (auto simp: layout_simps seg_def)

section \<open>MBR\<close>

record gpt_mbr_record =
  boot_indicator :: u8
  start_head :: u8
  start_sector :: u8
  start_track :: u8
  os_type :: u8
  end_head :: u8
  end_sector :: u8
  end_track :: u8
  starting_lba :: u32
  size_in_lba :: u32

definition mbr_record_bytes :: "gpt_mbr_record \<Rightarrow> u8 list" where
  "mbr_record_bytes r =
     u8_bytes (boot_indicator r) @ u8_bytes (start_head r) @ u8_bytes (start_sector r) @ u8_bytes (start_track r) @
     u8_bytes (os_type r) @ u8_bytes (end_head r) @ u8_bytes (end_sector r) @ u8_bytes (end_track r) @
     le_bytes 4 (starting_lba r) @ le_bytes 4 (size_in_lba r)"

definition mbr_record_of_bytes :: "u8 list \<Rightarrow> gpt_mbr_record" where
  "mbr_record_of_bytes bs =
     \<lparr>boot_indicator = u8_at 0 bs, start_head = u8_at 1 bs, start_sector = u8_at 2 bs, start_track = u8_at 3 bs,
      os_type = u8_at 4 bs, end_head = u8_at 5 bs, end_sector = u8_at 6 bs, end_track = u8_at 7 bs,
      starting_lba = u32_at 8 bs, size_in_lba = u32_at 12 bs\<rparr>"

interpretation mbr_rec: packed_struct mbr_record_bytes mbr_record_of_bytes "\<lambda>_. True" 16
proof (unfold_locales, goal_cases)
  case (2 r tail)
  show ?case by (cases r) (simp add: mbr_record_of_bytes_def mbr_record_bytes_def layout_simps)
next
  case (3 bs)
  then show ?case
    by (simp add: mbr_record_of_bytes_def mbr_record_bytes_def layout_simps seg_join seg_join_assoc) (simp add: seg_def)
qed (simp_all add: mbr_record_bytes_def)

record legacy_mbr =
  mbr_boot_code :: "u8 list"
  unique_mbr_signature :: u32
  mbr_unknown :: u16
  partition_record :: "gpt_mbr_record list"
  mbr_signature :: u16

definition legacy_mbr_bytes :: "legacy_mbr \<Rightarrow> u8 list" where
  "legacy_mbr_bytes m =
     mbr_boot_code m @ le_bytes 4 (unique_mbr_signature m) @ le_bytes 2 (mbr_unknown m) @
     enc_array mbr_record_bytes (partition_record m) @ le_bytes 2 (mbr_signature m)"

definition legacy_mbr_of_bytes :: "u8 list \<Rightarrow> legacy_mbr" where
  "legacy_mbr_of_bytes bs =
     \<lparr>mbr_boot_code = seg 0 440 bs, unique_mbr_signature = u32_at 440 bs, mbr_unknown = u16_at 444 bs,
      partition_record = dec_array mbr_record_of_bytes 16 4 (drop 446 bs), mbr_signature = u16_at 510 bs\<rparr>"

definition legacy_mbr_wf :: "legacy_mbr \<Rightarrow> bool" where
  "legacy_mbr_wf m \<longleftrightarrow> length (mbr_boot_code m) = 440 \<and> length (partition_record m) = 4"

interpretation mbr: packed_struct legacy_mbr_bytes legacy_mbr_of_bytes legacy_mbr_wf 512
proof (unfold_locales, goal_cases)
  case (1 r)
  then show ?case by (simp add: legacy_mbr_wf_def legacy_mbr_bytes_def mbr_rec.length_enc_array)
next
  case (2 r tail)
  then have len: "length (mbr_boot_code r) = 440" "length (partition_record r) = 4"
    by (simp_all add: legacy_mbr_wf_def)
  moreover have "length (enc_array mbr_record_bytes (partition_record r)) = 64"
    using mbr_rec.length_enc_array [of "partition_record r"] len by simp
  ultimately show ?case
    by (cases r) (simp add: legacy_mbr_of_bytes_def legacy_mbr_bytes_def layout_simps mbr_rec.dec_enc_array)
next
  case (3 bs)
  then have "enc_array mbr_record_bytes (dec_array mbr_record_of_bytes 16 4 (drop 446 bs)) = seg 446 64 bs"
    by (simp add: mbr_rec.enc_dec_array seg_def)
  then show ?case using 3
    by (simp add: legacy_mbr_of_bytes_def legacy_mbr_bytes_def layout_simps seg_join seg_join_assoc) (simp add: seg_def)
next
  case (4 bs)
  then show ?case by (simp add: legacy_mbr_of_bytes_def legacy_mbr_wf_def)
qed

section \<open>GPT\<close>

record gpt_header =
  gh_signature :: u64
  gh_revision :: u32
  header_size :: u32
  header_crc32 :: u32
  gh_reserved1 :: u32
  my_lba :: u64
  alternate_lba :: u64
  first_usable_lba :: u64
  last_usable_lba :: u64
  disk_guid :: uuid
  partition_entry_lba :: u64
  num_partition_entries :: u32
  sizeof_partition_entry :: u32
  partition_entry_array_crc32 :: u32

definition gpt_header_bytes :: "sming \<Rightarrow> gpt_header \<Rightarrow> u8 list" where
  "gpt_header_bytes L h =
     le_bytes 8 (gh_signature h) @ le_bytes 4 (gh_revision h) @ le_bytes 4 (header_size h) @
     le_bytes 4 (header_crc32 h) @ le_bytes 4 (gh_reserved1 h) @ le_bytes 8 (my_lba h) @
     le_bytes 8 (alternate_lba h) @ le_bytes 8 (first_usable_lba h) @ le_bytes 8 (last_usable_lba h) @
     uuid_bytes L (disk_guid h) @ le_bytes 8 (partition_entry_lba h) @ le_bytes 4 (num_partition_entries h) @
     le_bytes 4 (sizeof_partition_entry h) @ le_bytes 4 (partition_entry_array_crc32 h)"

definition gpt_header_of_bytes :: "sming \<Rightarrow> u8 list \<Rightarrow> gpt_header" where
  "gpt_header_of_bytes L bs =
     \<lparr>gh_signature = u64_at 0 bs, gh_revision = u32_at 8 bs, header_size = u32_at 12 bs, header_crc32 = u32_at 16 bs,
      gh_reserved1 = u32_at 20 bs, my_lba = u64_at 24 bs, alternate_lba = u64_at 32 bs, first_usable_lba = u64_at 40 bs,
      last_usable_lba = u64_at 48 bs, disk_guid = uuid_of_bytes L (seg 56 16 bs), partition_entry_lba = u64_at 72 bs,
      num_partition_entries = u32_at 80 bs, sizeof_partition_entry = u32_at 84 bs, partition_entry_array_crc32 = u32_at 88 bs\<rparr>"

text \<open>The attribute bit field is kept as one word.\<close>

record gpt_entry =
  partition_type_guid :: uuid
  unique_partition_guid :: uuid
  ge_starting_lba :: u64
  ge_ending_lba :: u64
  ge_attributes :: u64
  partition_name :: "u16 list"

definition gpt_entry_bytes :: "sming \<Rightarrow> gpt_entry \<Rightarrow> u8 list" where
  "gpt_entry_bytes L e =
     uuid_bytes L (partition_type_guid e) @ uuid_bytes L (unique_partition_guid e) @ le_bytes 8 (ge_starting_lba e) @
     le_bytes 8 (ge_ending_lba e) @ le_bytes 8 (ge_attributes e) @ enc_array (le_bytes 2) (partition_name e)"

definition gpt_entry_of_bytes :: "sming \<Rightarrow> u8 list \<Rightarrow> gpt_entry" where
  "gpt_entry_of_bytes L bs =
     \<lparr>partition_type_guid = uuid_of_bytes L (seg 0 16 bs), unique_partition_guid = uuid_of_bytes L (seg 16 16 bs),
      ge_starting_lba = u64_at 32 bs, ge_ending_lba = u64_at 40 bs, ge_attributes = u64_at 48 bs,
      partition_name = dec_array (u16_at 0) 2 36 (drop 56 bs)\<rparr>"

definition gpt_entry_wf :: "gpt_entry \<Rightarrow> bool" where
  "gpt_entry_wf e \<longleftrightarrow> length (partition_name e) = 36"

text \<open>The framework's GUIDs have sixteen bytes without gaps.\<close>

locale uuid_layout =
  fixes L :: sming
  assumes uuid_law: "uuid_law L"
begin

lemma uuid_bytes_laws [simp]:
  "length (uuid_bytes L u) = 16" "uuid_of_bytes L (uuid_bytes L u) = u"
  "length bs = 16 \<Longrightarrow> uuid_bytes L (uuid_of_bytes L bs) = bs"
  using uuid_law by (auto simp: uuid_law_def)

lemma length_gpt_header [simp]: "length (gpt_header_bytes L h) = 92"
  by (simp add: gpt_header_bytes_def)

end

sublocale uuid_layout \<subseteq> gpt_header: packed_struct "gpt_header_bytes L" "gpt_header_of_bytes L" "\<lambda>_. True" 92
proof (unfold_locales, goal_cases)
  case (1 r)
  show ?case by simp
next
  case (2 r tail)
  show ?case by (cases r) (simp add: gpt_header_of_bytes_def gpt_header_bytes_def layout_simps)
next
  case (3 bs)
  then show ?case
    by (simp add: gpt_header_of_bytes_def gpt_header_bytes_def layout_simps seg_join seg_join_assoc) (simp add: seg_def)
qed simp

sublocale uuid_layout \<subseteq> gpt_entry: packed_struct "gpt_entry_bytes L" "gpt_entry_of_bytes L" gpt_entry_wf 128
proof (unfold_locales, goal_cases)
  case (1 r)
  then show ?case by (simp add: gpt_entry_bytes_def gpt_entry_wf_def u16s.length_enc_array)
next
  case (2 r tail)
  then have "length (partition_name r) = 36" by (simp add: gpt_entry_wf_def)
  moreover have "length (enc_array (le_bytes 2) (partition_name r)) = 72"
    using u16s.length_enc_array [of "partition_name r"] calculation by simp
  ultimately show ?case
    by (cases r) (simp add: gpt_entry_of_bytes_def gpt_entry_bytes_def layout_simps u16s.dec_enc_array)
next
  case (3 bs)
  then have "enc_array (le_bytes 2) (dec_array (u16_at 0) 2 36 (drop 56 bs)) = seg 56 72 bs"
    by (simp add: u16s.enc_dec_array seg_def)
  then show ?case using 3
    by (simp add: gpt_entry_of_bytes_def gpt_entry_bytes_def layout_simps seg_join seg_join_assoc) (simp add: seg_def)
next
  case (4 bs)
  then show ?case by (simp add: gpt_entry_of_bytes_def gpt_entry_wf_def)
qed

interpretation ref_layout: uuid_layout sming_ref
  by unfold_locales (rule sming_ref_laws(3))

section \<open>Boot sectors of FAT and exFAT volumes\<close>

text \<open>
  The union at the end of \<^verbatim>\<open>fat_boot_sector_t\<close> is kept as its plainest view, 474 bytes and a signature;
  the members of \<^verbatim>\<open>fat16\<close> and \<^verbatim>\<open>fat32\<close> that the code uses are read from those bytes.
\<close>

record fat_boot_sector =
  jmp_boot :: "u8 list"
  system_id :: "u8 list"
  sector_size :: u16
  sec_per_clus :: u8
  fat_reserved :: u16
  num_fats :: u8
  dir_entries :: u16
  fat_sectors :: u16
  fat_media :: u8
  fat_length :: u16
  secs_track :: u16
  fat_heads :: u16
  fat_hidden :: u32
  total_sect :: u32
  extra_info :: "u8 list"
  fat_signature :: u16

definition fat_boot_bytes :: "fat_boot_sector \<Rightarrow> u8 list" where
  "fat_boot_bytes f =
     jmp_boot f @ system_id f @ le_bytes 2 (sector_size f) @ u8_bytes (sec_per_clus f) @ le_bytes 2 (fat_reserved f) @
     u8_bytes (num_fats f) @ le_bytes 2 (dir_entries f) @ le_bytes 2 (fat_sectors f) @ u8_bytes (fat_media f) @
     le_bytes 2 (fat_length f) @ le_bytes 2 (secs_track f) @ le_bytes 2 (fat_heads f) @ le_bytes 4 (fat_hidden f) @
     le_bytes 4 (total_sect f) @ extra_info f @ le_bytes 2 (fat_signature f)"

definition fat_boot_of_bytes :: "u8 list \<Rightarrow> fat_boot_sector" where
  "fat_boot_of_bytes bs =
     \<lparr>jmp_boot = seg 0 3 bs, system_id = seg 3 8 bs, sector_size = u16_at 11 bs, sec_per_clus = u8_at 13 bs,
      fat_reserved = u16_at 14 bs, num_fats = u8_at 16 bs, dir_entries = u16_at 17 bs, fat_sectors = u16_at 19 bs,
      fat_media = u8_at 21 bs, fat_length = u16_at 22 bs, secs_track = u16_at 24 bs, fat_heads = u16_at 26 bs,
      fat_hidden = u32_at 28 bs, total_sect = u32_at 32 bs, extra_info = seg 36 474 bs, fat_signature = u16_at 510 bs\<rparr>"

definition fat_boot_wf :: "fat_boot_sector \<Rightarrow> bool" where
  "fat_boot_wf f \<longleftrightarrow> length (jmp_boot f) = 3 \<and> length (system_id f) = 8 \<and> length (extra_info f) = 474"

definition fat16_vol_label :: "fat_boot_sector \<Rightarrow> u8 list" where
  "fat16_vol_label f = seg 7 11 (extra_info f)"

definition fat32_vol_label :: "fat_boot_sector \<Rightarrow> u8 list" where
  "fat32_vol_label f = seg 35 11 (extra_info f)"

definition fat32_fs_type :: "fat_boot_sector \<Rightarrow> u64" where
  "fat32_fs_type f = u64_at 46 (extra_info f)"

interpretation fat_boot: packed_struct fat_boot_bytes fat_boot_of_bytes fat_boot_wf 512
proof (unfold_locales, goal_cases)
  case (1 r)
  then show ?case by (simp add: fat_boot_wf_def fat_boot_bytes_def)
next
  case (2 r tail)
  then show ?case
    by (cases r) (simp add: fat_boot_wf_def fat_boot_of_bytes_def fat_boot_bytes_def layout_simps)
next
  case (3 bs)
  then show ?case
    by (simp add: fat_boot_of_bytes_def fat_boot_bytes_def layout_simps seg_join seg_join_assoc) (simp add: seg_def)
qed (simp add: fat_boot_wf_def fat_boot_of_bytes_def)

record exfat_boot_sector =
  ex_jmp_boot :: "u8 list"
  ex_fs_type :: u64
  must_be_zero :: "u8 list"
  partition_offset :: u64
  vol_length :: u64
  ex_fat_offset :: u32
  ex_fat_length :: u32
  clu_offset :: u32
  clu_count :: u32
  root_cluster :: u32
  vol_serial :: u32
  fs_revision :: u16
  vol_flags :: u16
  sect_size_bits :: u8
  sect_per_clus_bits :: u8
  ex_num_fats :: u8
  drv_sel :: u8
  percent_in_use :: u8
  ex_reserved :: "u8 list"
  ex_boot_code :: "u8 list"
  ex_signature :: u16

definition exfat_boot_bytes :: "exfat_boot_sector \<Rightarrow> u8 list" where
  "exfat_boot_bytes x =
     ex_jmp_boot x @ le_bytes 8 (ex_fs_type x) @ must_be_zero x @ le_bytes 8 (partition_offset x) @
     le_bytes 8 (vol_length x) @ le_bytes 4 (ex_fat_offset x) @ le_bytes 4 (ex_fat_length x) @ le_bytes 4 (clu_offset x) @
     le_bytes 4 (clu_count x) @ le_bytes 4 (root_cluster x) @ le_bytes 4 (vol_serial x) @ le_bytes 2 (fs_revision x) @
     le_bytes 2 (vol_flags x) @ u8_bytes (sect_size_bits x) @ u8_bytes (sect_per_clus_bits x) @ u8_bytes (ex_num_fats x) @
     u8_bytes (drv_sel x) @ u8_bytes (percent_in_use x) @ ex_reserved x @ ex_boot_code x @ le_bytes 2 (ex_signature x)"

definition exfat_boot_of_bytes :: "u8 list \<Rightarrow> exfat_boot_sector" where
  "exfat_boot_of_bytes bs =
     \<lparr>ex_jmp_boot = seg 0 3 bs, ex_fs_type = u64_at 3 bs, must_be_zero = seg 11 53 bs, partition_offset = u64_at 64 bs,
      vol_length = u64_at 72 bs, ex_fat_offset = u32_at 80 bs, ex_fat_length = u32_at 84 bs, clu_offset = u32_at 88 bs,
      clu_count = u32_at 92 bs, root_cluster = u32_at 96 bs, vol_serial = u32_at 100 bs, fs_revision = u16_at 104 bs,
      vol_flags = u16_at 106 bs, sect_size_bits = u8_at 108 bs, sect_per_clus_bits = u8_at 109 bs, ex_num_fats = u8_at 110 bs,
      drv_sel = u8_at 111 bs, percent_in_use = u8_at 112 bs, ex_reserved = seg 113 7 bs, ex_boot_code = seg 120 390 bs,
      ex_signature = u16_at 510 bs\<rparr>"

definition exfat_boot_wf :: "exfat_boot_sector \<Rightarrow> bool" where
  "exfat_boot_wf x \<longleftrightarrow> length (ex_jmp_boot x) = 3 \<and> length (must_be_zero x) = 53 \<and> length (ex_reserved x) = 7 \<and>
     length (ex_boot_code x) = 390"

interpretation exfat_boot: packed_struct exfat_boot_bytes exfat_boot_of_bytes exfat_boot_wf 512
proof (unfold_locales, goal_cases)
  case (1 r)
  then show ?case by (simp add: exfat_boot_wf_def exfat_boot_bytes_def)
next
  case (2 r tail)
  then show ?case
    by (cases r) (simp add: exfat_boot_wf_def exfat_boot_of_bytes_def exfat_boot_bytes_def layout_simps)
next
  case (3 bs)
  then show ?case
    by (simp add: exfat_boot_of_bytes_def exfat_boot_bytes_def layout_simps seg_join seg_join_assoc) (simp add: seg_def)
qed (simp add: exfat_boot_wf_def exfat_boot_of_bytes_def)

section \<open>Constants of the headers\<close>

definition MSDOS_MBR_SIGNATURE :: u16 where "MSDOS_MBR_SIGNATURE = 0xAA55"
definition EFI_PMBR_OSTYPE_EFI_GPT :: u8 where "EFI_PMBR_OSTYPE_EFI_GPT = 0xEE"
definition GPT_HEADER_SIGNATURE :: u64 where "GPT_HEADER_SIGNATURE = 0x5452415020494645"
definition GPT_HEADER_REVISION_V1 :: u32 where "GPT_HEADER_REVISION_V1 = 0x00010000"
definition GPT_HEADER_SIZE :: u32 where "GPT_HEADER_SIZE = 92"
definition GPT_PRIMARY_PARTITION_TABLE_LBA :: u64 where "GPT_PRIMARY_PARTITION_TABLE_LBA = 1"
definition MSDOS_NAME :: nat where "MSDOS_NAME = 11"

end
