(* ===== verification/Validate.thy ===== *)
theory Validate
  imports PartInfo
begin

text \<open>
  \<^verbatim>\<open>validate\<close> of \<^verbatim>\<open>PartInfo.cpp\<close>: sizes given as percentages are turned into bytes, offsets
  left at zero are assigned. The partition table is a list of records in iteration order; the
  code's \<^verbatim>\<open>Vector\<close> of pointers into it is a list of indices. The assignment loop is a
  partial function, since nothing in the code makes the list of unplaced partitions shrink
  when a computed offset wraps to zero.
\<close>

section \<open>The code\<close>

definition v_is_aligned :: "u64 \<Rightarrow> u32 \<Rightarrow> bool" where
  "v_is_aligned val alignment \<longleftrightarrow> val mod ucast alignment = 0"

definition v_align :: "u64 \<Rightarrow> u32 \<Rightarrow> u64" where
  "v_align val alignment = val - val mod ucast alignment"

definition v_align_up :: "u64 \<Rightarrow> u32 \<Rightarrow> u64" where
  "v_align_up val alignment = v_align (val + ucast alignment - 1) alignment"

text \<open>
  The first loop over the table. The sizes computed before an error stay in the table, as
  they do in the code. A percentage with a zero block alignment divides by zero.
\<close>

fun size_parts :: "u64 \<Rightarrow> u32 \<Rightarrow> u32 \<Rightarrow> u64 \<Rightarrow> u64 \<Rightarrow> u64 \<Rightarrow> part_info list
    \<Rightarrow> (part_info list \<times> (disk_error + u64)) run" where
  "size_parts avail blockSize blockAlign minOff maxOff used [] = Ret ([], Inr used)"
| "size_parts avail blockSize blockAlign minOff maxOff used (part # ps) =
     (let check = (\<lambda>part' used'.
        if p_offset part' \<noteq> 0 \<and> (p_offset part' < minOff \<or> p_offset part' > maxOff)
        then Ret (part' # ps, Inl OutOfRange)
        else case size_parts avail blockSize blockAlign minOff maxOff used' ps of
               Fault \<Rightarrow> Fault
             | Ret (ps', r) \<Rightarrow> Ret (part' # ps', r))
      in
      if p_size part \<le> 100 then
        if blockAlign = 0 then Fault
        else
          let blocks = v_align_up (avail * p_size part div 100) blockAlign;
              clip = used + blocks > avail;
              blocks' = (if clip then avail - used else blocks)
          in if clip \<and> blocks' = 0 then Ret (part # ps, Inl NoSpace)
             else check (part\<lparr>p_size := blocks' * ucast blockSize\<rparr>) (used + blocks')
      else if \<not> v_is_aligned (p_offset part) PARTITION_ALIGN then Ret (part # ps, Inl MisAligned)
      else check part (used + v_align_up (p_size part) PARTITION_ALIGN))"

text \<open>The comparator and \<^verbatim>\<open>sortList\<close>.\<close>

definition offset_cmp :: "part_info list \<Rightarrow> nat \<Rightarrow> nat \<Rightarrow> int" where
  "offset_cmp t = (\<lambda>p1 p2. if p_offset (t ! p1) > p_offset (t ! p2) then 1 else 0)"

definition sortList :: "sming \<Rightarrow> part_info list \<Rightarrow> nat list \<Rightarrow> nat list" where
  "sortList L t ptrs = vector_sort L (offset_cmp t) ptrs"

text \<open>The inner loop: where to put a partition of size \<open>sz\<close>; \<open>None\<close> is "no room".\<close>

fun find_gap :: "part_info list \<Rightarrow> u64 \<Rightarrow> u64 \<Rightarrow> u64 \<Rightarrow> nat list \<Rightarrow> u64 option" where
  "find_gap t sz maxOff endOff [] = Some endOff"
| "find_gap t sz maxOff endOff (j # js) =
     (if p_offset (t ! j) = 0 then find_gap t sz maxOff endOff js
      else
        let endOff' = v_align_up (p_offset (t ! j) + p_size (t ! j)) PARTITION_ALIGN in
        case js of
          k # _ \<Rightarrow> if p_offset (t ! k) - endOff' \<ge> sz then Some endOff'
                   else find_gap t sz maxOff endOff' js
        | [] \<Rightarrow> if maxOff + 1 - endOff' \<ge> sz then Some endOff' else None)"

text \<open>The outer loop; \<open>None\<close> means that it does not return.\<close>

partial_function (option) assign_offsets ::
  "sming \<Rightarrow> u64 \<Rightarrow> u64 \<Rightarrow> part_info list \<Rightarrow> nat list
   \<Rightarrow> ((part_info list \<times> nat list) \<times> disk_error) run option" where
  "assign_offsets L minOff maxOff t ptrs =
     (case ptrs of
        [] \<Rightarrow> Some Fault
      | pz # rest \<Rightarrow>
          if p_offset (t ! pz) \<noteq> 0 then Some (Ret ((t, ptrs), Success))
          else case find_gap t (p_size (t ! pz)) maxOff minOff rest of
                 None \<Rightarrow> Some (Ret ((t, ptrs), NoSpace))
               | Some endOff \<Rightarrow>
                   let t' = t[pz := (t ! pz)\<lparr>p_offset := endOff\<rparr>]
                   in assign_offsets L minOff maxOff t' (sortList L t' ptrs))"

declare assign_offsets.simps [code]

text \<open>The final assertion on the last partition.\<close>

definition check_last :: "u64 \<Rightarrow> part_info list \<Rightarrow> nat list \<Rightarrow> bool" where
  "check_last maxOff t ptrs \<longleftrightarrow> p_offset (t ! last ptrs) + p_size (t ! last ptrs) - 1 \<le> maxOff"

definition validate :: "sming \<Rightarrow> part_info list \<Rightarrow> u64 \<Rightarrow> u64 \<Rightarrow> u32
    \<Rightarrow> (part_info list \<times> disk_error) run option" where
  "validate L table firstAvailableBlock totalAvailableBlocks blockSize =
     (if firstAvailableBlock = 0 \<or> blockSize = 0 then Some (Ret (table, BadParam))
      else
        let blockAlign = PARTITION_ALIGN div blockSize;
            minOff = firstAvailableBlock * ucast blockSize;
            maxOff = (firstAvailableBlock + totalAvailableBlocks) * ucast blockSize - 1
        in case size_parts totalAvailableBlocks blockSize blockAlign minOff maxOff 0 table of
             Fault \<Rightarrow> Some Fault
           | Ret (t, Inl err) \<Rightarrow> Some (Ret (t, err))
           | Ret (t, Inr totalBlocks) \<Rightarrow>
               if totalBlocks > totalAvailableBlocks then Some (Ret (t, NoSpace))
               else
                 case assign_offsets L minOff maxOff t (sortList L t [0..<length t]) of
                   None \<Rightarrow> None
                 | Some Fault \<Rightarrow> Some Fault
                 | Some (Ret ((t', ptrs), err)) \<Rightarrow>
                     if err \<noteq> Success then Some (Ret (t', err))
                     else if check_last maxOff t' ptrs then Some (Ret (t', Success))
                     else Some Fault)"

section \<open>Aligned arithmetic without overflow\<close>

lemma unat_v_align_up:
  assumes "alignment \<noteq> 0" "unat v + unat alignment \<le> 2 ^ 64"
  shows "unat (v_align_up v alignment)
       = (unat v + unat alignment - 1) div unat alignment * unat alignment"
proof -
  let ?a = "ucast alignment :: u64"
  have a: "unat ?a = unat alignment" by (simp add: unat_ucast_up)
  have a0: "unat alignment \<noteq> 0" using assms(1) by (simp add: unat_eq_0)
  have a1: "unat (?a - 1) = unat alignment - 1"
    using a0 by (simp add: unat_minus_one a unat_eq_0 flip: unat_eq_0 [of ?a])
  have s: "unat (v + ?a - 1) = unat v + unat alignment - 1"
  proof -
    have "unat v + unat (?a - 1) < 2 ^ LENGTH(64)" using assms(2) a0 by (simp add: a1)
    then have "unat (v + (?a - 1)) = unat v + unat (?a - 1)" by (rule unat_add_lem [THEN iffD1])
    then show ?thesis using a0 by (simp add: a1 add_diff_eq)
  qed
  have "unat (v_align_up v alignment) = unat (v + ?a - 1) - unat (v + ?a - 1) mod unat alignment"
    by (simp add: v_align_up_def v_align_def unat_sub word_le_nat_alt unat_mod a)
  then show ?thesis by (simp add: s minus_mod_eq_div_mult)
qed

lemma v_align_up_exact:
  assumes "alignment \<noteq> 0" "unat v + unat alignment \<le> 2 ^ 64" "unat alignment dvd unat v"
  shows "v_align_up v alignment = v"
proof -
  have "(unat v + unat alignment - 1) div unat alignment * unat alignment = unat v"
  proof -
    from assms(3) obtain c where c: "unat v = unat alignment * c" ..
    have "unat alignment > 0" using assms(1) by (simp add: unat_gt_0)
    then have "(unat alignment * c + unat alignment - 1) div unat alignment = c"
      by (intro div_nat_eqI) auto
    then show ?thesis using \<open>unat alignment > 0\<close> by (simp add: c)
  qed
  then show ?thesis using unat_v_align_up [OF assms(1,2)] by (simp add: word_unat_eq_iff)
qed

end
