(* ===== verification/ValidatePlan.thy ===== *)
theory ValidatePlan
  imports Validate "HOL-Library.Multiset"
begin

text \<open>
  What \<^verbatim>\<open>validate\<close> is meant to make of a table of percentages (\<open>plan\<close>), the proof that the code
  computes exactly that, the termination of the assignment loop, and the behaviour on tables
  with given sizes or offsets.
\<close>

section \<open>What percentages are meant to become\<close>

text \<open>
  \<open>plan T a used ps\<close> gives each percentage of \<open>T\<close> blocks a start block and a length: the
  share rounded up to \<open>a\<close> blocks, clipped to what is left; \<open>None\<close> when nothing is left.
\<close>

definition share :: "nat \<Rightarrow> nat \<Rightarrow> nat \<Rightarrow> nat" where
  "share T a p = (T * p div 100 + a - 1) div a * a"

fun plan :: "nat \<Rightarrow> nat \<Rightarrow> nat \<Rightarrow> nat list \<Rightarrow> (nat \<times> nat) list option" where
  "plan T a used [] = Some []"
| "plan T a used (p # ps) =
     (let got = (if used + share T a p > T then T - used else share T a p) in
      if used + share T a p > T \<and> got = 0 then None
      else map_option (\<lambda>pl. (used, got) # pl) (plan T a (used + got) ps))"

lemma share_pos:
  assumes "0 < a" "1 \<le> p" "100 \<le> T"
  shows "0 < share T a p"
proof -
  have "100 \<le> T * p" using assms mult_le_mono [of 100 T 1 p] by simp
  then have "1 \<le> T * p div 100" by simp
  then have "a div a \<le> (T * p div 100 + a - 1) div a" by (intro div_le_mono) linarith
  then show ?thesis using assms by (simp add: share_def)
qed

lemma share_dvd: "a dvd share T a p"
  by (simp add: share_def)

text \<open>A successful plan is a chain of non-empty, aligned, adjacent ranges within \<open>T\<close>.\<close>

lemma plan_chain:
  assumes "plan T a used ps = Some pl" "used \<le> T" "a dvd used" "0 < a" "100 \<le> T"
    "\<forall>p \<in> set ps. 1 \<le> p"
  shows "length pl = length ps"
    and "pl \<noteq> [] \<Longrightarrow> fst (pl ! 0) = used"
    and "i < length pl \<Longrightarrow> 0 < snd (pl ! i) \<and> fst (pl ! i) + snd (pl ! i) \<le> T \<and> a dvd fst (pl ! i)"
    and "Suc i < length pl \<Longrightarrow> fst (pl ! Suc i) = fst (pl ! i) + snd (pl ! i)"
proof -
  have chain: "length pl = length ps \<and> (pl \<noteq> [] \<longrightarrow> fst (pl ! 0) = used) \<and>
    (\<forall>i < length pl. 0 < snd (pl ! i) \<and> fst (pl ! i) + snd (pl ! i) \<le> T \<and> a dvd fst (pl ! i)) \<and>
    (\<forall>i. Suc i < length pl \<longrightarrow> fst (pl ! Suc i) = fst (pl ! i) + snd (pl ! i))"
    using assms
  proof (induction ps arbitrary: used pl)
    case Nil
    then show ?case by simp
  next
    case (Cons p ps)
    define got where "got = (if used + share T a p > T then T - used else share T a p)"
    have pos: "0 < share T a p" using Cons.prems by (intro share_pos) auto
    from Cons.prems(1) obtain pl' where pl': "plan T a (used + got) ps = Some pl'"
      and pl: "pl = (used, got) # pl'" and got0: "0 < got"
      using pos by (auto simp: Let_def got_def split: if_splits)
    have le: "used + got \<le> T" using Cons.prems by (auto simp: got_def)
    show ?case
    proof (cases "used + share T a p > T")
      case True
      then have "used + got = T" using Cons.prems by (simp add: got_def)
      then have "ps = []"
        using pl' Cons.prems share_pos [of a _ T]
        by (cases ps) (auto simp: Let_def)
      then show ?thesis using pl pl' got0 le Cons.prems by simp
    next
      case False
      then have "a dvd used + got" using Cons.prems by (simp add: got_def share_dvd)
      from Cons.IH [OF pl' le this] Cons.prems
      have IH: "length pl' = length ps" "pl' \<noteq> [] \<longrightarrow> fst (pl' ! 0) = used + got"
        "\<forall>i < length pl'. 0 < snd (pl' ! i) \<and> fst (pl' ! i) + snd (pl' ! i) \<le> T \<and> a dvd fst (pl' ! i)"
        "\<forall>i. Suc i < length pl' \<longrightarrow> fst (pl' ! Suc i) = fst (pl' ! i) + snd (pl' ! i)"
        by auto
      have "0 < snd (pl ! i) \<and> fst (pl ! i) + snd (pl ! i) \<le> T \<and> a dvd fst (pl ! i)"
        if "i < length pl" for i
        using that IH(3) got0 le Cons.prems by (cases i) (auto simp: pl)
      moreover have "fst (pl ! Suc i) = fst (pl ! i) + snd (pl ! i)" if "Suc i < length pl" for i
        using that IH(2,4) by (cases i) (auto simp: pl)
      ultimately show ?thesis using IH(1) pl by simp
    qed
  qed
  show "length pl = length ps" and "pl \<noteq> [] \<Longrightarrow> fst (pl ! 0) = used"
    and "i < length pl \<Longrightarrow> 0 < snd (pl ! i) \<and> fst (pl ! i) + snd (pl ! i) \<le> T \<and> a dvd fst (pl ! i)"
    and "Suc i < length pl \<Longrightarrow> fst (pl ! Suc i) = fst (pl ! i) + snd (pl ! i)"
    using chain by simp_all
qed

section \<open>Sizes follow the plan\<close>

lemma share_le: "0 < a \<Longrightarrow> p \<le> 100 \<Longrightarrow> share T a p \<le> T + a - 1"
proof -
  assume "0 < a" "p \<le> 100"
  then have "T * p div 100 \<le> T" 
    by (metis div_le_mono mult_le_mono2 nonzero_mult_div_cancel_right zero_neq_numeral)
  then have "T * p div 100 + a - 1 \<le> T + a - 1" by simp
  moreover have "share T a p \<le> T * p div 100 + a - 1" by (simp add: share_def)
  ultimately show ?thesis by simp
qed

lemma share_word:
  assumes "T \<le> 2 ^ 56" "blockAlign \<noteq> 0" "unat blockAlign \<le> 2 ^ 20" "unat p \<le> 100"
  shows "v_align_up (of_nat T * p div 100) blockAlign = of_nat (share T (unat blockAlign) (unat p))"
proof -
  have "T * unat p \<le> 2 ^ 56 * 100" using assms(1,4) by (intro mult_le_mono) auto
  then have m: "T * unat p < 2 ^ 64" by simp
  have "of_nat T * p = of_nat (T * unat p)" by simp
  then have "unat (of_nat T * p) = T * unat p" using m by (simp only: unat_of_nat_u64)
  then have q: "unat (of_nat T * p div 100) = T * unat p div 100" by (simp add: unat_div)
  have "T * unat p div 100 \<le> 2 ^ 56" using \<open>T * unat p \<le> 2 ^ 56 * 100\<close> by simp
  then have "unat (of_nat T * p div 100) + unat blockAlign \<le> 2 ^ 64" using assms(3) q by simp
  from unat_v_align_up [OF assms(2) this] q
  have e: "unat (v_align_up (of_nat T * p div 100) blockAlign) = share T (unat blockAlign) (unat p)"
    by (simp add: share_def)
  then show ?thesis by (metis unat_of_nat_self)
qed

definition resize :: "u32 \<Rightarrow> part_info \<Rightarrow> nat \<times> nat \<Rightarrow> part_info" where
  "resize blockSize p ug = p\<lparr>p_size := of_nat (snd ug) * ucast blockSize\<rparr>"

lemma size_parts_percent:
  assumes "p_offset p = 0" "p_size p \<le> 100" "blockAlign \<noteq> 0"
    "v_align_up (avail * p_size p div 100) blockAlign = blocks"
    "got = (if used + blocks > avail then avail - used else blocks)"
  shows "size_parts avail blockSize blockAlign minOff maxOff used (p # ps) =
    (if used + blocks > avail \<and> got = 0 then Ret (p # ps, Inl NoSpace)
     else case size_parts avail blockSize blockAlign minOff maxOff (used + got) ps of
         Fault \<Rightarrow> Fault | Ret (ps', r) \<Rightarrow> Ret (p\<lparr>p_size := got * ucast blockSize\<rparr> # ps', r))"
  using assms by (simp add: Let_def cong: run.case_cong)

lemma size_parts_plan:
  assumes "T \<le> 2 ^ 56" "blockAlign \<noteq> 0" "unat blockAlign \<le> 2 ^ 20" 
    "\<forall>p \<in> set table. p_offset p = 0 \<and> unat (p_size p) \<le> 100" "used \<le> T"
  shows "case plan T (unat blockAlign) used (map (\<lambda>p. unat (p_size p)) table) of
      None \<Rightarrow> \<exists>t. size_parts (of_nat T) blockSize blockAlign minOff maxOff (of_nat used) table = Ret (t, Inl NoSpace)
    | Some pl \<Rightarrow> \<exists>u \<le> T. size_parts (of_nat T) blockSize blockAlign minOff maxOff (of_nat used) table
        = Ret (map2 (resize blockSize) table pl, Inr (of_nat u))"
  using assms(4,5)
proof (induction table arbitrary: used)
  case Nil
  then show ?case by auto
next
  case (Cons p ps)
  let ?a = "unat blockAlign" let ?sh = "share T (unat blockAlign) (unat (p_size p))"
  define got where "got = (if used + ?sh > T then T - used else ?sh)"
  have p: "p_offset p = 0" "unat (p_size p) \<le> 100" "p_size p \<le> 100"
    using Cons.prems(1) by (auto simp: word_le_nat_alt)
  have shle: "?sh \<le> T + ?a - 1" using assms(2) p by (intro share_le) (auto simp: unat_gt_0)
  have small: "used + ?sh < 2 ^ 64" "T < 2 ^ 64" "T - used < 2 ^ 64"
    using shle assms(1,3) Cons.prems(2) by auto
  have sh: "v_align_up (of_nat T * p_size p div 100) blockAlign = of_nat ?sh"
    using assms p by (simp add: share_word)
  have cmp: "(of_nat T :: u64) < of_nat used + of_nat ?sh \<longleftrightarrow> T < used + ?sh"
    using of_nat_u64_less [OF small(2,1)] by simp
  have sub: "(of_nat T :: u64) - of_nat used = of_nat (T - used)" using Cons.prems(2) by simp
  have zero: "(of_nat (T - used) :: u64) = 0 \<longleftrightarrow> T - used = 0"
    using of_nat_u64_eq [OF small(3), of 0] by simp
  have g: "(if of_nat used + of_nat ?sh > (of_nat T :: u64) then of_nat T - of_nat used else of_nat ?sh)
      = (of_nat got :: u64)"
    by (simp add: cmp sub got_def)
  have ne: "(of_nat used + of_nat ?sh > (of_nat T :: u64) \<and> of_nat got = (0 :: u64)) \<longleftrightarrow> (T < used + ?sh \<and> got = 0)"
    using zero by (auto simp: cmp got_def)
  have step: "size_parts (of_nat T) blockSize blockAlign minOff maxOff (of_nat used) (p # ps) =
    (if T < used + ?sh \<and> got = 0 then Ret (p # ps, Inl NoSpace)
     else case size_parts (of_nat T) blockSize blockAlign minOff maxOff (of_nat (used + got)) ps of
         Fault \<Rightarrow> Fault | Ret (ps', r) \<Rightarrow> Ret (resize blockSize p (used, got) # ps', r))"
    unfolding size_parts_percent [OF p(1,3) assms(2) sh g [symmetric]] ne
    by (simp add: resize_def cong: run.case_cong)
  show ?case
  proof (cases "T < used + ?sh \<and> got = 0")
    case True
    then show ?thesis unfolding step by (auto simp: Let_def got_def)
  next
    case False
    have le: "used + got \<le> T" using Cons.prems by (auto simp: got_def)
    have pl: "plan T ?a used (map (\<lambda>p. unat (p_size p)) (p # ps)) =
       map_option (\<lambda>pl. (used, got) # pl) (plan T ?a (used + got) (map (\<lambda>p. unat (p_size p)) ps))"
      using False by (cases "T < used + ?sh") (auto simp: Let_def got_def)
    from Cons.IH [OF _ le] Cons.prems False show ?thesis
      unfolding pl step
      by (cases "plan T ?a (used + got) (map (\<lambda>p. unat (p_size p)) ps)") auto
  qed
qed


section \<open>Placing the partitions\<close>

definition placed :: "(nat \<Rightarrow> u64) \<Rightarrow> part_info list \<Rightarrow> nat \<Rightarrow> part_info list" where
  "placed off t k = map (\<lambda>i. (t ! i)\<lparr>p_offset := (if i < k then off i else 0)\<rparr>) [0..<length t]"

lemma placed_simps [simp]:
  "length (placed off t k) = length t"
  "i < length t \<Longrightarrow> p_offset (placed off t k ! i) = (if i < k then off i else 0)"
  "i < length t \<Longrightarrow> p_size (placed off t k ! i) = p_size (t ! i)"
  by (auto simp: placed_def)

lemma placed_step:
  "k < length t \<Longrightarrow> (placed off t k)[k := (placed off t k ! k)\<lparr>p_offset := off k\<rparr>] = placed off t (Suc k)"
  by (rule nth_equalityI) (auto simp: placed_def nth_list_update less_Suc_eq)

lemma find_gap_skip:
  "(\<And>j. j \<in> set js \<Longrightarrow> p_offset (t ! j) = 0) \<Longrightarrow>
   find_gap t sz maxOff e (js @ ks) = find_gap t sz maxOff e ks"
  by (induction js) auto

lemma sortList_key: "sort_law L \<Longrightarrow> sortList L t ptrs = sort_key (\<lambda>i. p_offset (t ! i)) ptrs"
  by (simp add: sortList_def offset_cmp_def sort_law_def)

text \<open>Sorting moves the partition just placed behind those placed before it.\<close>

lemma sort_key_rotate:
  fixes key :: "nat \<Rightarrow> 'a::linorder"
  assumes "k < n" "\<And>i. k < i \<Longrightarrow> i < n \<Longrightarrow> key i = z"
    and "\<And>i. i \<le> k \<Longrightarrow> z < key i" and "\<And>i j. i < j \<Longrightarrow> j \<le> k \<Longrightarrow> key i < key j"
  shows "sort_key key ([k..<n] @ [0..<k]) = [Suc k..<n] @ [0..<Suc k]"
proof (rule properties_for_sort_key)
  show "mset ([Suc k..<n] @ [0..<Suc k]) = mset ([k..<n] @ [0..<k])"
    using assms(1) by (simp add: upt_conv_Cons)
next
  fix i assume "i \<in> set ([Suc k..<n] @ [0..<Suc k])"
  then consider "Suc k \<le> i" "i < n" | "i \<le> k" by force
  then show "filter (\<lambda>x. key i = key x) ([Suc k..<n] @ [0..<Suc k])
           = filter (\<lambda>x. key i = key x) ([k..<n] @ [0..<k])"
  proof cases
    case 1
    then have z: "key i = z" using assms(2) by simp
    have ne: "z \<noteq> key i" if "i \<le> k" for i using assms(3) [OF that] by simp
    then have "filter (\<lambda>x. z = key x) [0..<Suc k] = []" "filter (\<lambda>x. z = key x) [0..<k] = []"
      by (simp_all add: filter_empty_conv del: upt_Suc)
    then show ?thesis using assms(1) z ne [of k] by (simp add: upt_conv_Cons del: upt_Suc)
  next
    case 2
    have "filter (\<lambda>x. key i = key x) [Suc k..<n] = []"
      using assms(2) assms(3) [OF 2] by (auto simp: filter_empty_conv)
    moreover have "filter (\<lambda>x. key i = key x) [0..<k] = []" if "key i = key k"
    proof -
      have "i = k" using 2 assms(4) [of i k] that by (cases "i = k") auto
      then show ?thesis using assms(4) [of _ k] by (simp add: filter_empty_conv less_imp_neq [symmetric])
    qed
    ultimately show ?thesis using assms(1) by (auto simp: upt_conv_Cons)
  qed
next
  have "sorted (map key [Suc k..<n])" using assms(2) by (auto simp: sorted_map sorted_wrt_iff_nth_less)
  moreover have "sorted (map key [0..<Suc k])"
    using assms(4) by (auto simp: sorted_iff_nth_mono_less simp del: upt_Suc intro: less_imp_le)
  moreover have "key i \<le> key j" if "i \<in> set [Suc k..<n]" "j \<in> set [0..<Suc k]" for i j
    using that assms(2,3) by (auto intro: less_imp_le)
  ultimately show "sorted (map key ([Suc k..<n] @ [0..<Suc k]))"
    by (auto simp: sorted_append simp del: upt_Suc)
qed

lemma find_gap_placed:
  assumes "j < k" "k < length t"
    and "\<And>i. i < length t \<Longrightarrow> off i \<noteq> 0 \<and> p_size (t ! i) \<noteq> 0"
    and "\<And>i. Suc i < length t \<Longrightarrow> v_align_up (off i + p_size (t ! i)) PARTITION_ALIGN = off (Suc i)"
    and "p_size (t ! k) \<le> maxOff + 1 - off k"
  shows "find_gap (placed off t k) (p_size (t ! k)) maxOff e [j..<k] = Some (off k)"
  using assms(1)
proof (induction "k - j" arbitrary: j e)
  case 0
  then show ?case by simp
next
  case (Suc d)
  have j: "j < length t" "off j \<noteq> 0" "v_align_up (off j + p_size (t ! j)) PARTITION_ALIGN = off (Suc j)"
    using Suc.prems assms(2,3) assms(4) [of j] by auto
  show ?case
  proof (cases "Suc j = k")
    case True
    then show ?thesis using Suc.prems j assms(5) by (simp add: upt_conv_Cons)
  next
    case False
    then have IH: "find_gap (placed off t k) (p_size (t ! k)) maxOff (off (Suc j)) [Suc j..<k] = Some (off k)"
      using Suc by auto
    have "[j..<k] = j # Suc j # [Suc (Suc j)..<k]" using False Suc.prems by (simp add: upt_conv_Cons)
    moreover have "[Suc j..<k] = Suc j # [Suc (Suc j)..<k]" using False Suc.prems by (simp add: upt_conv_Cons)
    moreover have "\<not> p_size (t ! k) \<le> 0" using assms(2,3) by (simp add: word_le_0_iff)
    ultimately show ?thesis using IH False Suc.prems j assms(2) by simp
  qed
qed

lemma assign_offsets_placed:
  assumes "sort_law L" "0 < length t"
    and "\<And>i. i < length t \<Longrightarrow> off i \<noteq> 0 \<and> p_size (t ! i) \<noteq> 0"
    and "\<And>i. Suc i < length t \<Longrightarrow> v_align_up (off i + p_size (t ! i)) PARTITION_ALIGN = off (Suc i)"
    and "\<And>i. i < length t \<Longrightarrow> p_size (t ! i) \<le> maxOff + 1 - off i"
    and "off 0 = minOff" and "\<And>i j. i < j \<Longrightarrow> j < length t \<Longrightarrow> off i < off j"
    and "k \<le> length t"
  shows "assign_offsets L minOff maxOff (placed off t k) ([k..<length t] @ [0..<k])
       = Some (Ret ((placed off t (length t), [0..<length t]), Success))"
  using assms(8)
proof (induction "length t - k" arbitrary: k)
  case 0
  then have "k = length t" by simp
  moreover have "[0..<length t] = 0 # [1..<length t]" using assms(2) by (simp add: upt_conv_Cons)
  ultimately show ?case using assms(2,3) by (subst assign_offsets.simps) auto
next
  case (Suc d)
  then have k: "k < length t" by simp
  let ?n = "length t" and ?t = "placed off t k" and ?t' = "placed off t (Suc k)"
  have ptrs: "[k..<?n] @ [0..<k] = k # ([Suc k..<?n] @ [0..<k])"
    using k by (simp add: upt_conv_Cons)
  have "find_gap ?t (p_size (t ! k)) maxOff minOff ([Suc k..<?n] @ [0..<k])
      = find_gap ?t (p_size (t ! k)) maxOff minOff [0..<k]"
    by (rule find_gap_skip) auto
  also have "\<dots> = Some (off k)"
    using find_gap_placed [of 0 k t off maxOff minOff] assms k by (cases "k = 0") auto
  finally have gap: "find_gap ?t (p_size (?t ! k)) maxOff minOff ([Suc k..<?n] @ [0..<k]) = Some (off k)"
    using k by simp
  have srt: "sortList L ?t' ([k..<?n] @ [0..<k]) = [Suc k..<?n] @ [0..<Suc k]"
  proof -
    have "sort_key (\<lambda>i. p_offset (?t' ! i)) ([k..<?n] @ [0..<k]) = [Suc k..<?n] @ [0..<Suc k]"
      by (rule sort_key_rotate [where z = 0])
        (use k assms(3,7) in \<open>auto simp: word_gt_0 less_Suc_eq_le\<close>)
    then show ?thesis using assms(1) by (simp add: sortList_key)
  qed
  have "assign_offsets L minOff maxOff ?t ([k..<?n] @ [0..<k])
      = assign_offsets L minOff maxOff ?t' ([Suc k..<?n] @ [0..<Suc k])"
    using gap k srt unfolding ptrs
    by (subst assign_offsets.simps) (simp add: placed_step Let_def del: upt_Suc)
  also have "\<dots> = Some (Ret ((placed off t ?n, [0..<?n]), Success))"
    using Suc.hyps(1) [of "Suc k"] Suc.hyps(2) k by (simp del: upt_Suc)
  finally show ?case .
qed

section \<open>The plan in bytes\<close>

text \<open>
  A region of \<open>T\<close> blocks of \<open>2 ^ b\<close> bytes from block \<open>F\<close> on, aligned and small enough for the
  code's 64-bit arithmetic to be exact (64 PiB).
\<close>

definition region_ok :: "nat \<Rightarrow> nat \<Rightarrow> nat \<Rightarrow> bool" where
  "region_ok b F T \<longleftrightarrow> b \<le> 20 \<and> 0 < F \<and> 2 ^ (20 - b) dvd F \<and> 100 \<le> T \<and> (F + T) * 2 ^ b \<le> 2 ^ 56"

definition plan_ok :: "nat \<Rightarrow> nat \<Rightarrow> (nat \<times> nat) list \<Rightarrow> bool" where
  "plan_ok T a pl \<longleftrightarrow> (pl \<noteq> [] \<longrightarrow> fst (pl ! 0) = 0) \<and>
     (\<forall>i < length pl. 0 < snd (pl ! i) \<and> fst (pl ! i) + snd (pl ! i) \<le> T \<and> a dvd fst (pl ! i)) \<and>
     (\<forall>i. Suc i < length pl \<longrightarrow> fst (pl ! Suc i) = fst (pl ! i) + snd (pl ! i))"

lemma plan_imp_plan_ok:
  assumes "plan T a 0 ps = Some pl" "0 < a" "100 \<le> T" "\<forall>p \<in> set ps. 1 \<le> p"
  shows "plan_ok T a pl" "length pl = length ps"
  using plan_chain [OF assms(1)] assms(2-4) by (simp_all add: plan_ok_def)

lemma plan_okD:
  assumes "plan_ok T a pl" "i < length pl"
  shows "0 < snd (pl ! i)" "fst (pl ! i) + snd (pl ! i) \<le> T" "fst (pl ! i) \<le> T" "snd (pl ! i) \<le> T"
    "a dvd fst (pl ! i)" "Suc i < length pl \<Longrightarrow> fst (pl ! Suc i) = fst (pl ! i) + snd (pl ! i)"
  using assms by (auto simp: plan_ok_def dest: add_leD1 add_leD2)

lemma plan_ok_increasing:
  assumes "plan_ok T a pl" "i < j" "j < length pl"
  shows "fst (pl ! i) + snd (pl ! i) \<le> fst (pl ! j)"
  using assms(2,3)
proof (induction j)
  case 0
  then show ?case by simp
next
  case (Suc j)
  have j: "fst (pl ! Suc j) = fst (pl ! j) + snd (pl ! j)"
    using plan_okD(6) [OF assms(1)] Suc.prems by simp
  show ?case
  proof (cases "i = j")
    case True
    then show ?thesis using j by simp
  next
    case False
    then have "fst (pl ! i) + snd (pl ! i) \<le> fst (pl ! j)" using Suc by simp
    then show ?thesis using j by simp
  qed
qed

definition byte_off :: "nat \<Rightarrow> nat \<Rightarrow> (nat \<times> nat) list \<Rightarrow> nat \<Rightarrow> u64" where
  "byte_off b F pl i = of_nat ((F + fst (pl ! i)) * 2 ^ b)"

definition byte_size :: "nat \<Rightarrow> (nat \<times> nat) list \<Rightarrow> nat \<Rightarrow> u64" where
  "byte_size b pl i = of_nat (snd (pl ! i) * 2 ^ b)"

lemma region_bytes:
  assumes "region_ok b F T" "x \<le> F + T"
  shows "x * 2 ^ b \<le> 2 ^ 56" "x * 2 ^ b < 2 ^ 64"
proof -
  have "x * 2 ^ b \<le> (F + T) * 2 ^ b" using assms(2) by (rule mult_le_mono1)
  also have "\<dots> \<le> 2 ^ 56" using assms(1) by (simp add: region_ok_def)
  finally show "x * 2 ^ b \<le> 2 ^ 56" .
  then show "x * 2 ^ b < 2 ^ 64" by simp
qed

lemma unat_byte_off:
  assumes "region_ok b F T" "plan_ok T a pl" "i < length pl"
  shows "unat (byte_off b F pl i) = (F + fst (pl ! i)) * 2 ^ b"
  unfolding byte_off_def
  by (rule unat_of_nat_u64, rule region_bytes(2) [OF assms(1)]) (use plan_okD(3) [OF assms(2,3)] in simp)

lemma unat_byte_size:
  assumes "region_ok b F T" "plan_ok T a pl" "i < length pl"
  shows "unat (byte_size b pl i) = snd (pl ! i) * 2 ^ b"
  unfolding byte_size_def
  by (rule unat_of_nat_u64, rule region_bytes(2) [OF assms(1)]) (use plan_okD(4) [OF assms(2,3)] in simp)

lemma byte_nonzero:
  assumes "region_ok b F T" "plan_ok T a pl" "i < length pl"
  shows "byte_off b F pl i \<noteq> 0" "byte_size b pl i \<noteq> 0"
  using unat_byte_off [OF assms] unat_byte_size [OF assms] plan_okD(1) [OF assms(2,3)] assms(1)
  by (auto simp: region_ok_def simp flip: unat_eq_0)

lemma byte_off_aligned:
  assumes "region_ok b F T" "plan_ok T (2 ^ (20 - b)) pl" "i < length pl"
  shows "2 ^ 20 dvd unat (byte_off b F pl i)"
proof -
  have b: "(2 ^ (20 - b) * 2 ^ b :: nat) = 2 ^ 20"
    using assms(1) by (simp add: region_ok_def flip: power_add)
  have "2 ^ (20 - b) dvd F + fst (pl ! i)"
    using plan_okD(5) [OF assms(2,3)] assms(1) by (simp add: region_ok_def)
  then have "2 ^ (20 - b) * 2 ^ b dvd (F + fst (pl ! i)) * 2 ^ b" by (rule mult_dvd_mono) simp
  then show ?thesis unfolding unat_byte_off [OF assms] b .
qed

lemma byte_off_adjacent:
  assumes "region_ok b F T" "plan_ok T (2 ^ (20 - b)) pl" "Suc i < length pl"
  shows "v_align_up (byte_off b F pl i + byte_size b pl i) PARTITION_ALIGN = byte_off b F pl (Suc i)"
proof -
  have "byte_off b F pl i + byte_size b pl i = byte_off b F pl (Suc i)"
    using plan_okD(6) [OF assms(2) Suc_lessD [OF assms(3)] assms(3)]
    by (simp add: byte_off_def byte_size_def algebra_simps)
  moreover have "unat (byte_off b F pl (Suc i)) \<le> 2 ^ 56"
    unfolding unat_byte_off [OF assms] using plan_okD(3) [OF assms(2,3)]
    by (intro region_bytes(1) [OF assms(1)]) simp
  ultimately show ?thesis using byte_off_aligned [OF assms]
    by (simp add: v_align_up_exact PARTITION_ALIGN_def)
qed

lemma byte_off_fits:
  assumes "region_ok b F T" "plan_ok T a pl" "i < length pl"
  shows "byte_size b pl i \<le> (of_nat F + of_nat T) * 2 ^ b - 1 + 1 - byte_off b F pl i"
proof -
  let ?f = "fst (pl ! i)"
  have "(of_nat F + of_nat T) * 2 ^ b - 1 + 1 - byte_off b F pl i
      = of_nat ((F + T) * 2 ^ b) - (of_nat ((F + ?f) * 2 ^ b) :: u64)"
    by (simp add: byte_off_def algebra_simps)
  also have "\<dots> = of_nat ((F + T) * 2 ^ b - (F + ?f) * 2 ^ b)"
    using plan_okD(3) [OF assms(2,3)] by (subst of_nat_diff) simp_all
  also have "(F + T) * 2 ^ b - (F + ?f) * 2 ^ b = (T - ?f) * 2 ^ b"
    by (simp flip: diff_mult_distrib)
  finally have e: "(of_nat F + of_nat T) * 2 ^ b - 1 + 1 - byte_off b F pl i = of_nat ((T - ?f) * 2 ^ b)" .
  have "unat (of_nat ((T - ?f) * 2 ^ b) :: u64) = (T - ?f) * 2 ^ b"
    by (rule unat_of_nat_u64, rule region_bytes(2) [OF assms(1)]) simp
  moreover have "snd (pl ! i) * 2 ^ b \<le> (T - ?f) * 2 ^ b"
    by (rule mult_le_mono1) (use plan_okD(2) [OF assms(2,3)] in linarith)
  ultimately show ?thesis
    unfolding e word_le_nat_alt unat_byte_size [OF assms] by simp
qed

lemma byte_off_increasing:
  assumes "region_ok b F T" "plan_ok T a pl" "i < j" "j < length pl"
  shows "byte_off b F pl i < byte_off b F pl j"
  using plan_ok_increasing [OF assms(2-4)] plan_okD(1) [OF assms(2), of i] assms
  by (simp add: word_less_nat_alt unat_byte_off [OF assms(1,2)])

lemma of_nat_minus_1_mono:
  assumes "x \<le> y" "0 < x" "y < 2 ^ 64"
  shows "of_nat x - 1 \<le> (of_nat y - 1 :: u64)"
proof -
  have "of_nat x - 1 = (of_nat (x - 1) :: u64)" "of_nat y - 1 = (of_nat (y - 1) :: u64)"
    using assms by (simp_all add: of_nat_diff)
  moreover have "unat (of_nat (x - 1) :: u64) = x - 1" "unat (of_nat (y - 1) :: u64) = y - 1"
    using assms by (simp_all only: unat_of_nat_u64)
  ultimately show ?thesis using assms(1) by (simp add: word_le_nat_alt)
qed

lemma byte_off_end:
  assumes "region_ok b F T" "plan_ok T a pl" "i < length pl"
  shows "byte_off b F pl i + byte_size b pl i - 1 \<le> (of_nat F + of_nat T) * 2 ^ b - 1"
proof -
  let ?e = "(F + (fst (pl ! i) + snd (pl ! i))) * 2 ^ b"
  have "of_nat ?e - 1 \<le> (of_nat ((F + T) * 2 ^ b) - 1 :: u64)"
  proof (rule of_nat_minus_1_mono)
    show "?e \<le> (F + T) * 2 ^ b" using plan_okD(2) [OF assms(2,3)] by simp
    show "0 < ?e" using plan_okD(1) [OF assms(2,3)] by simp
    show "(F + T) * 2 ^ b < 2 ^ 64" by (rule region_bytes(2) [OF assms(1)]) simp
  qed
  then show ?thesis by (simp add: byte_off_def byte_size_def algebra_simps)
qed

section \<open>Percentages become the plan\<close>

definition apply_plan :: "nat \<Rightarrow> nat \<Rightarrow> part_info list \<Rightarrow> (nat \<times> nat) list \<Rightarrow> part_info list" where
  "apply_plan b F t pl =
     map (\<lambda>i. (t ! i)\<lparr>p_offset := byte_off b F pl i, p_size := byte_size b pl i\<rparr>) [0..<length t]"

lemma apply_plan_simps [simp]:
  "length (apply_plan b F t pl) = length t"
  "i < length t \<Longrightarrow> apply_plan b F t pl ! i = (t ! i)\<lparr>p_offset := byte_off b F pl i, p_size := byte_size b pl i\<rparr>"
  by (simp_all add: apply_plan_def)

lemma sized_table:
  assumes "b \<le> 20" "length pl = length table" "i < length table"
  shows "map2 (resize (2 ^ b)) table pl ! i = (table ! i)\<lparr>p_size := byte_size b pl i\<rparr>"
  using assms by (simp add: resize_def ucast_pow2 byte_size_def)

lemma assign_offsets_plan:
  assumes "sort_law L" and r: "region_ok b F T" and pl: "plan_ok T (2 ^ (20 - b)) pl" "length pl = length table"
    and "table \<noteq> []" "\<forall>p \<in> set table. p_offset p = 0" and t: "t = map2 (resize (2 ^ b)) table pl"
  shows "assign_offsets L (of_nat F * 2 ^ b) ((of_nat F + of_nat T) * 2 ^ b - 1) t (sortList L t [0..<length t])
      = Some (Ret ((apply_plan b F table pl, [0..<length table]), Success))"
proof -
  let ?n = "length table" and ?off = "byte_off b F pl"
  have b: "b \<le> 20" using r by (simp add: region_ok_def)
  have len: "length t = ?n" using pl(2) by (simp add: t)
  have ti: "t ! i = (table ! i)\<lparr>p_size := byte_size b pl i\<rparr>" if "i < ?n" for i
    using sized_table [OF b pl(2) that] by (simp add: t)
  have z: "p_offset (t ! i) = 0" if "i < ?n" for i using that assms(6) by (simp add: ti)
  have "sorted (map (\<lambda>i. p_offset (t ! i)) [0..<?n])" by (simp add: z sorted_iff_nth_mono)
  then have s: "sortList L t [0..<length t] = [0..<length t] @ [0..<0]"
    using assms(1) by (simp add: sortList_key len sort_key_id_if_sorted)
  have t0: "t = placed ?off t 0"
    by (rule nth_equalityI) (auto simp: placed_def z len)
  have "fst (pl ! 0) = 0" using pl assms(5) by (cases pl) (simp_all add: plan_ok_def)
  then have "assign_offsets L (of_nat F * 2 ^ b) ((of_nat F + of_nat T) * 2 ^ b - 1) (placed ?off t 0)
      ([0..<length t] @ [0..<0]) = Some (Ret ((placed ?off t (length t), [0..<length t]), Success))"
    using assms(1,5) len pl(2) r pl(1)
    by (intro assign_offsets_placed)
      (simp_all add: ti byte_nonzero byte_off_adjacent byte_off_fits [simplified] byte_off_increasing byte_off_def [of b F pl 0])
  moreover have "placed ?off t (length t) = apply_plan b F table pl"
    by (rule nth_equalityI) (simp_all add: len placed_def ti)
  ultimately show ?thesis using t0 s len by simp
qed

definition percentages :: "part_info list \<Rightarrow> bool" where
  "percentages table \<longleftrightarrow>
     table \<noteq> [] \<and> (\<forall>p \<in> set table. p_offset p = 0 \<and> 1 \<le> p_size p \<and> p_size p \<le> 100)"

definition shares :: "part_info list \<Rightarrow> nat list" where
  "shares table = map (\<lambda>p. unat (p_size p)) table"

lemma percentagesD:
  assumes "percentages table"
  shows "table \<noteq> []" "\<forall>p \<in> set table. p_offset p = 0 \<and> unat (p_size p) \<le> 100"
    "\<forall>p \<in> set (shares table). 1 \<le> p" "\<forall>p \<in> set table. p_offset p = 0"
  using assms by (auto simp: percentages_def shares_def word_le_nat_alt)

lemma region_words:
  assumes "region_ok b F T"
  shows "(of_nat F :: u64) \<noteq> 0" "(2 ^ b :: u32) \<noteq> 0" "PARTITION_ALIGN div 2 ^ b = (2 ^ (20 - b) :: u32)"
    "T \<le> 2 ^ 56" "unat (2 ^ (20 - b) :: u32) = 2 ^ (20 - b)"
proof -
  have b: "b \<le> 20" "0 < F" using assms by (simp_all add: region_ok_def)
  have "F * 1 \<le> F * 2 ^ b" "T * 1 \<le> T * 2 ^ b" by (intro mult_le_mono2, simp)+
  then have le: "F \<le> 2 ^ 56" "T \<le> 2 ^ 56"
    using region_bytes(1) [OF assms, of F] region_bytes(1) [OF assms, of T] by linarith+
  then show "T \<le> 2 ^ 56" by simp
  show "(of_nat F :: u64) \<noteq> 0" using le b of_nat_u64_eq [of F 0] by simp
  show "(2 ^ b :: u32) \<noteq> 0" using b by (simp add: word_unat_eq_iff unat_pow2)
  show k: "unat (2 ^ (20 - b) :: u32) = 2 ^ (20 - b)" by (simp add: unat_pow2)
  show "PARTITION_ALIGN div 2 ^ b = (2 ^ (20 - b) :: u32)"
    using b by (simp add: word_unat_eq_iff unat_div unat_pow2 PARTITION_ALIGN_def power_diff)
qed

lemma plan_succeeds_iff:
  assumes "0 < a" "100 \<le> T" "\<forall>p \<in> set ps. 1 \<le> p" "used \<le> T"
  shows "plan T a used ps \<noteq> None \<longleftrightarrow> ps = [] \<or> used + sum_list (map (share T a) (butlast ps)) < T"
  using assms(3,4)
proof (induction ps arbitrary: used)
  case Nil
  then show ?case by simp
next
  case (Cons p ps)
  have pos: "0 < share T a q" if "q \<in> set (p # ps)" for q
    using that Cons.prems(1) assms by (intro share_pos) auto
  show ?case
  proof (cases "used + share T a p > T")
    case True
    have "plan T a T ps = None" if "ps \<noteq> []"
      using that pos by (cases ps) (auto simp: Let_def)
    with True show ?thesis using Cons.prems(2) by (cases ps) (auto simp: Let_def)
  next
    case False
    have IH: "plan T a (used + share T a p) ps \<noteq> None \<longleftrightarrow>
        ps = [] \<or> (used + share T a p) + sum_list (map (share T a) (butlast ps)) < T"
      using False Cons.prems by (intro Cons.IH) auto
    have e: "plan T a used (p # ps) \<noteq> None \<longleftrightarrow> plan T a (used + share T a p) ps \<noteq> None"
      using False by (simp add: Let_def)
    show ?thesis unfolding e IH using False pos [of p] by (auto simp: add.assoc)
  qed
qed

text \<open>An entry as \<^verbatim>\<open>PartitionTable::add\<close> creates it, for examples.\<close>

definition fresh_part :: "u64 \<Rightarrow> u64 \<Rightarrow> part_info" where
  "fresh_part off sz = \<lparr>typeGuid = null_uuid, uniqueGuid = null_uuid, systype = SysFat16, sysind = SI_FAT16B,
     p_name = [], p_type = 1, p_subtype = 1, p_offset = off, p_size = sz\<rparr>"

section \<open>The assignment loop returns\<close>

text \<open>Every round places one partition, at an offset that is not zero as long as no sum wraps.\<close>

definition unplaced :: "part_info list \<Rightarrow> nat list \<Rightarrow> nat list" where
  "unplaced t ptrs = filter (\<lambda>i. p_offset (t ! i) = 0) ptrs"

lemma find_gap_bounds:
  assumes "find_gap t sz maxOff e0 js = Some e" "e0 \<noteq> 0" "unat e0 < M + 2 ^ 20" "M + 2 ^ 20 \<le> 2 ^ 64"
    and "\<forall>j \<in> set js. p_offset (t ! j) \<noteq> 0 \<longrightarrow> unat (p_offset (t ! j)) + unat (p_size (t ! j)) \<le> M"
  shows "e \<noteq> 0 \<and> unat e < M + 2 ^ 20"
  using assms(1-3,5)
proof (induction js arbitrary: e0)
  case Nil
  then show ?case by simp
next
  case (Cons j js)
  show ?case
  proof (cases "p_offset (t ! j) = 0")
    case True
    then show ?thesis using Cons by simp
  next
    case False
    define s where "s = p_offset (t ! j) + p_size (t ! j)"
    define e1 where "e1 = v_align_up s PARTITION_ALIGN"
    have le: "unat (p_offset (t ! j)) + unat (p_size (t ! j)) \<le> M" using Cons.prems(4) False by simp
    then have "unat (p_offset (t ! j)) + unat (p_size (t ! j)) < 2 ^ LENGTH(64)" using assms(4) by simp
    then have s: "unat s = unat (p_offset (t ! j)) + unat (p_size (t ! j))"
      unfolding s_def by (rule unat_add_lem [THEN iffD1])
    have A: "unat PARTITION_ALIGN = 2 ^ 20" by (simp add: PARTITION_ALIGN_def)
    have e1: "unat e1 = (unat s + 2 ^ 20 - 1) div 2 ^ 20 * 2 ^ 20"
      unfolding e1_def using unat_v_align_up [of PARTITION_ALIGN s] le s assms(4)
      by (simp add: A PARTITION_ALIGN_def)
    have "0 < unat s" using False s by (simp add: unat_gt_0)
    then have "unat s \<le> unat e1" "unat e1 < unat s + 2 ^ 20"
      unfolding e1 using round_up_bounds [of "2 ^ 20" "unat s"] by simp_all
    then have e1ok: "e1 \<noteq> 0" "unat e1 < M + 2 ^ 20" using \<open>0 < unat s\<close> s le by (auto simp flip: unat_eq_0)
    have "find_gap t sz maxOff e0 (j # js) = Some e1 \<or> find_gap t sz maxOff e0 (j # js) = find_gap t sz maxOff e1 js
        \<or> find_gap t sz maxOff e0 (j # js) = None"
      using False by (auto simp: Let_def e1_def s_def split: list.splits if_splits)
    then show ?thesis using Cons.prems(1,4) Cons.IH [of e1] e1ok by auto
  qed
qed

lemma assign_offsets_returns:
  assumes "sort_law L" "minOff \<noteq> 0" "unat minOff < M + 2 ^ 20"
    and "M + sum_list (map (\<lambda>i. unat (p_size (t ! i)) + 2 ^ 20) (unplaced t ptrs)) + 2 ^ 20 \<le> 2 ^ 64"
    and "\<forall>j \<in> set ptrs. p_offset (t ! j) \<noteq> 0 \<longrightarrow> unat (p_offset (t ! j)) + unat (p_size (t ! j)) \<le> M"
    and "distinct ptrs" "set ptrs \<subseteq> {0..<length t}"
  shows "assign_offsets L minOff maxOff t ptrs \<noteq> None"
  using assms(3-7)
proof (induction "length (unplaced t ptrs)" arbitrary: M t ptrs rule: less_induct)
  case less
  show ?case
  proof (cases ptrs)
    case Nil
    then show ?thesis by (subst assign_offsets.simps) simp
  next
    case (Cons pz rest)
    show ?thesis
    proof (cases "p_offset (t ! pz) \<noteq> 0 \<or> find_gap t (p_size (t ! pz)) maxOff minOff rest = None")
      case True
      then show ?thesis by (subst assign_offsets.simps) (auto simp: Cons)
    next
      case False
      then obtain e where z: "p_offset (t ! pz) = 0" and e: "find_gap t (p_size (t ! pz)) maxOff minOff rest = Some e"
        by auto
      define t' where "t' = t[pz := (t ! pz)\<lparr>p_offset := e\<rparr>]"
      define ptrs' where "ptrs' = sortList L t' ptrs"
      have pz: "pz < length t" "pz \<notin> set rest" using less.prems Cons by auto
      have eb: "e \<noteq> 0" "unat e < M + 2 ^ 20"
        using find_gap_bounds [OF e assms(2) less.prems(1)] less.prems(2,3) Cons by simp_all
      have perm: "mset ptrs' = mset ptrs" using assms(1) by (simp add: ptrs'_def sortList_key)
      then have same: "set ptrs' = set ptrs" "distinct ptrs'"
        using less.prems(4) mset_eq_setD mset_eq_imp_distinct_iff by blast+
      have t': "t' ! pz = (t ! pz)\<lparr>p_offset := e\<rparr>" "\<And>j. j \<noteq> pz \<Longrightarrow> t' ! j = t ! j" "length t' = length t"
        using pz by (simp_all add: t'_def)
      have keep: "t' ! j = t ! j" if "j \<in> set rest" for j using that pz t'(2) [of j] by metis
      have "mset (unplaced t' ptrs') = mset (unplaced t' ptrs)" by (simp add: unplaced_def perm)
      moreover have "unplaced t' ptrs = unplaced t rest"
        using t'(1) eb(1) by (simp add: unplaced_def Cons keep cong: filter_cong)
      moreover have "unplaced t ptrs = pz # unplaced t rest" using z by (simp add: unplaced_def Cons)
      ultimately have len: "length (unplaced t' ptrs') < length (unplaced t ptrs)"
        and ms: "mset (unplaced t' ptrs') = mset (unplaced t rest)"
        and un: "unplaced t ptrs = pz # unplaced t rest"
        by (auto dest: mset_eq_length)
      have "sum_list (map (\<lambda>i. unat (p_size (t' ! i)) + 2 ^ 20) (unplaced t' ptrs'))
          = sum_list (map (\<lambda>i. unat (p_size (t ! i)) + 2 ^ 20) (unplaced t rest))"
      proof -
        have "mset (map (\<lambda>i. unat (p_size (t' ! i)) + 2 ^ 20) (unplaced t' ptrs'))
            = mset (map (\<lambda>i. unat (p_size (t' ! i)) + 2 ^ 20) (unplaced t rest))"
          using ms by simp
        also have "map (\<lambda>i. unat (p_size (t' ! i)) + 2 ^ 20) (unplaced t rest)
            = map (\<lambda>i. unat (p_size (t ! i)) + 2 ^ 20) (unplaced t rest)"
          by (rule map_cong) (auto simp: unplaced_def keep)
        finally show ?thesis by (metis sum_mset_sum_list)
      qed
      moreover have "unat (p_offset (t' ! j)) + unat (p_size (t' ! j)) \<le> M + 2 ^ 20 + unat (p_size (t ! pz))"
        if "j \<in> set ptrs'" "p_offset (t' ! j) \<noteq> 0" for j
      proof (cases "j = pz")
        case True
        then show ?thesis using t'(1) eb(2) by simp
      next
        case False
        then have "j \<in> set rest" using that same Cons by simp
        then show ?thesis using keep less.prems(3) that(2) Cons by fastforce
      qed
      ultimately have "assign_offsets L minOff maxOff t' ptrs' \<noteq> None"
        using less.prems(1,2,5) same un t'(3)
        by (intro less.hyps [OF len, of "M + 2 ^ 20 + unat (p_size (t ! pz))"]) auto
      then show ?thesis using e z
        by (subst assign_offsets.simps) (simp add: Cons Let_def t'_def ptrs'_def)
    qed
  qed
qed

section \<open>Properties\<close>

text \<open>C25: For a table of percentages without offsets, \<^verbatim>\<open>validate\<close> terminates and
  computes the plan: the entries get the planned sizes and adjacent offsets, in table order;
  when a share finds no block left it reports \<open>NoSpace\<close>. In particular the final assertion
  never fails.\<close>

theorem validate_percentages:
  assumes "sort_law L" "region_ok b F T" "percentages table"
  shows "case plan T (2 ^ (20 - b)) 0 (shares table) of
      None \<Rightarrow> \<exists>t. validate L table (of_nat F) (of_nat T) (2 ^ b) = Some (Ret (t, NoSpace))
    | Some pl \<Rightarrow> validate L table (of_nat F) (of_nat T) (2 ^ b) = Some (Ret (apply_plan b F table pl, Success))"
proof -
  note w = region_words [OF assms(2)] and p = percentagesD [OF assms(3)]
  have b: "b \<le> 20" and uc: "ucast (2 ^ b :: u32) = (2 ^ b :: u64)"
    using assms(2) by (simp_all add: region_ok_def ucast_pow2)
  have "(2 :: nat) ^ (20 - b) \<le> 2 ^ 20" by (rule power_increasing) simp_all
  then have a: "(2 ^ (20 - b) :: u32) \<noteq> 0" "unat (2 ^ (20 - b) :: u32) \<le> 2 ^ 20"
    using w(5) by (auto simp flip: unat_eq_0)
  let ?min = "of_nat F * 2 ^ b :: u64" and ?max = "(of_nat F + of_nat T) * 2 ^ b - 1 :: u64"
  note sp = size_parts_plan [OF w(4) a p(2), of 0 "2 ^ b" ?min ?max, simplified w(5), folded shares_def]
  show ?thesis
  proof (cases "plan T (2 ^ (20 - b)) 0 (shares table)")
    case None
    with sp obtain t where "size_parts (of_nat T) (2 ^ b) (2 ^ (20 - b)) ?min ?max 0 table = Ret (t, Inl NoSpace)"
      by auto
    then show ?thesis using None w by (simp add: validate_def uc Let_def)
  next
    case (Some pl)
    let ?t = "map2 (resize (2 ^ b)) table pl"
    from Some sp obtain u where u: "u \<le> T"
      "size_parts (of_nat T) (2 ^ b) (2 ^ (20 - b)) ?min ?max 0 table = Ret (?t, Inr (of_nat u))"
      by auto
    have le: "\<not> (of_nat T :: u64) < of_nat u" using u(1) w(4) by (simp add: of_nat_u64_less)
    have pl: "plan_ok T (2 ^ (20 - b)) pl" "length pl = length table"
      using plan_imp_plan_ok [OF Some _ _ p(3)] assms(2) by (simp_all add: region_ok_def shares_def)
    note ao = assign_offsets_plan [OF assms(1,2) pl p(1,4) refl]
    have "last [0..<length table] < length table" using p(1) by (simp add: last_conv_nth)
    then have last: "check_last ?max (apply_plan b F table pl) [0..<length table]"
      using byte_off_end [OF assms(2) pl(1)] pl(2) by (simp add: check_last_def)
    show ?thesis using Some w u(2) le ao last by (simp add: validate_def uc Let_def)
  qed
qed

theorem validate_percentages_witness:
  "validate sming_ref [fresh_part 0 50, fresh_part 0 10, fresh_part 0 35, fresh_part 0 5] 2048 202752 512
   = Some (Ret ([fresh_part 0x100000 0x3200000, fresh_part 0x3300000 0xA00000,
                 fresh_part 0x3D00000 0x2300000, fresh_part 0x6000000 0x400000], Success))"
proof -
  let ?t = "[fresh_part 0 50, fresh_part 0 10, fresh_part 0 35, fresh_part 0 5]"
  have "region_ok 9 2048 202752" by (simp add: region_ok_def)
  moreover have "percentages ?t" by (simp add: percentages_def fresh_part_def)
  moreover have "plan 202752 (2 ^ (20 - 9)) 0 (shares ?t)
      = Some [(0, 102400), (102400, 20480), (122880, 71680), (194560, 8192)]"
    by (simp add: shares_def fresh_part_def share_def)
  ultimately show ?thesis
    using validate_percentages [OF sming_ref_laws(2), of 9 2048 202752 ?t]
    by (simp add: apply_plan_def byte_off_def byte_size_def fresh_part_def upt_rec)
qed

text \<open>C26: It succeeds exactly when the rounded shares of all entries but the last leave
  at least one block for the last.\<close>

theorem validate_percentages_complete:
  assumes "sort_law L" "region_ok b F T" "percentages table"
  shows "(\<exists>t. validate L table (of_nat F) (of_nat T) (2 ^ b) = Some (Ret (t, Success)))
     \<longleftrightarrow> sum_list (map (share T (2 ^ (20 - b))) (butlast (shares table))) < T"
proof -
  note p = percentagesD [OF assms(3)] 
  have T: "100 \<le> T" using assms(2) by (simp add: region_ok_def)
  have "shares table \<noteq> []" using p(1) by (simp add: shares_def)
  then have "plan T (2 ^ (20 - b)) 0 (shares table) \<noteq> None \<longleftrightarrow>
     sum_list (map (share T (2 ^ (20 - b))) (butlast (shares table))) < T"
    using plan_succeeds_iff [OF _ T p(3), of "2 ^ (20 - b)" 0] by simp
  with validate_percentages [OF assms] show ?thesis
    by (auto split: option.splits)
qed

theorem validate_percentages_complete_witness:
  "(\<exists>t. validate sming_ref [fresh_part 0 60, fresh_part 0 40] 2048 202752 512 = Some (Ret (t, Success)))
   \<and> \<not> (\<exists>t. validate sming_ref [fresh_part 0 100, fresh_part 0 1] 2048 202752 512 = Some (Ret (t, Success)))"
proof -
  have r: "region_ok 9 2048 202752" by (simp add: region_ok_def)
  have p: "percentages [fresh_part 0 60, fresh_part 0 40]" "percentages [fresh_part 0 100, fresh_part 0 1]"
    by (simp_all add: percentages_def fresh_part_def)
  show ?thesis
    using validate_percentages_complete [OF sming_ref_laws(2) r p(1)]
      validate_percentages_complete [OF sming_ref_laws(2) r p(2)]
    by (simp add: shares_def fresh_part_def share_def)
qed

text \<open>C27: After a success every partition of such a table is aligned to 1 MiB, lies
  inside the region given to \<^verbatim>\<open>validate\<close>, is not empty and ends where the next one starts; so
  partitions do not overlap and appear in order of position.\<close>

theorem validate_layout:
  assumes "sort_law L" "region_ok b F T" "percentages table"
    and "validate L table (of_nat F) (of_nat T) (2 ^ b) = Some (Ret (t, Success))" "i < length t"
  shows "length t = length table \<and> 2 ^ 20 dvd unat (p_offset (t ! i)) \<and> 0 < unat (p_size (t ! i))
     \<and> F * 2 ^ b \<le> unat (p_offset (t ! i))
     \<and> unat (p_offset (t ! i)) + unat (p_size (t ! i)) \<le> (F + T) * 2 ^ b
     \<and> (Suc i < length t \<longrightarrow> unat (p_offset (t ! i)) + unat (p_size (t ! i)) = unat (p_offset (t ! Suc i)))"
proof -
  obtain pl where pl: "plan T (2 ^ (20 - b)) 0 (shares table) = Some pl" "t = apply_plan b F table pl"
    using validate_percentages [OF assms(1-3)] assms(4) by (auto split: option.splits)
  have ok: "plan_ok T (2 ^ (20 - b)) pl" "length pl = length table"
    using plan_imp_plan_ok [OF pl(1) _ _ percentagesD(3) [OF assms(3)]] assms(2)
    by (simp_all add: region_ok_def shares_def)
  have i: "i < length pl" "i < length table" using assms(5) pl(2) ok(2) by simp_all
  note u = unat_byte_off [OF assms(2) ok(1)] unat_byte_size [OF assms(2) ok(1)]
  have "(fst (pl ! i) + snd (pl ! i)) * 2 ^ b \<le> T * 2 ^ b"
    using plan_okD(2) [OF ok(1) i(1)] by (rule mult_le_mono1)
  then show ?thesis
    using i ok(2) u byte_off_aligned [OF assms(2) ok(1) i(1)] plan_okD(1,6) [OF ok(1) i(1)]
    by (auto simp: pl(2) algebra_simps)
qed

theorem validate_layout_witness:
  "\<exists>t. validate sming_ref [fresh_part 0 60, fresh_part 0 40] 2048 202752 512 = Some (Ret (t, Success))
     \<and> unat (p_offset (t ! 0)) + unat (p_size (t ! 0)) = unat (p_offset (t ! 1))"
proof -
  let ?t = "[fresh_part 0x100000 0x7700000, fresh_part 0x800000 0x400000]"
  have r: "region_ok 9 2048 202752" by (simp add: region_ok_def)
  have p: "percentages [fresh_part 0 60, fresh_part 0 40]"
    by (simp add: percentages_def fresh_part_def)
  have v: "validate sming_ref [fresh_part 0 60, fresh_part 0 40] 2048 202752 512
      = Some (Ret ([fresh_part 0x100000 0x3C00000, fresh_part 0x3D00000 0x2700000], Success))"
    by code_simp
  show ?thesis
    using validate_layout [OF sming_ref_laws(2) r p, of _ 0] v by simp
qed

text \<open>C29: A size given in bytes is added to a count of blocks: a partition of a given size
  is refused with \<open>NoSpace\<close> as soon as its size in bytes exceeds the number of blocks of the
  device, so that on a 100 MB disk with 512-byte sectors a 1 MiB partition is refused.\<close>

theorem explicit_size_counted_in_bytes:
  assumes "firstBlock \<noteq> 0" "blockSize \<noteq> 0" "p_offset p = 0" "100 < p_size p"
    and "totalBlocks < v_align_up (p_size p) PARTITION_ALIGN"
  shows "validate L [p] firstBlock totalBlocks blockSize = Some (Ret ([p], NoSpace))"
proof -
  have "\<not> p_size p \<le> 100" using assms(4) by simp
  then show ?thesis using assms by (simp add: validate_def Let_def v_is_aligned_def)
qed

theorem explicit_size_counted_in_bytes_witness:
  "unat (0x100000 :: u64) \<le> unat (202752 * 512 :: u64) \<and>
   validate sming_ref [fresh_part 0 0x100000] 2048 202752 512 = Some (Ret ([fresh_part 0 0x100000], NoSpace))"
  using explicit_size_counted_in_bytes [of 2048 512 "fresh_part 0 0x100000" 202752 sming_ref]
  by (simp add: fresh_part_def v_align_up_def v_align_def PARTITION_ALIGN_def)



text \<open>A partition that reaches beyond the end of the device is not reported as an error:
  it makes the final assertion fail.\<close>

lemma validate_assertion_reachable:
  "validate sming_ref [fresh_part 0x5A00000 20] 2048 202752 512 = Some Fault"
  by code_simp

text \<open>C28: For any table, with offsets and sizes given or not, \<^verbatim>\<open>validate\<close> returns, provided that
  the sizes it computed (rounded up) could be laid out one after the other within 64 bits.\<close>

theorem validate_returns:
  assumes "sort_law L" "minOff = firstBlock * ucast blockSize" "minOff \<noteq> 0" "unat minOff \<le> M"
    and "maxOff = (firstBlock + totalBlocks) * ucast blockSize - 1"
    and "size_parts totalBlocks blockSize (PARTITION_ALIGN div blockSize) minOff maxOff 0 table = Ret (t, Inr u)"
    and "\<forall>p \<in> set t. unat (p_offset p) + unat (p_size p) \<le> M"
    and "M + sum_list (map (\<lambda>p. unat (p_size p) + 2 ^ 20) t) + 2 ^ 20 \<le> 2 ^ 64"
  shows "\<exists>r. validate L table firstBlock totalBlocks blockSize = Some r"
proof -
  let ?ptrs = "sortList L t [0..<length t]" and ?f = "\<lambda>i. unat (p_size (t ! i)) + 2 ^ 20"
  have perm: "mset ?ptrs = mset [0..<length t]" using assms(1) by (simp add: sortList_key)
  then have set: "set ?ptrs = {0..<length t}" "distinct ?ptrs"
    using mset_eq_setD [OF perm] mset_eq_imp_distinct_iff [OF perm] by simp_all
  have "sum_list (map ?f (unplaced t ?ptrs)) \<le> sum_list (map ?f ?ptrs)"
    unfolding unplaced_def by (rule sum_list_filter_le_nat)
  also have "sum_list (map ?f ?ptrs) = sum_list (map ?f [0..<length t])"
    by (simp only: perm mset_map flip: sum_mset_sum_list)
  also have "map ?f [0..<length t] = map (\<lambda>p. unat (p_size p) + 2 ^ 20) t"
    by (rule nth_equalityI) simp_all
  finally have sum: "M + sum_list (map ?f (unplaced t ?ptrs)) + 2 ^ 20 \<le> 2 ^ 64" using assms(8) by linarith
  have "assign_offsets L minOff maxOff t ?ptrs \<noteq> None"
    using assms(7) set by (intro assign_offsets_returns [OF assms(1,3) _ sum]) (use assms(4) in auto)
  then obtain r where r: "assign_offsets L minOff maxOff t ?ptrs = Some r" by auto
  show ?thesis
  proof (cases "firstBlock = 0 \<or> blockSize = 0 \<or> totalBlocks < u")
    case True
    then show ?thesis using assms(6) by (auto simp: validate_def Let_def simp flip: assms(2,5))
  next
    case False
    then show ?thesis using assms(6) r
      by (cases r) (auto simp: validate_def Let_def simp flip: assms(2,5))
  qed
qed

theorem validate_returns_witness:
  "\<exists>r. validate sming_ref [fresh_part 0x900000 10, fresh_part 0 20] 2048 202752 512 = Some r"
proof -
  let ?t = "[fresh_part 0x900000 0xA00000, fresh_part 0 0x1400000]"
  have "size_parts 202752 512 (PARTITION_ALIGN div 512) (2048 * ucast (512 :: u32))
     ((2048 + 202752) * ucast (512 :: u32) - 1) 0 [fresh_part 0x900000 10, fresh_part 0 20]
     = Ret (?t, Inr 61440)" by code_simp
  then show ?thesis
    using validate_returns [OF sming_ref_laws(2) refl _ _ refl, of 2048 512 "2 ^ 30" 202752 _ ?t 61440]
    by (simp add: fresh_part_def)
qed
end
