(* ===== verification/Buffers.thy ===== *)
theory Buffers
  imports PartInfo
begin

text \<open>
  \<^verbatim>\<open>SectorBuffer.h\<close> (working memory for whole sectors) and \<^verbatim>\<open>Buffer.h\<close> (one cached sector, and
  the direct-mapped table of them). Memory that \<^verbatim>\<open>new\<close> returns is an argument: its content is
  not initialised, and a failed allocation is \<open>None\<close>.
\<close>

section \<open>SectorBuffer\<close>

record sector_buffer =
  sb_data :: "u8 list option"
  mSectorCount :: nat
  mSize :: nat

definition sb_empty :: sector_buffer where
  "sb_empty = \<lparr>sb_data = None, mSectorCount = 0, mSize = 0\<rparr>"

definition sb_new :: "u8 list option \<Rightarrow> nat \<Rightarrow> nat \<Rightarrow> sector_buffer" where
  "sb_new mem sectorSz sectorCnt =
     \<lparr>sb_data = map_option (\<lambda>m. take (sectorSz * sectorCnt) (m @ replicate (sectorSz * sectorCnt) 0)) mem,
      mSectorCount = sectorCnt, mSize = sectorSz * sectorCnt\<rparr>"

definition sb_isset :: "sector_buffer \<Rightarrow> bool" where
  "sb_isset b \<longleftrightarrow> sb_data b \<noteq> None"

definition sb_size :: "sector_buffer \<Rightarrow> nat" where
  "sb_size b = mSize b"

definition sb_sectors :: "sector_buffer \<Rightarrow> u32" where
  "sb_sectors b = of_nat (mSectorCount b)"

definition sb_fill :: "sector_buffer \<Rightarrow> u8 \<Rightarrow> sector_buffer" where
  "sb_fill b val = b\<lparr>sb_data := map_option (\<lambda>m. replicate (mSize b) val @ drop (mSize b) m) (sb_data b)\<rparr>"

definition sb_clear :: "sector_buffer \<Rightarrow> sector_buffer" where
  "sb_clear b = sb_fill b 0"

definition sb_eq :: "sector_buffer \<Rightarrow> sector_buffer \<Rightarrow> bool" where
  "sb_eq b c \<longleftrightarrow> (case (sb_data b, sb_data c) of
      (Some m, Some n) \<Rightarrow> mSize b = mSize c \<and> take (mSize b) m = take (mSize b) n
    | _ \<Rightarrow> False)"

section \<open>Buffer and BufferList\<close>

record buffer =
  bdata :: "u8 list"
  bsector :: u32
  bdirty :: bool

definition buffer_invalid :: u32 where
  "buffer_invalid = - 1"

definition buffer_invalidate :: "buffer \<Rightarrow> buffer" where
  "buffer_invalidate b = b\<lparr>bsector := buffer_invalid, bdirty := False\<rparr>"

text \<open>
  The constructor of \<^verbatim>\<open>BufferList\<close>: \<open>1 << getSizeBits(count)\<close> buffers, all of them invalid;
  \<open>mem i\<close> is the memory that the \<open>i\<close>-th buffer gets.
\<close>

definition bufferlist_new :: "sming \<Rightarrow> (nat \<Rightarrow> u8 list) \<Rightarrow> nat \<Rightarrow> nat \<Rightarrow> buffer list" where
  "bufferlist_new L mem sectorSz cnt =
     map (\<lambda>i. \<lparr>bdata = take sectorSz (mem i @ replicate sectorSz 0), bsector = buffer_invalid, bdirty = False\<rparr>)
       [0..<2 ^ getSizeBits L cnt]"

text \<open>\<open>mSize\<close> is the length of the list.\<close>

definition buflist_size :: "buffer list \<Rightarrow> nat" where
  "buflist_size bufs = length bufs"

lemma buflist_size_new: "buflist_size (bufferlist_new L mem sectorSz cnt) = 2 ^ getSizeBits L cnt"
  by (simp add: buflist_size_def bufferlist_new_def)

lemma sb_size_new:
  "sb_size (sb_new mem sectorSz cnt) = sectorSz * cnt" "sb_sectors (sb_new mem sectorSz cnt) = of_nat cnt"
  "sb_data (sb_new mem sectorSz cnt) = Some m \<Longrightarrow> length m = sb_size (sb_new mem sectorSz cnt)"
  by (auto simp: sb_size_def sb_sectors_def sb_new_def)

text \<open>The index that \<^verbatim>\<open>BufferList::get\<close> computes.\<close>

definition buffer_index :: "buffer list \<Rightarrow> u64 \<Rightarrow> nat" where
  "buffer_index bufs sector = unat (sector AND (of_nat (length bufs) - 1))"

lemma buffer_index_mod:
  assumes "length bufs = 2 ^ k" "k < 64"
  shows "buffer_index bufs sector = unat sector mod length bufs"
  using assms by (simp add: buffer_index_def mask_minus_1 unat_and_mask)

lemma sb_clear_zero: "sb_isset b \<Longrightarrow> length (the (sb_data b)) = mSize b \<Longrightarrow> sb_data (sb_clear b) = Some (replicate (mSize b) 0)"
  by (auto simp: sb_isset_def sb_clear_def sb_fill_def)

lemma buffer_invalidate_simps [simp]:
  "bdata (buffer_invalidate b) = bdata b" "bsector (buffer_invalidate b) = buffer_invalid"
  "bdirty (buffer_invalidate b) = False"
  by (simp_all add: buffer_invalidate_def)

end
