(* ===== verification/BlockDevice.thy ===== *)
theory BlockDevice
  imports Buffers
begin

text \<open>
  \<^verbatim>\<open>BlockDevice.h\<close> and \<^verbatim>\<open>BlockDevice.cpp\<close>: byte access to a sector device through a
  direct-mapped write-back cache. The pure virtual functions are a record of operations over the
  state \<open>'d\<close> of the derived class. Operations return the new device; a failed one returns \<open>None\<close>
  or \<open>False\<close> with the state it left behind.
\<close>

section \<open>State\<close>

record 'd raw_ops =
  raw_sector_read :: "'d \<Rightarrow> u64 \<Rightarrow> nat \<Rightarrow> 'd \<times> u8 list option"
  raw_sector_write :: "'d \<Rightarrow> u64 \<Rightarrow> u8 list \<Rightarrow> nat \<Rightarrow> 'd \<times> bool"
  raw_sector_erase_range :: "'d \<Rightarrow> u64 \<Rightarrow> nat \<Rightarrow> 'd \<times> bool"
  raw_sync :: "'d \<Rightarrow> 'd \<times> bool"

datatype stat_function = StatRead | StatWrite | StatErase

record stat_func =
  count_hit :: u32
  count_miss :: u32

record dev_stat =
  func :: "stat_function \<Rightarrow> stat_func"
  sectors :: "u32 \<Rightarrow> stat_func option"

record 'd block_device =
  raw :: 'd
  buffers :: "buffer list option"
  sectorCount :: u64
  sectorSize :: u16
  sectorSizeShift :: u8
  stat :: dev_stat

definition zero_func :: stat_func where
  "zero_func = \<lparr>count_hit = 0, count_miss = 0\<rparr>"

definition totalCount :: "stat_func \<Rightarrow> u32" where
  "totalCount f = count_hit f + count_miss f"

definition bump_func :: "bool \<Rightarrow> stat_func \<Rightarrow> stat_func" where
  "bump_func hit f = (if hit then f\<lparr>count_hit := count_hit f + 1\<rparr> else f\<lparr>count_miss := count_miss f + 1\<rparr>)"

definition dev_stat_update :: "dev_stat \<Rightarrow> stat_function \<Rightarrow> u32 \<Rightarrow> u32 \<Rightarrow> dev_stat" where
  "dev_stat_update st fn sector cacheSector =
     (let hit = (sector = cacheSector);
          entry = (case sectors st sector of None \<Rightarrow> zero_func | Some f \<Rightarrow> f)
      in st\<lparr>sectors := (sectors st)(sector \<mapsto> bump_func hit entry),
            func := (func st)(fn := bump_func hit (func st fn))\<rparr>)"

definition dev_stat_of :: "'d block_device \<Rightarrow> stat_function \<Rightarrow> u64 \<Rightarrow> buffer \<Rightarrow> dev_stat" where
  "dev_stat_of dev fn sector buf = dev_stat_update (stat dev) fn (ucast sector) (bsector buf)"

definition getBlockSize :: "'d block_device \<Rightarrow> nat" where
  "getBlockSize dev = unat (sectorSize dev)"

definition getSectorCount :: "'d block_device \<Rightarrow> u64" where
  "getSectorCount dev = sectorCount dev"

definition getSize :: "'d block_device \<Rightarrow> u64" where
  "getSize dev = push_bit (unat (sectorSizeShift dev)) (sectorCount dev)"

definition check_align :: "'d block_device \<Rightarrow> u64 \<Rightarrow> u64 \<Rightarrow> bool" where
  "check_align dev address sz \<longleftrightarrow>
     \<not> (address AND (ucast (sectorSize dev) - 1) \<noteq> 0 \<or> sz AND (ucast (sectorSize dev) - 1) \<noteq> 0)"

section \<open>Operations\<close>

definition flushBuffer :: "'d raw_ops \<Rightarrow> 'd \<Rightarrow> buffer \<Rightarrow> 'd \<times> buffer \<times> bool" where
  "flushBuffer ops d buf =
     (if \<not> bdirty buf then (d, buf, True)
      else case raw_sector_write ops d (ucast (bsector buf)) (bdata buf) 1 of
             (d', False) \<Rightarrow> (d', buf, False)
           | (d', True) \<Rightarrow> (d', buf\<lparr>bdirty := False\<rparr>, True))"

text \<open>One round of the loop of \<^verbatim>\<open>read\<close>: at most one sector.\<close>

definition read_chunk :: "'d raw_ops \<Rightarrow> 'd block_device \<Rightarrow> buffer list \<Rightarrow> u64 \<Rightarrow> nat \<Rightarrow> nat
    \<Rightarrow> 'd block_device \<times> u8 list option" where
  "read_chunk ops dev bufs sector offset chunkSize =
     (let i = buffer_index bufs sector; buf = bufs ! i;
          dev1 = dev\<lparr>stat := dev_stat_of dev StatRead sector buf\<rparr>
      in
      if ucast (bsector buf) \<noteq> sector then
        case flushBuffer ops (raw dev1) buf of
          (d1, buf1, False) \<Rightarrow> (dev1\<lparr>raw := d1, buffers := Some (bufs[i := buf1])\<rparr>, None)
        | (d1, buf1, True) \<Rightarrow>
            let buf2 = buffer_invalidate buf1 in
            (case raw_sector_read ops d1 sector 1 of
               (d2, None) \<Rightarrow> (dev1\<lparr>raw := d2, buffers := Some (bufs[i := buf2])\<rparr>, None)
             | (d2, Some bs) \<Rightarrow>
                 (dev1\<lparr>raw := d2, buffers := Some (bufs[i := buf2\<lparr>bdata := bs, bsector := ucast sector\<rparr>])\<rparr>,
                  Some (seg offset chunkSize bs)))
      else (dev1, Some (seg offset chunkSize (bdata buf))))"

text \<open>
  The loop. A chunk of no bytes (a device with \<open>sectorSize = 0\<close>, which no constructor builds)
  would make the code loop forever; the model stops there without a result.
\<close>

function read_loop :: "'d raw_ops \<Rightarrow> 'd block_device \<Rightarrow> buffer list \<Rightarrow> u64 \<Rightarrow> u32 \<Rightarrow> nat
    \<Rightarrow> 'd block_device \<times> u8 list option" where
  "read_loop ops dev bufs sector offset sz =
     (if sz = 0 then (dev, Some [])
      else
        let chunkSize = min sz (unat (ucast (sectorSize dev) - offset)) in
        if chunkSize = 0 then (dev, None)
        else case read_chunk ops dev bufs sector (unat offset) chunkSize of
               (dev', None) \<Rightarrow> (dev', None)
             | (dev', Some bs) \<Rightarrow>
                 (case buffers dev' of
                    None \<Rightarrow> (dev', None)
                  | Some bufs' \<Rightarrow>
                      (case read_loop ops dev' bufs' (sector + 1) 0 (sz - chunkSize) of
                         (dev'', None) \<Rightarrow> (dev'', None)
                       | (dev'', Some rest) \<Rightarrow> (dev'', Some (bs @ rest)))))"
  by pat_completeness auto
termination
  by (relation "measure (\<lambda>(ops, dev, bufs, sector, offset, sz). sz)") auto

declare read_loop.simps [simp del]

lemma read_loop_0 [simp]: "read_loop ops dev bufs sector offset 0 = (dev, Some [])"
  by (simp add: read_loop.simps)

definition bd_read :: "'d raw_ops \<Rightarrow> 'd block_device \<Rightarrow> u64 \<Rightarrow> nat \<Rightarrow> 'd block_device \<times> u8 list option" where
  "bd_read ops dev address sz =
     (case buffers dev of
        None \<Rightarrow>
          if \<not> check_align dev address (of_nat sz) then (dev, None)
          else
            (case raw_sector_read ops (raw dev) (drop_bit (unat (sectorSizeShift dev)) address)
                    (drop_bit (unat (sectorSizeShift dev)) sz) of
               (d, r) \<Rightarrow> (dev\<lparr>raw := d\<rparr>, r))
      | Some bufs \<Rightarrow>
          read_loop ops dev bufs (drop_bit (unat (sectorSizeShift dev)) address)
            (ucast (address AND (ucast (sectorSize dev) - 1))) sz)"

text \<open>One round of the loop of \<^verbatim>\<open>write\<close>.\<close>

definition write_chunk :: "'d raw_ops \<Rightarrow> 'd block_device \<Rightarrow> buffer list \<Rightarrow> u64 \<Rightarrow> nat \<Rightarrow> u8 list
    \<Rightarrow> 'd block_device \<times> bool" where
  "write_chunk ops dev bufs sector offset src =
     (let i = buffer_index bufs sector; buf = bufs ! i;
          dev1 = dev\<lparr>stat := dev_stat_of dev StatWrite sector buf\<rparr>;
          put = (\<lambda>d b. (dev1\<lparr>raw := d, buffers := Some (bufs[i := b\<lparr>bdata := patch offset src (bdata b), bdirty := True\<rparr>])\<rparr>, True))
      in
      if ucast (bsector buf) \<noteq> sector then
        case flushBuffer ops (raw dev1) buf of
          (d1, buf1, False) \<Rightarrow> (dev1\<lparr>raw := d1, buffers := Some (bufs[i := buf1])\<rparr>, False)
        | (d1, buf1, True) \<Rightarrow>
            if offset \<noteq> 0 \<or> length src \<noteq> unat (sectorSize dev) then
              let buf2 = buffer_invalidate buf1 in
              (case raw_sector_read ops d1 sector 1 of
                 (d2, None) \<Rightarrow> (dev1\<lparr>raw := d2, buffers := Some (bufs[i := buf2])\<rparr>, False)
               | (d2, Some bs) \<Rightarrow> put d2 (buf2\<lparr>bdata := bs, bsector := ucast sector\<rparr>))
            else put d1 (buf1\<lparr>bsector := ucast sector\<rparr>)
      else put (raw dev1) buf)"

function write_loop :: "'d raw_ops \<Rightarrow> 'd block_device \<Rightarrow> buffer list \<Rightarrow> u64 \<Rightarrow> u32 \<Rightarrow> u8 list
    \<Rightarrow> 'd block_device \<times> bool" where
  "write_loop ops dev bufs sector offset src =
     (if src = [] then (dev, True)
      else
        let chunkSize = min (length src) (unat (ucast (sectorSize dev) - offset)) in
        if chunkSize = 0 then (dev, False)
        else case write_chunk ops dev bufs sector (unat offset) (take chunkSize src) of
               (dev', False) \<Rightarrow> (dev', False)
             | (dev', True) \<Rightarrow>
                 (case buffers dev' of
                    None \<Rightarrow> (dev', False)
                  | Some bufs' \<Rightarrow> write_loop ops dev' bufs' (sector + 1) 0 (drop chunkSize src)))"
  by pat_completeness auto
termination
  by (relation "measure (\<lambda>(ops, dev, bufs, sector, offset, src). length src)") auto

declare write_loop.simps [simp del]

lemma write_loop_Nil [simp]: "write_loop ops dev bufs sector offset [] = (dev, True)"
  by (simp add: write_loop.simps)

definition bd_write :: "'d raw_ops \<Rightarrow> 'd block_device \<Rightarrow> u64 \<Rightarrow> u8 list \<Rightarrow> 'd block_device \<times> bool" where
  "bd_write ops dev address src =
     (case buffers dev of
        None \<Rightarrow>
          if \<not> check_align dev address (of_nat (length src)) then (dev, False)
          else
            (case raw_sector_write ops (raw dev) (drop_bit (unat (sectorSizeShift dev)) address) src
                    (drop_bit (unat (sectorSizeShift dev)) (length src)) of
               (d, r) \<Rightarrow> (dev\<lparr>raw := d\<rparr>, r))
      | Some bufs \<Rightarrow>
          write_loop ops dev bufs (drop_bit (unat (sectorSizeShift dev)) address)
            (ucast (address AND (ucast (sectorSize dev) - 1))) src)"

text \<open>\<^verbatim>\<open>erase_range\<close>: the sectors in the cache are zeroed and no longer dirty.\<close>

fun erase_loop :: "'d block_device \<Rightarrow> buffer list \<Rightarrow> u64 \<Rightarrow> nat \<Rightarrow> 'd block_device" where
  "erase_loop dev bufs address 0 = dev\<lparr>buffers := Some bufs\<rparr>"
| "erase_loop dev bufs address (Suc n) =
     (let i = buffer_index bufs address; buf = bufs ! i;
          dev1 = dev\<lparr>stat := dev_stat_of dev StatErase address buf\<rparr>;
          bufs1 = (if ucast (bsector buf) = address
                   then bufs[i := buf\<lparr>bdata := replicate (unat (sectorSize dev)) 0, bdirty := False\<rparr>] else bufs)
      in erase_loop dev1 bufs1 (address + 1) n)"

definition bd_erase_range :: "'d raw_ops \<Rightarrow> 'd block_device \<Rightarrow> u64 \<Rightarrow> u64 \<Rightarrow> 'd block_device \<times> bool" where
  "bd_erase_range ops dev address sz =
     (if \<not> check_align dev address sz then (dev, False)
      else
        let address' = drop_bit (unat (sectorSizeShift dev)) address;
            sz' = drop_bit (unat (sectorSizeShift dev)) sz
        in case raw_sector_erase_range ops (raw dev) address' (unat (ucast sz' :: u32)) of
             (d, False) \<Rightarrow> (dev\<lparr>raw := d\<rparr>, False)
           | (d, True) \<Rightarrow>
               (case buffers dev of
                  None \<Rightarrow> (dev\<lparr>raw := d\<rparr>, True)
                | Some bufs \<Rightarrow> (erase_loop (dev\<lparr>raw := d\<rparr>) bufs address' (unat sz'), True)))"

text \<open>\<^verbatim>\<open>flushBuffers\<close> visits every buffer, also after a failure.\<close>

fun flush_all :: "'d raw_ops \<Rightarrow> 'd \<Rightarrow> buffer list \<Rightarrow> 'd \<times> buffer list \<times> bool" where
  "flush_all ops d [] = (d, [], True)"
| "flush_all ops d (b # bs) =
     (case flushBuffer ops d b of (d1, b1, ok1) \<Rightarrow>
      case flush_all ops d1 bs of (d2, bs2, ok2) \<Rightarrow> (d2, b1 # bs2, ok1 \<and> ok2))"

definition flushBuffers :: "'d raw_ops \<Rightarrow> 'd block_device \<Rightarrow> 'd block_device \<times> bool" where
  "flushBuffers ops dev =
     (case buffers dev of
        None \<Rightarrow> (dev, True)
      | Some bufs \<Rightarrow>
          (case flush_all ops (raw dev) bufs of
             (d, bufs', ok) \<Rightarrow> (dev\<lparr>raw := d, buffers := Some bufs'\<rparr>, ok)))"

definition bd_sync :: "'d raw_ops \<Rightarrow> 'd block_device \<Rightarrow> 'd block_device \<times> bool" where
  "bd_sync ops dev =
     (case flushBuffers ops dev of
        (dev1, False) \<Rightarrow> (dev1, False)
      | (dev1, True) \<Rightarrow> (case raw_sync ops (raw dev1) of (d, ok) \<Rightarrow> (dev1\<lparr>raw := d\<rparr>, ok)))"

definition allocateBuffers :: "sming \<Rightarrow> 'd raw_ops \<Rightarrow> (nat \<Rightarrow> u8 list) \<Rightarrow> 'd block_device \<Rightarrow> nat
    \<Rightarrow> 'd block_device \<times> bool" where
  "allocateBuffers L ops mem dev numBuffers =
     (case flushBuffers ops dev of
        (dev1, False) \<Rightarrow> (dev1, False)
      | (dev1, True) \<Rightarrow>
          if numBuffers = 0 then (dev1\<lparr>buffers := None\<rparr>, True)
          else
            let bufs = bufferlist_new L mem (unat (sectorSize dev1)) numBuffers
            in (dev1\<lparr>buffers := Some bufs\<rparr>, length bufs = numBuffers))"

end
