(* ===== verification/BlockCache.thy ===== *)
theory BlockCache
  imports BlockDevice
begin

text \<open>
  What a \<^verbatim>\<open>BlockDevice\<close> promises. The locale \<open>raw_media\<close> is the contract of the four virtual
  functions: they act on a medium, an infinite array of sectors of \<open>ss\<close> bytes, of which
  the contract covers the first \<open>2 ^ 32\<close>. A cached device then presents a \<open>view\<close>: what a buffer
  holds, or the medium where no buffer does. Every operation keeps the cache coherent
  (\<open>bd_ok\<close>) and acts on the view as the abstract operation would.
\<close>

locale raw_media =
  fixes ops :: "'d raw_ops" and ss :: nat and media :: "'d \<Rightarrow> nat \<Rightarrow> u8 list"
  assumes media_length [simp]: "length (media d s) = ss"
    and raw_read_frame: "raw_sector_read ops d a n = (d', r) \<Longrightarrow> unat a + n \<le> 2 ^ 32 \<Longrightarrow> media d' = media d"
    and raw_read_data: "raw_sector_read ops d a n = (d', Some bs) \<Longrightarrow> unat a + n \<le> 2 ^ 32
      \<Longrightarrow> bs = concat (map (media d) [unat a..<unat a + n])"
    and raw_write_frame: "raw_sector_write ops d a bs n = (d', ok) \<Longrightarrow> length bs = n * ss
      \<Longrightarrow> unat a + n \<le> 2 ^ 32 \<Longrightarrow> s < unat a \<or> unat a + n \<le> s \<Longrightarrow> media d' s = media d s"
    and raw_write_data: "raw_sector_write ops d a bs n = (d', True) \<Longrightarrow> length bs = n * ss
      \<Longrightarrow> unat a + n \<le> 2 ^ 32 \<Longrightarrow> k < n \<Longrightarrow> media d' (unat a + k) = seg (k * ss) ss bs"
    and raw_erase_frame: "raw_sector_erase_range ops d a n = (d', ok) \<Longrightarrow> unat a + n \<le> 2 ^ 32
      \<Longrightarrow> \<not> ok \<or> s < unat a \<or> unat a + n \<le> s \<Longrightarrow> media d' s = media d s"
    and raw_erase_data: "raw_sector_erase_range ops d a n = (d', True) \<Longrightarrow> unat a + n \<le> 2 ^ 32
      \<Longrightarrow> unat a \<le> s \<Longrightarrow> s < unat a + n \<Longrightarrow> media d' s = replicate ss 0"
    and raw_sync_frame: "raw_sync ops d = (d', ok) \<Longrightarrow> media d' = media d"

section \<open>One slot of the cache\<close>

definition entry_ok :: "(nat \<Rightarrow> u8 list) \<Rightarrow> nat \<Rightarrow> nat \<Rightarrow> nat \<Rightarrow> buffer \<Rightarrow> bool" where
  "entry_ok med ss n i b \<longleftrightarrow> length (bdata b) = ss \<and>
     (if bsector b = buffer_invalid then \<not> bdirty b
      else unat (bsector b) mod n = i \<and> (\<not> bdirty b \<longrightarrow> bdata b = med (unat (bsector b))))"

definition slot_view :: "(nat \<Rightarrow> u8 list) \<Rightarrow> buffer \<Rightarrow> nat \<Rightarrow> u8 list" where
  "slot_view med b s =
     (if bsector b \<noteq> buffer_invalid \<and> unat (bsector b) = s then bdata b else med s)"

lemma unat_buffer_invalid: "unat buffer_invalid = 2 ^ 32 - 1"
  by (simp add: buffer_invalid_def unsigned_minus_1_eq_mask mask_eq_exp_minus_1)

lemma valid_sector: "bsector b \<noteq> buffer_invalid \<Longrightarrow> unat (bsector b) < 2 ^ 32 - 1"
proof -
  assume "bsector b \<noteq> buffer_invalid"
  then have "unat (bsector b) \<noteq> 2 ^ 32 - 1" by (metis unat_buffer_invalid word_unat_eq_iff)
  moreover have "unat (bsector b) < 2 ^ LENGTH(32)" by (rule unsigned_less)
  ultimately show ?thesis by simp
qed

lemma small_sector:
  assumes "unat (sector :: u64) < 2 ^ 32 - 1"
  shows "unat (ucast sector :: u32) = unat sector" "(ucast sector :: u32) \<noteq> buffer_invalid"
    "(ucast (ucast sector :: u32) :: u64) = sector"
proof -
  show u: "unat (ucast sector :: u32) = unat sector"
    using assms by (simp add: unsigned_ucast_eq take_bit_nat_eq_self)
  then show "(ucast sector :: u32) \<noteq> buffer_invalid" using assms unat_buffer_invalid by force
  show "(ucast (ucast sector :: u32) :: u64) = sector"
    using u by (simp add: word_unat_eq_iff unat_ucast_up)
qed

lemma hit_iff:
  assumes "unat (sector :: u64) < 2 ^ 32 - 1"
  shows "(ucast (bsector b) :: u64) = sector \<longleftrightarrow> bsector b \<noteq> buffer_invalid \<and> unat (bsector b) = unat sector"
  using assms unat_buffer_invalid by (auto simp: word_unat_eq_iff unat_ucast_up)

lemma invalidate_entry:
  assumes "entry_ok med ss n i b" "\<not> bdirty b"
  shows "entry_ok med ss n i (buffer_invalidate b)" "slot_view med (buffer_invalidate b) = slot_view med b"
  using assms by (auto simp: entry_ok_def slot_view_def fun_eq_iff split: if_splits)

lemma load_entry:
  assumes "unat (sector :: u64) < 2 ^ 32 - 1" "unat sector mod n = i" "length (med (unat sector)) = ss"
  shows "entry_ok med ss n i \<lparr>bdata = med (unat sector), bsector = ucast sector, bdirty = False\<rparr>"
    "slot_view med \<lparr>bdata = med (unat sector), bsector = ucast sector, bdirty = False\<rparr> = med"
  using assms small_sector [OF assms(1)] by (auto simp: entry_ok_def slot_view_def fun_eq_iff)

lemma put_entry:
  assumes "unat (sector :: u64) < 2 ^ 32 - 1" "unat sector mod n = i" "length bs = ss"
    and "\<And>s. s \<noteq> unat sector \<Longrightarrow> med s = v s"
  shows "entry_ok med ss n i \<lparr>bdata = bs, bsector = ucast sector, bdirty = True\<rparr>"
    "slot_view med \<lparr>bdata = bs, bsector = ucast sector, bdirty = True\<rparr> = v(unat sector := bs)"
  using assms small_sector [OF assms(1)] by (auto simp: entry_ok_def slot_view_def fun_eq_iff)

context raw_media begin

lemma flushBuffer_entry:
  assumes "entry_ok (media d) ss n i b" "flushBuffer ops d b = (d', b', ok)"
  shows "entry_ok (media d') ss n i b'" "slot_view (media d') b' = slot_view (media d) b"
    "s mod n \<noteq> i \<Longrightarrow> media d' s = media d s" "ok \<Longrightarrow> \<not> bdirty b'"
proof -
  have "entry_ok (media d') ss n i b' \<and> slot_view (media d') b' = slot_view (media d) b \<and>
      (s mod n \<noteq> i \<longrightarrow> media d' s = media d s) \<and> (ok \<longrightarrow> \<not> bdirty b')"
  proof (cases "bdirty b")
    case False
    then show ?thesis using assms by (simp add: flushBuffer_def)
  next
    case True
    let ?a = "ucast (bsector b) :: u64"
    have v: "bsector b \<noteq> buffer_invalid" "unat (bsector b) mod n = i" "length (bdata b) = 1 * ss"
      using assms(1) True by (auto simp: entry_ok_def split: if_splits)
    have a: "unat ?a = unat (bsector b)" "unat ?a + 1 \<le> 2 ^ 32"
      using valid_sector [OF v(1)] by (simp_all add: unat_ucast_up)
    have w: "raw_sector_write ops d ?a (bdata b) 1 = (d', ok)"
      using assms(2) True by (auto simp: flushBuffer_def split: prod.splits bool.splits)
    have frame: "media d' s = media d s" if "s \<noteq> unat (bsector b)" for s
      using that a(1) by (intro raw_write_frame [OF w v(3) a(2)]) auto
    have away: "s mod n \<noteq> i \<Longrightarrow> media d' s = media d s" using frame [of s] v(2) by auto
    have data: "media d' (unat (bsector b)) = bdata b" if ok
      using raw_write_data [OF _ v(3) a(2), of d d' 0] w that a(1) v(3) by simp
    have b': "b' = (if ok then b\<lparr>bdirty := False\<rparr> else b)"
      using assms(2) True w by (auto simp: flushBuffer_def)
    show ?thesis using v frame away data assms(1) True
      by (auto simp: b' entry_ok_def slot_view_def fun_eq_iff)
  qed
  then show "entry_ok (media d') ss n i b'" "slot_view (media d') b' = slot_view (media d) b"
    "s mod n \<noteq> i \<Longrightarrow> media d' s = media d s" "ok \<Longrightarrow> \<not> bdirty b'"
    by auto
qed

end

section \<open>The whole cache\<close>

definition cache_ok :: "(nat \<Rightarrow> u8 list) \<Rightarrow> nat \<Rightarrow> buffer list \<Rightarrow> bool" where
  "cache_ok med ss bufs \<longleftrightarrow> (\<exists>k < 32. length bufs = 2 ^ k) \<and>
     (\<forall>i < length bufs. entry_ok med ss (length bufs) i (bufs ! i))"

definition view :: "(nat \<Rightarrow> u8 list) \<Rightarrow> buffer list \<Rightarrow> nat \<Rightarrow> u8 list" where
  "view med bufs s = slot_view med (bufs ! (s mod length bufs)) s"

lemma cache_okD:
  assumes "cache_ok med ss bufs"
  shows "0 < length bufs" "buffer_index bufs sector = unat sector mod length bufs"
    "entry_ok med ss (length bufs) (unat sector mod length bufs) (bufs ! (unat sector mod length bufs))"
proof -
  obtain k where k: "k < 32" "length bufs = 2 ^ k" using assms by (auto simp: cache_ok_def)
  then show "0 < length bufs" by simp
  then show "entry_ok med ss (length bufs) (unat sector mod length bufs) (bufs ! (unat sector mod length bufs))"
    using assms by (simp add: cache_ok_def)
  show "buffer_index bufs sector = unat sector mod length bufs"
    using k by (intro buffer_index_mod [where k = k]) simp_all
qed

text \<open>Replacing one entry: only the sectors of its slot are affected.\<close>

lemma cache_put:
  assumes "cache_ok med ss bufs" "i < length bufs" "entry_ok med' ss (length bufs) i b'"
    and "\<And>s. s mod length bufs \<noteq> i \<Longrightarrow> med' s = med s"
  shows "cache_ok med' ss (bufs[i := b'])"
    "view med' (bufs[i := b']) s = (if s mod length bufs = i then slot_view med' b' s else view med bufs s)"
proof -
  have "entry_ok med' ss (length bufs) j (bufs ! j)" if "j < length bufs" "j \<noteq> i" for j
    using assms(1,4) that by (auto simp: cache_ok_def entry_ok_def)
  then show "cache_ok med' ss (bufs[i := b'])"
    using assms by (auto simp: cache_ok_def nth_list_update)
  have "s mod length bufs < length bufs" using cache_okD(1) [OF assms(1)] by simp
  then show "view med' (bufs[i := b']) s = (if s mod length bufs = i then slot_view med' b' s else view med bufs s)"
    using assms(2,4) by (auto simp: view_def slot_view_def nth_list_update)
qed

corollary cache_put_same:
  assumes "cache_ok med ss bufs" "i < length bufs" "entry_ok med' ss (length bufs) i b'"
    and "\<And>s. s mod length bufs \<noteq> i \<Longrightarrow> med' s = med s"
    and "slot_view med' b' = slot_view med (bufs ! i)"
  shows "cache_ok med' ss (bufs[i := b'])" "view med' (bufs[i := b']) = view med bufs"
  using cache_put [OF assms(1-4)] assms(5) by (auto simp: fun_eq_iff view_def)

section \<open>The device\<close>

definition geometry_ok :: "nat \<Rightarrow> 'd block_device \<Rightarrow> bool" where
  "geometry_ok ss dev \<longleftrightarrow>
     (\<exists>sh < 16. unat (sectorSizeShift dev) = sh \<and> unat (sectorSize dev) = 2 ^ sh \<and> ss = 2 ^ sh)"

definition bd_ok :: "('d \<Rightarrow> nat \<Rightarrow> u8 list) \<Rightarrow> nat \<Rightarrow> 'd block_device \<Rightarrow> bool" where
  "bd_ok media ss dev \<longleftrightarrow> geometry_ok ss dev \<and>
     (case buffers dev of None \<Rightarrow> True | Some bufs \<Rightarrow> cache_ok (media (raw dev)) ss bufs)"

definition bd_view :: "('d \<Rightarrow> nat \<Rightarrow> u8 list) \<Rightarrow> 'd block_device \<Rightarrow> nat \<Rightarrow> u8 list" where
  "bd_view media dev =
     (case buffers dev of None \<Rightarrow> media (raw dev) | Some bufs \<Rightarrow> view (media (raw dev)) bufs)"

text \<open>What no operation on bytes changes: the geometry and the number of buffers.\<close>

definition same_shape :: "'d block_device \<Rightarrow> 'd block_device \<Rightarrow> bool" where
  "same_shape dev dev' \<longleftrightarrow> sectorCount dev' = sectorCount dev \<and> sectorSize dev' = sectorSize dev \<and>
     sectorSizeShift dev' = sectorSizeShift dev \<and>
     map_option length (buffers dev') = map_option length (buffers dev)"

lemma same_shape_getters:
  "same_shape dev dev' \<Longrightarrow> getBlockSize dev' = getBlockSize dev \<and> getSectorCount dev' = getSectorCount dev \<and> getSize dev' = getSize dev"
  by (simp add: same_shape_def getBlockSize_def getSectorCount_def getSize_def)

lemma same_shape_refl [simp]: "same_shape dev dev"
  by (simp add: same_shape_def)

lemma same_shape_trans: "same_shape a b \<Longrightarrow> same_shape b c \<Longrightarrow> same_shape a c"
  by (simp add: same_shape_def)

lemma same_shape_geometry: "same_shape dev dev' \<Longrightarrow> geometry_ok ss dev' = geometry_ok ss dev"
  by (simp add: same_shape_def geometry_ok_def)

lemma same_shape_Some: "same_shape dev dev' \<Longrightarrow> buffers dev = Some bufs \<Longrightarrow> \<exists>bufs'. buffers dev' = Some bufs'"
  by (auto simp: same_shape_def)

context raw_media begin

text \<open>What is left of the invariant after each half-step of a miss.\<close>

lemma flush_slot:
  assumes "cache_ok (media d) ss bufs" "i < length bufs" "flushBuffer ops d (bufs ! i) = (d', b', ok)"
  shows "cache_ok (media d') ss (bufs[i := b'])" "view (media d') (bufs[i := b']) = view (media d) bufs"
    "entry_ok (media d') ss (length bufs) i b'" "ok \<Longrightarrow> \<not> bdirty b'"
proof -
  have e: "entry_ok (media d) ss (length bufs) i (bufs ! i)" using assms(1,2) by (simp add: cache_ok_def)
  note f = flushBuffer_entry [OF e assms(3)]
  show "cache_ok (media d') ss (bufs[i := b'])" "view (media d') (bufs[i := b']) = view (media d) bufs"
    using cache_put_same [OF assms(1,2) f(1,3,2)] by blast+
  show "entry_ok (media d') ss (length bufs) i b'" "ok \<Longrightarrow> \<not> bdirty b'" using f(1,4) by blast+
qed

lemma invalidate_slot:
  assumes "cache_ok (media d) ss (bufs[i := b])" "i < length bufs" "\<not> bdirty b"
  shows "cache_ok (media d) ss (bufs[i := buffer_invalidate b])"
    "view (media d) (bufs[i := buffer_invalidate b]) = view (media d) (bufs[i := b])"
proof -
  have e: "entry_ok (media d) ss (length bufs) i b" using assms(1,2) by (auto simp: cache_ok_def)
  show "cache_ok (media d) ss (bufs[i := buffer_invalidate b])"
    "view (media d) (bufs[i := buffer_invalidate b]) = view (media d) (bufs[i := b])"
    using cache_put_same [OF assms(1), of i "media d" "buffer_invalidate b"] assms(2)
      invalidate_entry [OF e assms(3)] by simp_all
qed

lemma view_clean_slot:
  assumes "cache_ok (media d) ss (bufs[i := b])" "i < length bufs" "\<not> bdirty b" "s mod length bufs = i"
  shows "view (media d) (bufs[i := b]) s = media d s"
proof -
  have "entry_ok (media d) ss (length bufs) i b" using assms(1,2) by (auto simp: cache_ok_def)
  then show ?thesis using assms(2-4) by (auto simp: view_def slot_view_def entry_ok_def)
qed

lemma load_slot:
  assumes "cache_ok (media d) ss bufs" "unat (sector :: u64) < 2 ^ 32 - 1"
    and "i = unat sector mod length bufs" "b = \<lparr>bdata = media d (unat sector), bsector = ucast sector, bdirty = False\<rparr>"
    and "\<not> bdirty (bufs ! i)"
  shows "cache_ok (media d) ss (bufs[i := b])" "view (media d) (bufs[i := b]) = view (media d) bufs"
proof -
  have i: "i < length bufs" using cache_okD(1) [OF assms(1)] assms(3) by simp
  have e: "entry_ok (media d) ss (length bufs) i b" "slot_view (media d) b = media d"
    using load_entry [OF assms(2) assms(3) [symmetric] media_length] by (simp_all add: assms(4))
  show "cache_ok (media d) ss (bufs[i := b])" using cache_put(1) [OF assms(1) i e(1)] by simp
  show "view (media d) (bufs[i := b]) = view (media d) bufs"
  proof
    fix s
    show "view (media d) (bufs[i := b]) s = view (media d) bufs s"
      using cache_put(2) [OF assms(1) i e(1), of s] e(2)
        view_clean_slot [of d bufs i "bufs ! i" s] assms(1,5) i by simp
  qed
qed

lemma put_slot:
  assumes "cache_ok (media d) ss bufs" "unat (sector :: u64) < 2 ^ 32 - 1"
    and "i = unat sector mod length bufs" "b = \<lparr>bdata = bs, bsector = ucast sector, bdirty = True\<rparr>"
    and "length bs = ss" "\<not> bdirty (bufs ! i) \<or> bsector (bufs ! i) = ucast sector"
  shows "cache_ok (media d) ss (bufs[i := b])"
    "view (media d) (bufs[i := b]) = (view (media d) bufs)(unat sector := bs)"
proof -
  have i: "i < length bufs" using cache_okD(1) [OF assms(1)] assms(3) by simp
  have e: "entry_ok (media d) ss (length bufs) i b" "slot_view (media d) b = (media d)(unat sector := bs)"
    using put_entry [OF assms(2) assms(3) [symmetric] assms(5)] by (simp_all add: assms(4))
  show "cache_ok (media d) ss (bufs[i := b])" using cache_put(1) [OF assms(1) i e(1)] by simp
  have other: "view (media d) bufs s = media d s" if "s mod length bufs = i" "s \<noteq> unat sector" for s
    using assms(6) view_clean_slot [of d bufs i "bufs ! i" s] that assms(1) i small_sector(1) [OF assms(2)]
    by (auto simp: view_def slot_view_def)
  show "view (media d) (bufs[i := b]) = (view (media d) bufs)(unat sector := bs)"
    using cache_put(2) [OF assms(1) i e(1)] e(2) other assms(3) by (auto simp: fun_eq_iff)
qed

lemma bd_ok_simps [simp]:
  "bd_ok media ss (dev\<lparr>stat := st\<rparr>) = bd_ok media ss dev"
  "bd_view media (dev\<lparr>stat := st\<rparr>) = bd_view media dev"
  "same_shape dev (dev\<lparr>stat := st\<rparr>)"
  by (cases "buffers dev"; simp add: bd_ok_def bd_view_def geometry_ok_def same_shape_def)+

lemma cache_change:
  assumes "bd_ok media ss dev" "buffers dev = Some bufs"
    and "cache_ok (media d) ss bufs'" "length bufs' = length bufs" "view (media d) bufs' = v"
  shows "bd_ok media ss (dev\<lparr>stat := st, raw := d, buffers := Some bufs'\<rparr>)"
    "bd_view media (dev\<lparr>stat := st, raw := d, buffers := Some bufs'\<rparr>) = v"
    "same_shape dev (dev\<lparr>stat := st, raw := d, buffers := Some bufs'\<rparr>)"
  using assms by (simp_all add: bd_ok_def bd_view_def geometry_ok_def same_shape_def)

subsection \<open>Reading\<close>

lemma read_hit:
  assumes "cache_ok (media d) ss bufs" "unat sector < 2 ^ 32 - 1" "i = unat sector mod length bufs"
    and "ucast (bsector (bufs ! i)) = (sector :: u64)"
  shows "view (media d) bufs (unat sector) = bdata (bufs ! i)"
  using assms(4) unfolding hit_iff [OF assms(2)] by (simp add: view_def slot_view_def assms(3))

text \<open>A miss that needs the old content: write back, invalidate, load.\<close>

lemma length_view: "cache_ok (media d) ss bufs \<Longrightarrow> length (view (media d) bufs s) = ss"
  using cache_okD(1) [of "media d" ss bufs] by (auto simp: view_def slot_view_def entry_ok_def cache_ok_def)

lemma miss_load:
  assumes "cache_ok (media d) ss bufs" "unat (sector :: u64) < 2 ^ 32 - 1" "i = unat sector mod length bufs"
    and "flushBuffer ops d (bufs ! i) = (d1, b1, True)" "raw_sector_read ops d1 sector 1 = (d2, r)"
  shows "cache_ok (media d2) ss (bufs[i := buffer_invalidate b1])"
    "view (media d2) (bufs[i := buffer_invalidate b1]) = view (media d) bufs"
    "r = Some bs \<Longrightarrow> bs = view (media d) bufs (unat sector)"
    "r = Some bs \<Longrightarrow> b = \<lparr>bdata = bs, bsector = ucast sector, bdirty = False\<rparr> \<Longrightarrow>
      cache_ok (media d2) ss (bufs[i := b])"
    "r = Some bs \<Longrightarrow> b = \<lparr>bdata = bs, bsector = ucast sector, bdirty = False\<rparr> \<Longrightarrow>
      view (media d2) (bufs[i := b]) = view (media d) bufs"
proof -
  have i: "i < length bufs" using cache_okD(1) [OF assms(1)] assms(3) by simp
  note fs = flush_slot [OF assms(1) i assms(4)]
  note inv = invalidate_slot [OF fs(1) i fs(4) [OF TrueI]]
  have m2: "media d2 = media d1" using raw_read_frame [OF assms(5)] assms(2) by simp
  show c2: "cache_ok (media d2) ss (bufs[i := buffer_invalidate b1])" using inv(1) by (simp only: m2)
  show v2: "view (media d2) (bufs[i := buffer_invalidate b1]) = view (media d) bufs"
    by (simp only: inv(2) fs(2) m2)
  have clean: "view (media d2) (bufs[i := buffer_invalidate b1]) (unat sector) = media d2 (unat sector)"
    by (rule view_clean_slot [OF c2 i]) (simp_all add: buffer_invalidate_def assms(3))
  show bs: "bs = view (media d) bufs (unat sector)" if r: "r = Some bs" for bs
  proof -
    have "bs = media d2 (unat sector)"
      using raw_read_data [OF assms(5) [unfolded r]] assms(2) m2 by (simp add: upt_rec)
    then show ?thesis by (simp only: clean [symmetric] v2)
  qed
  assume r: "r = Some bs" and b: "b = \<lparr>bdata = bs, bsector = ucast sector, bdirty = False\<rparr>"
  have "bs = media d2 (unat sector)" by (simp only: bs [OF r] clean [symmetric] v2)
  then show "cache_ok (media d2) ss (bufs[i := b])" "view (media d2) (bufs[i := b]) = view (media d) bufs"
    using load_slot [OF c2 assms(2), of i b] i v2 b by (simp_all add: assms(3) buffer_invalidate_def)
qed

lemma loaded_buffer: "(buffer_invalidate b)\<lparr>bdata := x, bsector := y\<rparr> = \<lparr>bdata = x, bsector = y, bdirty = False\<rparr>"
  by (simp add: buffer_invalidate_def)

lemma read_chunk_ok:
  assumes "bd_ok media ss dev" "buffers dev = Some bufs" "unat sector < 2 ^ 32 - 1"
    and "read_chunk ops dev bufs sector off n = (dev', r)"
  shows "bd_ok media ss dev' \<and> bd_view media dev' = bd_view media dev \<and> same_shape dev dev' \<and>
    (\<forall>bs. r = Some bs \<longrightarrow> bs = seg off n (bd_view media dev (unat sector)))"
proof -
  define i where "i = unat sector mod length bufs"
  define st where "st = dev_stat_of dev StatRead sector (bufs ! i)"
  have c: "cache_ok (media (raw dev)) ss bufs" using assms(1,2) by (simp add: bd_ok_def)
  have i: "i < length bufs" "buffer_index bufs sector = i" using cache_okD [OF c] by (simp_all add: i_def)
  have v: "bd_view media dev = view (media (raw dev)) bufs" using assms(2) by (simp add: bd_view_def)
  note change = cache_change [OF assms(1,2), of _ _ _ st]
  note rc = assms(4) [unfolded read_chunk_def Let_def i(2), folded st_def]
  show ?thesis
  proof (cases "ucast (bsector (bufs ! i)) = sector")
    case True
    then show ?thesis using rc assms(1) read_hit [OF c assms(3) i_def True] v by auto
  next
    case miss: False
    obtain d1 b1 ok where f: "flushBuffer ops (raw dev) (bufs ! i) = (d1, b1, ok)"
      by (cases "flushBuffer ops (raw dev) (bufs ! i)")
    note fs = flush_slot [OF c i(1) f]
    obtain d2 r2 where rd: "raw_sector_read ops d1 sector 1 = (d2, r2)" by (cases "raw_sector_read ops d1 sector 1")
    consider "\<not> ok" | "ok" "r2 = None" | bs where "ok" "r2 = Some bs" by (cases r2) auto
    then show ?thesis
    proof cases
      case 1
      then show ?thesis using rc miss f change [OF fs(1) _ fs(2)] v by auto
    next
      case 2
      note ml = miss_load [OF c assms(3) i_def f [unfolded 2(1) [THEN eqTrueI]] rd]
      show ?thesis using rc miss f rd 2 change [OF ml(1) _ ml(2)] v by auto
    next
      case 3
      note ml = miss_load [OF c assms(3) i_def f [unfolded 3(1) [THEN eqTrueI]] rd]
      show ?thesis using rc miss f rd 3 change [OF ml(4) _ ml(5), OF 3(2) refl _ 3(2) refl] ml(3) [OF 3(2)] v
        by (auto simp: loaded_buffer)
    qed
  qed
qed

subsection \<open>Writing\<close>

lemma patch_full: "length src = length xs \<Longrightarrow> patch 0 src xs = src"
  by (rule patch_all)

lemma write_chunk_ok:
  assumes "bd_ok media ss dev" "buffers dev = Some bufs" "unat sector < 2 ^ 32 - 1" "off + length src \<le> ss"
    and "write_chunk ops dev bufs sector off src = (dev', ok)"
  shows "bd_ok media ss dev' \<and> same_shape dev dev' \<and>
    bd_view media dev' = (if ok then (bd_view media dev)(unat sector := patch off src (bd_view media dev (unat sector)))
      else bd_view media dev)"
proof -
  define i where "i = unat sector mod length bufs"
  define st where "st = dev_stat_of dev StatWrite sector (bufs ! i)"
  have c: "cache_ok (media (raw dev)) ss bufs" using assms(1,2) by (simp add: bd_ok_def)
  have i: "i < length bufs" "buffer_index bufs sector = i" using cache_okD [OF c] by (simp_all add: i_def)
  have e: "entry_ok (media (raw dev)) ss (length bufs) i (bufs ! i)" using c i(1) by (simp add: cache_ok_def)
  have ssz: "unat (sectorSize dev) = ss" using assms(1) by (auto simp: bd_ok_def geometry_ok_def)
  have v: "bd_view media dev = view (media (raw dev)) bufs" using assms(2) by (simp add: bd_view_def)
  note change = cache_change [OF assms(1,2), of _ _ _ st]
  note wc = assms(5) [unfolded write_chunk_def Let_def i(2), folded st_def]
  let ?V = "view (media (raw dev)) bufs"
  let ?put = "\<lambda>bs. \<lparr>bdata = patch off src bs, bsector = ucast sector, bdirty = True\<rparr>"
  show ?thesis
  proof (cases "ucast (bsector (bufs ! i)) = sector")
    case hit: True
    then have s: "bsector (bufs ! i) = ucast sector"
      using small_sector(1) [OF assms(3)] hit_iff [OF assms(3), of "bufs ! i"] by (simp add: word_unat_eq_iff)
    have len: "length (patch off src (bdata (bufs ! i))) = ss"
      using e assms(4) by (simp add: entry_ok_def)
    note ps = put_slot [OF c assms(3) i_def refl len disjI2 [OF s]]
    have b: "(bufs ! i)\<lparr>bdata := x, bdirty := True\<rparr> = \<lparr>bdata = x, bsector = ucast sector, bdirty = True\<rparr>" for x
      by (simp flip: s)
    have old: "?V (unat sector) = bdata (bufs ! i)" by (rule read_hit [OF c assms(3) i_def hit])
    show ?thesis using wc hit change [OF ps(1) _ ps(2)] v by (auto simp: b old)
  next
    case miss: False
    obtain d1 b1 ok1 where f: "flushBuffer ops (raw dev) (bufs ! i) = (d1, b1, ok1)"
      by (cases "flushBuffer ops (raw dev) (bufs ! i)")
    note fs = flush_slot [OF c i(1) f]
    obtain d2 r2 where rd: "raw_sector_read ops d1 sector 1 = (d2, r2)" by (cases "raw_sector_read ops d1 sector 1")
    let ?part = "off \<noteq> 0 \<or> length src \<noteq> unat (sectorSize dev)"
    consider "\<not> ok1" | "ok1" "\<not> ?part" | "ok1" ?part "r2 = None" | bs where "ok1" ?part "r2 = Some bs"
      by (cases ok1; cases ?part; cases r2) blast+
    then show ?thesis
    proof cases
      case 1
      then show ?thesis using wc miss f change [OF fs(1) _ fs(2)] v by auto
    next
      case 2
      have len: "length (patch off src (bdata b1)) = ss" "patch off src (bdata b1) = src"
        "patch off src (?V (unat sector)) = src"
        using 2(2) ssz fs(3) fs(2) [symmetric] fs(1) by (simp_all add: entry_ok_def patch_def length_view)
      have cl: "\<not> bdirty (bufs[i := b1] ! i)" using fs(4) 2(1) i(1) by simp
      note ps = put_slot [OF fs(1) assms(3) _ refl len(1) disjI1 [OF cl]]
      have b: "b1\<lparr>bsector := ucast sector, bdata := x, bdirty := True\<rparr> = \<lparr>bdata = x, bsector = ucast sector, bdirty = True\<rparr>" for x
        by simp
      show ?thesis using wc miss f 2 change [OF ps(1) _ ps(2)] v fs(2) len(2,3) by (auto simp: b i_def)
    next
      case 3
      note ml = miss_load [OF c assms(3) i_def f [unfolded 3(1) [THEN eqTrueI]] rd]
      show ?thesis using wc miss f rd 3 change [OF ml(1) _ ml(2)] v by auto
    next
      case 4
      let ?b = "\<lparr>bdata = bs, bsector = ucast sector, bdirty = False\<rparr>"
      note ml = miss_load [OF c assms(3) i_def f [unfolded 4(1) [THEN eqTrueI]] rd]
      note bs = ml(3) [OF 4(3)]
      note c2 = ml(4) [OF 4(3) refl] and v2 = ml(5) [OF 4(3) refl]
      have len: "length (patch off src bs) = ss" using assms(4) length_view [OF c] by (simp add: bs)
      have cl: "\<not> bdirty (bufs[i := ?b] ! i)" using i(1) by simp
      note ps = put_slot [OF c2 assms(3) _ refl len disjI1 [OF cl]]
      show ?thesis using wc miss f rd 4 change [OF ps(1) _ ps(2)] v v2 bs by (auto simp: loaded_buffer i_def)
    qed
  qed
qed

end

section \<open>Bytes\<close>

text \<open>The medium and the view as one array of bytes.\<close>

definition content :: "nat \<Rightarrow> (nat \<Rightarrow> u8 list) \<Rightarrow> nat \<Rightarrow> u8" where
  "content ss v k = v (k div ss) ! (k mod ss)"

definition overwrite :: "nat \<Rightarrow> 'b list \<Rightarrow> (nat \<Rightarrow> 'b) \<Rightarrow> nat \<Rightarrow> 'b" where
  "overwrite a bs c k = (if a \<le> k \<and> k < a + length bs then bs ! (k - a) else c k)"

lemma overwrite_Nil [simp]: "overwrite a [] c = c"
  by (auto simp: overwrite_def fun_eq_iff)

lemma overwrite_append: "overwrite (a + length xs) ys (overwrite a xs c) = overwrite a (xs @ ys) c"
  by (auto simp: overwrite_def fun_eq_iff nth_append)

lemma content_at: "off < ss \<Longrightarrow> content ss v (s * ss + off) = v s ! off"
  by (simp add: content_def)

lemma content_seg:
  assumes "length (v s) = ss" "off + n \<le> ss"
  shows "seg off n (v s) = map (content ss v) [s * ss + off..<s * ss + off + n]"
proof (rule nth_equalityI)
  show "length (seg off n (v s)) = length (map (content ss v) [s * ss + off..<s * ss + off + n])"
    using assms by simp
  fix k assume "k < length (seg off n (v s))"
  then have k: "k < n" "off + k < ss" using assms by simp_all
  show "seg off n (v s) ! k = map (content ss v) [s * ss + off..<s * ss + off + n] ! k"
    using k assms content_at [OF k(2), of v s] by (simp add: add.assoc)
qed

lemma content_put:
  assumes "length (v s) = ss" "off + length src \<le> ss"
  shows "content ss (v(s := patch off src (v s))) = overwrite (s * ss + off) src (content ss v)"
proof
  fix k
  show "content ss (v(s := patch off src (v s))) k = overwrite (s * ss + off) src (content ss v) k"
  proof (cases "ss = 0")
    case True
    then show ?thesis using assms by (auto simp: content_def overwrite_def patch_def)
  next
    case False
    define q r where "q = k div ss" and "r = k mod ss"
    have k: "k = q * ss + r" and r: "r < ss" using False by (simp_all add: q_def r_def)
    show ?thesis
    proof (cases "q = s")
      case True
      then show ?thesis using assms r by (simp add: k content_at overwrite_def nth_patch)
    next
      case False
      then consider "q < s" | "s < q" by linarith
      then have "\<not> (s * ss + off \<le> k \<and> k < s * ss + off + length src)"
      proof cases
        case 1
        then have "(q + 1) * ss \<le> s * ss" by (intro mult_le_mono1) simp
        then show ?thesis using k r by simp
      next
        case 2
        then have "(s + 1) * ss \<le> q * ss" by (intro mult_le_mono1) simp
        then show ?thesis using k assms by simp
      qed
      then show ?thesis using False r by (auto simp: k content_at overwrite_def)
    qed
  qed
qed

definition bd_content :: "('d \<Rightarrow> nat \<Rightarrow> u8 list) \<Rightarrow> nat \<Rightarrow> 'd block_device \<Rightarrow> nat \<Rightarrow> u8" where
  "bd_content media ss dev = content ss (bd_view media dev)"

text \<open>The bytes that can be addressed: the number of a cached sector has 32 bits, and the last
  value means that a buffer is free.\<close>

definition cache_limit :: "nat \<Rightarrow> nat" where
  "cache_limit ss = (2 ^ 32 - 1) * ss"

context raw_media begin

lemma length_bd_view [simp]: "bd_ok media ss dev \<Longrightarrow> length (bd_view media dev s) = ss"
  by (auto simp: bd_ok_def bd_view_def length_view split: option.splits)

lemma chunk_arith:
  assumes "bd_ok media ss dev" "unat (offset :: u32) < ss" "0 < sz"
    and "unat (sector :: u64) * ss + unat offset + sz \<le> cache_limit ss"
    and "c = min sz (unat (ucast (sectorSize dev) - offset :: u32))"
  shows "c = min sz (ss - unat offset)" "c \<noteq> 0" "unat offset + c \<le> ss" "unat sector < 2 ^ 32 - 1"
    "unat (sector + 1) = unat sector + 1"
    "c < sz \<Longrightarrow> unat offset + c = ss" "c < sz \<Longrightarrow> unat (sector + 1) * ss + (sz - c) \<le> cache_limit ss"
proof -
  have ssz: "unat (sectorSize dev) = ss" using assms(1) by (auto simp: bd_ok_def geometry_ok_def)
  have "unat (ucast (sectorSize dev) - offset :: u32) = ss - unat offset"
    using ssz assms(2) by (simp add: unat_sub word_le_nat_alt unat_ucast_up)
  then show c: "c = min sz (ss - unat offset)" by (simp add: assms(5))
  then show "c \<noteq> 0" "unat offset + c \<le> ss" and full: "c < sz \<Longrightarrow> unat offset + c = ss"
    using assms(2,3) by auto
  show s: "unat sector < 2 ^ 32 - 1"
  proof (rule ccontr)
    assume "\<not> unat sector < 2 ^ 32 - 1"
    then have "(2 ^ 32 - 1) * ss \<le> unat sector * ss" by (intro mult_le_mono1) simp
    then show False using assms(3,4) unfolding cache_limit_def by linarith
  qed
  then show s1: "unat (sector + 1) = unat sector + 1"
    using unat_add_lem [of sector 1] by simp
  show "unat (sector + 1) * ss + (sz - c) \<le> cache_limit ss" if "c < sz"
    using full [OF that] assms(4) that unfolding s1 by (simp add: algebra_simps)
qed

lemma read_loop_ok:
  assumes "bd_ok media ss dev" "buffers dev = Some bufs" "unat offset < ss"
    and "unat sector * ss + unat offset + sz \<le> cache_limit ss"
    and "read_loop ops dev bufs sector offset sz = (dev', r)"
  shows "bd_ok media ss dev' \<and> bd_view media dev' = bd_view media dev \<and> same_shape dev dev' \<and>
    (\<forall>bs. r = Some bs \<longrightarrow>
      bs = map (bd_content media ss dev) [unat sector * ss + unat offset..<unat sector * ss + unat offset + sz])"
  using assms
proof (induction sz arbitrary: dev bufs sector offset dev' r rule: less_induct)
  case (less sz)
  show ?case
  proof (cases "sz = 0")
    case True
    then show ?thesis using less.prems by auto
  next
    case False
    define c where "c = min sz (unat (ucast (sectorSize dev) - offset :: u32))"
    note ca = chunk_arith [OF less.prems(1,3) _ less.prems(4) c_def]
    obtain dev1 r1 where rc: "read_chunk ops dev bufs sector (unat offset) c = (dev1, r1)"
      by (cases "read_chunk ops dev bufs sector (unat offset) c")
    note ok1 = read_chunk_ok [OF less.prems(1,2) ca(4) rc]
    have loop: "read_loop ops dev bufs sector offset sz = (case (dev1, r1) of (dev', None) \<Rightarrow> (dev', None)
        | (dev', Some bs) \<Rightarrow> (case buffers dev' of None \<Rightarrow> (dev', None)
          | Some bufs' \<Rightarrow> (case read_loop ops dev' bufs' (sector + 1) 0 (sz - c) of
              (dev'', None) \<Rightarrow> (dev'', None) | (dev'', Some rest) \<Rightarrow> (dev'', Some (bs @ rest)))))"
      using False ca(2) by (simp add: read_loop.simps [of ops dev bufs sector offset sz] Let_def rc flip: c_def)
    show ?thesis
    proof (cases r1)
      case None
      then show ?thesis using loop less.prems(5) ok1 False by auto
    next
      case (Some bs)
      obtain bufs1 where b1: "buffers dev1 = Some bufs1"
        using same_shape_Some [of dev dev1] ok1 less.prems(2) False by auto
      obtain dev2 r2 where rl: "read_loop ops dev1 bufs1 (sector + 1) 0 (sz - c) = (dev2, r2)"
        by (cases "read_loop ops dev1 bufs1 (sector + 1) 0 (sz - c)")
      have "0 < ss" using less.prems(3) by simp
      let ?a = "unat sector * ss + unat offset" and ?V = "bd_content media ss dev"
      have bs: "bs = map ?V [?a..<?a + c]"
        using ok1 Some False content_seg [of "bd_view media dev" "unat sector" ss "unat offset" c] ca(3) less.prems(1)
        by (simp add: bd_content_def)
      have out: "dev' = dev2" "r = map_option (\<lambda>rest. bs @ rest) r2"
        using loop less.prems(5) Some b1 rl by (auto split: option.splits)
      have ih: "bd_ok media ss dev2 \<and> bd_view media dev2 = bd_view media dev1 \<and> same_shape dev1 dev2 \<and>
        (\<forall>rest. r2 = Some rest \<longrightarrow> rest = map (bd_content media ss dev1) [?a + c..<?a + sz])"
      proof (cases "c = sz")
        case True
        then show ?thesis using rl ok1 False by auto
      next
        case neq: False
        then have lt: "c < sz" using ca(1) False by simp
        have e: "unat (sector + 1) * ss = ?a + c" using ca(5,6) False lt by simp
        then show ?thesis
          using less.IH [of "sz - c" dev1 bufs1 0 "sector + 1" dev2 r2] ok1 b1 \<open>0 < ss\<close> ca(2,7) False lt rl
          by (simp add: add.assoc)
      qed
      have "[?a..<?a + c] @ [?a + c..<?a + sz] = [?a..<?a + sz]"
        using ca(1) False upt_add_eq_append [of ?a "?a + c" "sz - c"] by (simp add: add.assoc)
      then show ?thesis
        using ih ok1 bs out False same_shape_trans by (auto simp: bd_content_def simp flip: map_append)
    qed
  qed
qed

text \<open>A failed write leaves a prefix of the data written, chunk by chunk.\<close>

lemma write_loop_ok:
  assumes "bd_ok media ss dev" "buffers dev = Some bufs" "unat offset < ss"
    and "unat sector * ss + unat offset + length src \<le> cache_limit ss"
    and "write_loop ops dev bufs sector offset src = (dev', ok)"
  shows "bd_ok media ss dev' \<and> same_shape dev dev' \<and>
    (\<exists>m \<le> length src. (ok \<longrightarrow> m = length src) \<and>
      bd_content media ss dev' = overwrite (unat sector * ss + unat offset) (take m src) (bd_content media ss dev))"
  using assms
proof (induction "length src" arbitrary: dev bufs sector offset src dev' ok rule: less_induct)
  case less
  show ?case
  proof (cases "src = []")
    case True
    then show ?thesis using less.prems by auto
  next
    case False
    then have pos: "0 < length src" by simp
    define c where "c = min (length src) (unat (ucast (sectorSize dev) - offset :: u32))"
    note ca = chunk_arith [OF less.prems(1,3) pos less.prems(4) c_def]
    obtain dev1 ok1 where wc: "write_chunk ops dev bufs sector (unat offset) (take c src) = (dev1, ok1)"
      by (cases "write_chunk ops dev bufs sector (unat offset) (take c src)")
    have len: "length (take c src) = c" "unat offset + length (take c src) \<le> ss" using ca(1,3) by simp_all
    note ok1 = write_chunk_ok [OF less.prems(1,2) ca(4) len(2) wc]
    have loop: "write_loop ops dev bufs sector offset src = (case (dev1, ok1) of (dev', False) \<Rightarrow> (dev', False)
        | (dev', True) \<Rightarrow> (case buffers dev' of None \<Rightarrow> (dev', False)
          | Some bufs' \<Rightarrow> write_loop ops dev' bufs' (sector + 1) 0 (drop c src)))"
      using False ca(2) by (simp add: write_loop.simps [of ops dev bufs sector offset src] Let_def wc flip: c_def)
    let ?a = "unat sector * ss + unat offset" and ?V = "bd_content media ss dev"
    show ?thesis
    proof (cases ok1)
      case nok: False
      then show ?thesis using loop less.prems(5) ok1 by (auto simp: bd_content_def intro!: exI [of _ 0])
    next
      case True
      obtain bufs1 where b1: "buffers dev1 = Some bufs1"
        using same_shape_Some [of dev dev1] ok1 less.prems(2) by auto
      have w: "write_loop ops dev1 bufs1 (sector + 1) 0 (drop c src) = (dev', ok)"
        using loop less.prems(5) True b1 by simp
      have c1: "bd_content media ss dev1 = overwrite ?a (take c src) ?V"
        using ok1 True content_put [of "bd_view media dev" "unat sector" ss "unat offset" "take c src"] len(2) less.prems(1)
        by (simp add: bd_content_def)
      have "bd_ok media ss dev' \<and> same_shape dev1 dev' \<and>
        (\<exists>m \<le> length src - c. (ok \<longrightarrow> m = length src - c) \<and>
          bd_content media ss dev' = overwrite (?a + c) (take m (drop c src)) (bd_content media ss dev1))"
      proof (cases "c = length src")
        case True
        then show ?thesis using w ok1 by auto
      next
        case False
        then have lt: "c < length src" using ca(1) by simp
        then have e: "unat (sector + 1) * ss = ?a + c" using ca(5,6) by simp
        then show ?thesis
          using less.hyps [of "drop c src" dev1 bufs1 0 "sector + 1" dev' ok] ok1 b1 less.prems(3) ca(2,7) lt w
          by (simp add: add.assoc)
      qed
      then obtain m where m: "bd_ok media ss dev'" "same_shape dev1 dev'" "m \<le> length src - c" "ok \<Longrightarrow> m = length src - c"
        "bd_content media ss dev' = overwrite (?a + c) (take m (drop c src)) (bd_content media ss dev1)" by auto
      have "take c src @ take m (drop c src) = take (c + m) src" by (simp add: take_add)
      then have "bd_content media ss dev' = overwrite ?a (take (c + m) src) ?V"
        using m(5) overwrite_append [of ?a "take c src" "take m (drop c src)" ?V] len(1) by (simp only: c1)
      then show ?thesis using m(1-4) ok1 same_shape_trans ca(1)
        by (intro conjI exI [of _ "c + m"]) auto
    qed
  qed
qed

end

end
