(* ===== verification/BlockSpec.thy ===== *)
theory BlockSpec
  imports BlockCache
begin

text \<open>
  The public operations of \<^verbatim>\<open>BlockDevice\<close>, as operations on an array of bytes: what \<^verbatim>\<open>read\<close>,
  \<^verbatim>\<open>write\<close>, \<^verbatim>\<open>erase_range\<close>, \<^verbatim>\<open>sync\<close> and \<^verbatim>\<open>allocateBuffers\<close> do to the content of the device, with
  buffers or without. The locale \<open>disk_store\<close> is what the partitioning code relies on.
\<close>

section \<open>Geometry\<close>

lemma geometryD:
  assumes "geometry_ok ss dev"
  obtains sh where "sh < 16" "unat (sectorSizeShift dev) = sh" "ss = 2 ^ sh"
    "unat (address AND (ucast (sectorSize dev) - 1) :: u64) = unat address mod ss"
    "unat (ucast (address AND (ucast (sectorSize dev) - 1) :: u64) :: u32) = unat address mod ss"
    "unat (drop_bit (unat (sectorSizeShift dev)) address) = unat address div ss"
proof -
  obtain sh where sh: "sh < 16" "unat (sectorSizeShift dev) = sh" "unat (sectorSize dev) = 2 ^ sh" "ss = 2 ^ sh"
    using assms by (auto simp: geometry_ok_def)
  have "sectorSize dev = 2 ^ sh" using sh by (simp add: word_unat_eq_iff unat_pow2)
  then have m: "(ucast (sectorSize dev) - 1 :: u64) = mask sh"
    using sh(1) by (simp add: ucast_pow2 mask_minus_1)
  have small: "unat address mod 2 ^ sh < 2 ^ 32"
  proof -
    have "unat address mod 2 ^ sh < 2 ^ sh" by simp
    also have "(2 :: nat) ^ sh \<le> 2 ^ 32" using sh(1) by (intro power_increasing) simp_all
    finally show ?thesis .
  qed
  have d: "unat (drop_bit sh address) = unat address div 2 ^ sh"
    by (rule trans [OF unat_drop_bit_eq drop_bit_eq_div])
  show thesis
    using sh small d by (intro that [of sh])
      (simp_all only: m unat_and_mask unsigned_ucast_eq, simp add: take_bit_nat_eq_self)
qed

lemma cache_limit_u64: "geometry_ok ss dev \<Longrightarrow> cache_limit ss < 2 ^ 64"
proof -
  assume "geometry_ok ss dev"
  then obtain sh where "sh < 16" "ss = 2 ^ sh" by (auto simp: geometry_ok_def)
  then have "ss \<le> 2 ^ 16" using power_increasing [of sh 16 "2 :: nat"] by simp
  then have "(2 ^ 32 - 1) * ss \<le> (2 ^ 32 - 1) * 2 ^ 16" by (rule mult_le_mono2)
  then show ?thesis by (simp add: cache_limit_def)
qed

lemma geometry_pos: "geometry_ok ss dev \<Longrightarrow> 0 < ss"
  by (auto simp: geometry_ok_def)

lemma check_align_iff:
  assumes "geometry_ok ss dev"
  shows "check_align dev address sz \<longleftrightarrow> unat address mod ss = 0 \<and> unat sz mod ss = 0"
  by (rule geometryD [OF assms, of address], rule geometryD [OF assms, of sz])
    (simp add: check_align_def flip: unat_eq_0)

lemma content_concat:
  assumes "\<And>s. length (v s) = ss"
  shows "concat (map v [q..<q + n]) = map (content ss v) [q * ss..<(q + n) * ss]"
proof (induction n)
  case 0
  then show ?case by simp
next
  case (Suc n)
  have "v (q + n) = map (content ss v) [(q + n) * ss..<(q + n) * ss + ss]"
    using content_seg [of v "q + n" ss 0 ss] assms by simp
  moreover have "[q * ss..<(q + n) * ss + ss] = [q * ss..<(q + n) * ss] @ [(q + n) * ss..<(q + n) * ss + ss]"
    by (rule upt_add_eq_append) simp
  ultimately show ?case using Suc by (simp add: add.commute)
qed

text \<open>Sectors that hold given data make an array of bytes that holds it.\<close>

lemma content_overwrite:
  assumes "length src = n * ss" "0 < ss"
    and "\<And>k. k < n \<Longrightarrow> v' (q + k) = seg (k * ss) ss src"
    and "\<And>s. s < q \<or> q + n \<le> s \<Longrightarrow> v' s = v s"
  shows "content ss v' = overwrite (q * ss) src (content ss v)"
proof
  fix b
  define s r where "s = b div ss" and "r = b mod ss"
  have b: "b = s * ss + r" and r: "r < ss" using assms(2) by (simp_all add: s_def r_def)
  show "content ss v' b = overwrite (q * ss) src (content ss v) b"
  proof (cases "q \<le> s \<and> s < q + n")
    case True
    then obtain k where k: "s = q + k" "k < n" by (metis add_less_cancel_left le_Suc_ex)
    have "(k + 1) * ss \<le> n * ss" using k(2) by (intro mult_le_mono1) simp
    then have "k * ss + r < n * ss" using r by simp
    moreover have e: "b = q * ss + (k * ss + r)" by (simp add: b k(1) add_mult_distrib)
    ultimately have "overwrite (q * ss) src (content ss v) b = src ! (k * ss + r)"
      using assms(1) by (simp add: overwrite_def)
    moreover have "content ss v' b = seg (k * ss) ss src ! r"
      using content_at [OF r, of v' s] assms(3) [OF k(2)] by (simp only: b k(1))
    ultimately show ?thesis using r \<open>k * ss + r < n * ss\<close> assms(1) by simp
  next
    case False
    then consider "s < q" | "q + n \<le> s" by linarith
    then have "\<not> (q * ss \<le> b \<and> b < q * ss + length src)"
    proof cases
      case 1
      then have "(s + 1) * ss \<le> q * ss" by (intro mult_le_mono1) simp
      then show ?thesis using b r by simp
    next
      case 2
      then have "(q + n) * ss \<le> s * ss" by (rule mult_le_mono1)
      then show ?thesis using b assms(1) by (simp add: algebra_simps)
    qed
    then show ?thesis using False r assms(4) by (auto simp: b content_at overwrite_def)
  qed
qed

lemma overwrite_outside: "k < a \<or> a + length bs \<le> k \<Longrightarrow> overwrite a bs c k = c k"
  by (auto simp: overwrite_def)

section \<open>Reading and writing\<close>

context raw_media begin

lemma bd_read_ok:
  assumes "bd_ok media ss dev" "unat address + sz \<le> cache_limit ss" "bd_read ops dev address sz = (dev', r)"
  shows "bd_ok media ss dev' \<and> bd_view media dev' = bd_view media dev \<and> same_shape dev dev' \<and>
    (\<forall>bs. r = Some bs \<longrightarrow> bs = map (bd_content media ss dev) [unat address..<unat address + sz])"
proof -
  have g: "geometry_ok ss dev" using assms(1) by (simp add: bd_ok_def)
  obtain sh where sh: "sh < 16" "unat (sectorSizeShift dev) = sh" "ss = 2 ^ sh"
    "unat (ucast (address AND (ucast (sectorSize dev) - 1) :: u64) :: u32) = unat address mod ss"
    "unat (drop_bit (unat (sectorSizeShift dev)) address) = unat address div ss"
    using geometryD [OF g, of address] by metis
  have ss: "0 < ss" by (rule geometry_pos [OF g])
  show ?thesis
  proof (cases "buffers dev")
    case (Some bufs)
    have rl: "read_loop ops dev bufs (drop_bit (unat (sectorSizeShift dev)) address)
        (ucast (address AND (ucast (sectorSize dev) - 1))) sz = (dev', r)"
      using assms(3) Some by (simp add: bd_read_def)
    show ?thesis
      by (rule read_loop_ok [OF assms(1) Some _ _ rl, unfolded sh(4,5) div_mult_mod_eq]) (use assms(2) ss in simp_all)
  next
    case None
    have small: "sz < 2 ^ 64" using assms(2) cache_limit_u64 [OF g] by linarith
    show ?thesis
    proof (cases "check_align dev address (of_nat sz)")
      case False
      then show ?thesis using assms(1,3) None by (auto simp: bd_read_def)
    next
      case True
      then have al: "unat address = unat address div ss * ss" "sz = sz div ss * ss"
        using small by (auto simp: check_align_iff [OF g] unat_of_nat_u64 mod_eq_0_iff_dvd)
      let ?a = "drop_bit (unat (sectorSizeShift dev)) address"
      obtain d where rd: "raw_sector_read ops (raw dev) ?a (sz div ss) = (d, r)" "dev' = dev\<lparr>raw := d\<rparr>"
        using assms(3) None True by (auto simp: bd_read_def sh(2) drop_bit_eq_div sh(3) [symmetric] split: prod.splits)
      have "(unat address div ss + sz div ss) * ss \<le> (2 ^ 32 - 1) * ss"
        using assms(2) al by (simp only: add_mult_distrib cache_limit_def)
      then have fit: "unat ?a + sz div ss \<le> 2 ^ 32" using ss by (simp add: sh(5))
      have "bs = map (bd_content media ss dev) [unat address..<unat address + sz]" if "r = Some bs" for bs
        using raw_read_data [OF rd(1) [unfolded that] fit] content_concat [of "media (raw dev)" ss "unat ?a" "sz div ss"] al
        by (simp add: sh(5) bd_content_def bd_view_def None add_mult_distrib)
      then show ?thesis using raw_read_frame [OF rd(1) fit] g None
        by (simp add: rd(2) bd_ok_def bd_view_def geometry_ok_def same_shape_def)
    qed
  qed
qed

lemma bd_write_ok:
  assumes "bd_ok media ss dev" "unat address + length src \<le> cache_limit ss" "bd_write ops dev address src = (dev', ok)"
  shows "bd_ok media ss dev' \<and> same_shape dev dev' \<and>
    (ok \<longrightarrow> bd_content media ss dev' = overwrite (unat address) src (bd_content media ss dev)) \<and>
    (\<forall>k. k < unat address \<or> unat address + length src \<le> k \<longrightarrow> bd_content media ss dev' k = bd_content media ss dev k)"
proof -
  have g: "geometry_ok ss dev" using assms(1) by (simp add: bd_ok_def)
  obtain sh where sh: "sh < 16" "unat (sectorSizeShift dev) = sh" "ss = 2 ^ sh"
    "unat (ucast (address AND (ucast (sectorSize dev) - 1) :: u64) :: u32) = unat address mod ss"
    "unat (drop_bit (unat (sectorSizeShift dev)) address) = unat address div ss"
    using geometryD [OF g, of address] by metis
  have ss: "0 < ss" by (rule geometry_pos [OF g])
  show ?thesis
  proof (cases "buffers dev")
    case (Some bufs)
    have wl: "write_loop ops dev bufs (drop_bit (unat (sectorSizeShift dev)) address)
        (ucast (address AND (ucast (sectorSize dev) - 1))) src = (dev', ok)"
      using assms(3) Some by (simp add: bd_write_def)
    have "bd_ok media ss dev' \<and> same_shape dev dev' \<and> (\<exists>m \<le> length src. (ok \<longrightarrow> m = length src) \<and>
        bd_content media ss dev' = overwrite (unat address) (take m src) (bd_content media ss dev))"
      by (rule write_loop_ok [OF assms(1) Some _ _ wl, unfolded sh(4,5) div_mult_mod_eq]) (use assms(2) ss in simp_all)
    then show ?thesis by (auto simp: overwrite_outside)
  next
    case None
    have small: "length src < 2 ^ 64" using assms(2) cache_limit_u64 [OF g] by linarith
    show ?thesis
    proof (cases "check_align dev address (of_nat (length src))")
      case False
      then show ?thesis using assms(1,3) None by (auto simp: bd_write_def)
    next
      case True
      then have al: "unat address = unat address div ss * ss" "length src = length src div ss * ss"
        using small by (auto simp: check_align_iff [OF g] unat_of_nat_u64 mod_eq_0_iff_dvd)
      let ?a = "drop_bit (unat (sectorSizeShift dev)) address" and ?n = "length src div ss"
      obtain d where wr: "raw_sector_write ops (raw dev) ?a src ?n = (d, ok)" "dev' = dev\<lparr>raw := d\<rparr>"
        using assms(3) None True by (auto simp: bd_write_def sh(2) drop_bit_eq_div sh(3) [symmetric] split: prod.splits)
      have "(unat address div ss + ?n) * ss \<le> (2 ^ 32 - 1) * ss"
        using assms(2) al by (simp only: add_mult_distrib cache_limit_def)
      then have fit: "unat ?a + ?n \<le> 2 ^ 32" using ss by (simp add: sh(5))
      note frame = raw_write_frame [OF wr(1) al(2) fit]
      have "content ss (media d) = overwrite (unat ?a * ss) src (content ss (media (raw dev)))" if ok
        using wr(1) that by (intro content_overwrite [OF al(2) ss] raw_write_data [OF _ al(2) fit] frame) simp_all
      moreover have "content ss (media d) k = content ss (media (raw dev)) k"
        if "k < unat address \<or> unat address + length src \<le> k" for k
      proof -
        have "k div ss < unat ?a \<or> unat ?a + ?n \<le> k div ss"
          using that al ss by (simp only: sh(5)) (metis add_mult_distrib div_less_iff_less_mult less_eq_div_iff_mult_less_eq)
        then show ?thesis using frame by (simp add: content_def)
      qed
      ultimately show ?thesis using g None al(1)
        by (simp add: wr(2) bd_ok_def bd_view_def bd_content_def geometry_ok_def same_shape_def sh(5))
    qed
  qed
qed

end

section \<open>Erasing\<close>

text \<open>What the loop of \<^verbatim>\<open>erase_range\<close> leaves in the buffers.\<close>

definition erased :: "nat \<Rightarrow> nat \<Rightarrow> nat \<Rightarrow> buffer \<Rightarrow> buffer" where
  "erased ss a n b = (if bsector b \<noteq> buffer_invalid \<and> a \<le> unat (bsector b) \<and> unat (bsector b) < a + n
     then b\<lparr>bdata := replicate ss 0, bdirty := False\<rparr> else b)"

definition slots_ok :: "buffer list \<Rightarrow> bool" where
  "slots_ok bufs \<longleftrightarrow> (\<exists>k < 32. length bufs = 2 ^ k) \<and>
     (\<forall>i < length bufs. bsector (bufs ! i) \<noteq> buffer_invalid \<longrightarrow> unat (bsector (bufs ! i)) mod length bufs = i)"

lemma cache_ok_slots: "cache_ok med ss bufs \<Longrightarrow> slots_ok bufs"
  by (auto simp: cache_ok_def slots_ok_def entry_ok_def split: if_splits)

lemma erased_step:
  "erased ss (Suc a) n (if bsector b \<noteq> buffer_invalid \<and> unat (bsector b) = a
     then b\<lparr>bdata := replicate ss 0, bdirty := False\<rparr> else b) = erased ss a (Suc n) b"
  by (auto simp: erased_def)

lemma erase_loop_buffers:
  assumes "slots_ok bufs" "unat (sectorSize dev) = ss" "unat (address :: u64) + n \<le> 2 ^ 32 - 1"
    and "buffers dev = Some b0" "length b0 = length bufs"
  shows "\<exists>st. erase_loop dev bufs address n =
     dev\<lparr>stat := st, buffers := Some (map (erased ss (unat address) n) bufs)\<rparr>"
  using assms
proof (induction n arbitrary: dev bufs address b0)
  case 0
  have "map (erased ss (unat address) 0) bufs = bufs"
    by (rule map_idI) (auto simp: erased_def)
  then show ?case by (auto intro!: exI [of _ "stat dev"])
next
  case (Suc n)
  let ?i = "unat address mod length bufs"
  let ?b = "bufs ! ?i"
  let ?b1 = "if bsector ?b \<noteq> buffer_invalid \<and> unat (bsector ?b) = unat address
     then ?b\<lparr>bdata := replicate ss 0, bdirty := False\<rparr> else ?b"
  obtain k where k: "k < 32" "length bufs = 2 ^ k" using Suc.prems(1) by (auto simp: slots_ok_def)
  then have idx: "buffer_index bufs address = ?i" by (intro buffer_index_mod [where k = k]) simp_all
  have i: "?i < length bufs" using k(2) by simp
  have small: "unat address < 2 ^ 32 - 1" using Suc.prems(3) by simp
  have next_a: "unat (address + 1) = Suc (unat address)"
    using Suc.prems(3) unat_add_lem [of address 1] by simp
  define dev1 where "dev1 = dev\<lparr>stat := dev_stat_of dev StatErase address ?b\<rparr>"
  have step: "erase_loop dev bufs address (Suc n) = erase_loop dev1 (bufs[?i := ?b1]) (address + 1) n"
    by (simp add: Let_def idx hit_iff [OF small] Suc.prems(2) flip: dev1_def)
  have "bsector ?b1 = bsector ?b" by simp
  then have slots: "slots_ok (bufs[?i := ?b1])"
    using Suc.prems(1) i by (auto simp: slots_ok_def nth_list_update)
  have "map (erased ss (Suc (unat address)) n) (bufs[?i := ?b1]) = map (erased ss (unat address) (Suc n)) bufs"
  proof (rule nth_equalityI)
    fix j assume "j < length (map (erased ss (Suc (unat address)) n) (bufs[?i := ?b1]))"
    then have j: "j < length bufs" by simp
    show "map (erased ss (Suc (unat address)) n) (bufs[?i := ?b1]) ! j
        = map (erased ss (unat address) (Suc n)) bufs ! j"
    proof (cases "j = ?i")
      case True
      then show ?thesis using i erased_step by simp
    next
      case False
      then have "bsector (bufs ! j) \<noteq> buffer_invalid \<Longrightarrow> unat (bsector (bufs ! j)) \<noteq> unat address"
        using Suc.prems(1) j by (auto simp: slots_ok_def)
      then show ?thesis using False j by (auto simp: erased_def)
    qed
  qed simp
  then show ?case
    using Suc.IH [OF slots, of dev1 "address + 1" b0] Suc.prems(2-5) step next_a
    by (fastforce simp: dev1_def)
qed

lemma erased_entry:
  assumes frame: "\<And>s. s < a \<or> a + n \<le> s \<Longrightarrow> med' s = med s"
    and zero: "\<And>s. a \<le> s \<Longrightarrow> s < a + n \<Longrightarrow> med' s = replicate ss 0"
  shows "entry_ok med ss l i b \<Longrightarrow> entry_ok med' ss l i (erased ss a n b)"
    "slot_view med' (erased ss a n b) s = (if a \<le> s \<and> s < a + n then replicate ss 0 else slot_view med b s)"
proof -
  let ?s = "unat (bsector b)"
  show "entry_ok med' ss l i (erased ss a n b)" if e: "entry_ok med ss l i b"
  proof (cases "bsector b = buffer_invalid \<or> \<not> (a \<le> ?s \<and> ?s < a + n)")
    case True
    then have "erased ss a n b = b" "bsector b = buffer_invalid \<or> med' ?s = med ?s"
      using frame [of ?s] by (auto simp: erased_def)
    then show ?thesis using e by (auto simp: entry_ok_def)
  next
    case False
    then show ?thesis using e zero [of ?s] by (simp add: entry_ok_def erased_def)
  qed
  show "slot_view med' (erased ss a n b) s = (if a \<le> s \<and> s < a + n then replicate ss 0 else slot_view med b s)"
    using frame [of s] zero [of s] by (auto simp: slot_view_def erased_def)
qed

context raw_media begin

lemma bd_ok_raw:
  assumes "media d = media (raw dev)"
  shows "bd_ok media ss (dev\<lparr>raw := d\<rparr>) = bd_ok media ss dev" "bd_view media (dev\<lparr>raw := d\<rparr>) = bd_view media dev"
    "same_shape dev (dev\<lparr>raw := d\<rparr>)"
  using assms by (cases "buffers dev"; simp add: bd_ok_def bd_view_def geometry_ok_def same_shape_def)+

lemma bd_erase_ok:
  assumes "bd_ok media ss dev" "unat address + unat sz \<le> cache_limit ss"
    and "bd_erase_range ops dev address sz = (dev', ok)"
  shows "bd_ok media ss dev' \<and> same_shape dev dev' \<and>
    (ok \<longrightarrow> unat address mod ss = 0 \<and> unat sz mod ss = 0) \<and>
    bd_content media ss dev' =
      (if ok then overwrite (unat address) (replicate (unat sz) 0) (bd_content media ss dev) else bd_content media ss dev)"
proof (cases "check_align dev address sz")
  case False
  then show ?thesis using assms(1,3) by (auto simp: bd_erase_range_def)
next
  case True
  have g: "geometry_ok ss dev" using assms(1) by (simp add: bd_ok_def)
  have ss: "0 < ss" by (rule geometry_pos [OF g])
  have al: "unat address mod ss = 0" "unat sz mod ss = 0" using True by (simp_all add: check_align_iff [OF g])
  let ?a = "drop_bit (unat (sectorSizeShift dev)) address" and ?n = "drop_bit (unat (sectorSizeShift dev)) sz"
  have a: "unat ?a = unat address div ss" using geometryD [OF g, of address] by metis
  have n: "unat ?n = unat sz div ss" using geometryD [OF g, of sz] by metis
  have ae: "unat ?a * ss = unat address" "unat ?n * ss = unat sz" using al a n by auto
  have "(unat ?a + unat ?n) * ss \<le> (2 ^ 32 - 1) * ss"
    using assms(2) by (simp only: add_mult_distrib ae cache_limit_def)
  then have fit: "unat ?a + unat ?n \<le> 2 ^ 32 - 1" using ss by simp
  then have uc: "unat (ucast ?n :: u32) = unat ?n" by (simp add: unsigned_ucast_eq take_bit_nat_eq_self)
  obtain d ok1 where er: "raw_sector_erase_range ops (raw dev) ?a (unat ?n) = (d, ok1)"
    by (cases "raw_sector_erase_range ops (raw dev) ?a (unat ?n)")
  have fit2: "unat ?a + unat ?n \<le> 2 ^ 32" using fit by simp
  show ?thesis
  proof (cases ok1)
    case False
    then have "dev' = dev\<lparr>raw := d\<rparr>" "\<not> ok"
      using assms(3) True er uc by (simp_all add: bd_erase_range_def Let_def)
    moreover have "media d = media (raw dev)" using raw_erase_frame [OF er fit2] False by blast
    ultimately show ?thesis using assms(1) by (simp add: bd_ok_raw bd_content_def)
  next
    case ok1: True
    have frame: "media d s = media (raw dev) s" if "s < unat ?a \<or> unat ?a + unat ?n \<le> s" for s
      using raw_erase_frame [OF er fit2, of s] that by blast
    have zero: "media d s = replicate ss 0" if "unat ?a \<le> s" "s < unat ?a + unat ?n" for s
      using raw_erase_data [OF _ fit2 that, of "raw dev" d] er ok1 by simp
    have goal: ?thesis if "bd_ok media ss dev'" "same_shape dev dev'" ok
      and v: "\<And>s. bd_view media dev' s = (if unat ?a \<le> s \<and> s < unat ?a + unat ?n then replicate ss 0 else bd_view media dev s)"
    proof -
      have "bd_content media ss dev' = overwrite (unat ?a * ss) (replicate (unat sz) 0) (bd_content media ss dev)"
        unfolding bd_content_def
      proof (rule content_overwrite [of _ "unat ?n"])
        fix k assume k: "k < unat ?n"
        then have "(k + 1) * ss \<le> unat ?n * ss" by (intro mult_le_mono1) simp
        then show "bd_view media dev' (unat ?a + k) = seg (k * ss) ss (replicate (unat sz) 0)"
          using k v ae(2) by (simp add: min_def)
      qed (use ae ss v in auto)
      then show ?thesis using that al by (simp add: ae(1))
    qed
    show ?thesis
    proof (cases "buffers dev")
      case None
      then have "dev' = dev\<lparr>raw := d\<rparr>" "ok"
        using assms(3) True er uc ok1 by (simp_all add: bd_erase_range_def Let_def)
      then show ?thesis using g None frame zero
        by (intro goal) (auto simp: bd_ok_def bd_view_def geometry_ok_def same_shape_def)
    next
      case (Some bufs)
      let ?e = "erased ss (unat ?a) (unat ?n)"
      have c: "cache_ok (media (raw dev)) ss bufs" using assms(1) Some by (simp add: bd_ok_def)
      obtain st where dev': "dev' = dev\<lparr>raw := d, stat := st, buffers := Some (map ?e bufs)\<rparr>" and ok: ok
        using erase_loop_buffers [OF cache_ok_slots [OF c], of "dev\<lparr>raw := d\<rparr>" ss ?a "unat ?n" bufs] fit Some g
          assms(3) True er uc ok1 by (auto simp: bd_erase_range_def Let_def geometry_ok_def)
      have ent: "entry_ok (media d) ss (length bufs) i (?e (bufs ! i))" if "i < length bufs" for i
        using c that by (intro erased_entry(1) [OF frame zero]) (simp_all add: cache_ok_def)
      have sv: "slot_view (media d) (?e b) s = (if unat ?a \<le> s \<and> s < unat ?a + unat ?n then replicate ss 0
          else slot_view (media (raw dev)) b s)" for b s
        by (rule erased_entry(2) [OF frame zero])
      show ?thesis
      proof (rule goal)
        show "bd_ok media ss dev'" using ent c g by (auto simp: dev' bd_ok_def cache_ok_def geometry_ok_def)
        show "same_shape dev dev'" using Some by (simp add: dev' same_shape_def)
        fix s
        have "s mod length bufs < length bufs" using cache_okD(1) [OF c] by simp
        then show "bd_view media dev' s = (if unat ?a \<le> s \<and> s < unat ?a + unat ?n then replicate ss 0 else bd_view media dev s)"
          by (simp add: dev' bd_view_def view_def Some sv)
      qed (rule ok)
    qed
  qed
qed

end

section \<open>Flushing, synchronising, changing the number of buffers\<close>

lemma view_all_clean:
  assumes "cache_ok med ss bufs" "\<forall>b \<in> set bufs. \<not> bdirty b"
  shows "view med bufs = med"
proof
  fix s
  let ?i = "s mod length bufs"
  have i: "?i < length bufs" using cache_okD(1) [OF assms(1)] by simp
  then have "entry_ok med ss (length bufs) ?i (bufs ! ?i)" "\<not> bdirty (bufs ! ?i)"
    using assms by (auto simp: cache_ok_def)
  then show "view med bufs s = med s" by (auto simp: view_def slot_view_def entry_ok_def)
qed

lemma bufferlist_new_ok:
  assumes "size_bits_law L" "k < 32" "bufs = bufferlist_new L mem ss (2 ^ k)"
  shows "length bufs = 2 ^ k" "cache_ok med ss bufs" "view med bufs = med"
proof -
  show len: "length bufs = 2 ^ k" using assms by (simp add: bufferlist_new_def size_bits_law_def)
  have b: "length (bdata b) = ss" "bsector b = buffer_invalid" "\<not> bdirty b" if "b \<in> set bufs" for b
    using that by (auto simp: assms(3) bufferlist_new_def)
  have "entry_ok med ss (length bufs) i (bufs ! i)" if "i < length bufs" for i
    using b [of "bufs ! i"] that by (simp add: entry_ok_def)
  then show c: "cache_ok med ss bufs" using len assms(2) by (auto simp: cache_ok_def)
  then show "view med bufs = med" using b by (intro view_all_clean) auto
qed

context raw_media begin

lemma flush_all_ok:
  assumes "cache_ok (media d) ss (front @ todo)" "flush_all ops d todo = (d', todo', ok)"
  shows "cache_ok (media d') ss (front @ todo') \<and> length todo' = length todo \<and>
    view (media d') (front @ todo') = view (media d) (front @ todo) \<and> (ok \<longrightarrow> (\<forall>b \<in> set todo'. \<not> bdirty b))"
  using assms
proof (induction todo arbitrary: front d d' todo' ok)
  case Nil
  then show ?case by simp
next
  case (Cons b bs)
  obtain d1 b1 ok1 where f: "flushBuffer ops d b = (d1, b1, ok1)" by (cases "flushBuffer ops d b")
  obtain bs2 ok2 where fa: "flush_all ops d1 bs = (d', bs2, ok2)" "todo' = b1 # bs2" "ok = (ok1 \<and> ok2)"
    using Cons.prems(2) f by (auto split: prod.splits)
  let ?i = "length front"
  have u: "(front @ b # bs)[?i := b1] = (front @ [b1]) @ bs" by simp
  note fs = flush_slot [OF Cons.prems(1), of ?i d1 b1 ok1]
  have s: "cache_ok (media d1) ss ((front @ [b1]) @ bs)"
    "view (media d1) ((front @ [b1]) @ bs) = view (media d) (front @ b # bs)" "ok1 \<Longrightarrow> \<not> bdirty b1"
    using fs f unfolding u by simp_all
  show ?case using Cons.IH [OF s(1) fa(1)] s(2,3) fa(2,3) by auto
qed

lemma flushBuffers_ok:
  assumes "bd_ok media ss dev" "flushBuffers ops dev = (dev', ok)"
  shows "bd_ok media ss dev' \<and> bd_view media dev' = bd_view media dev \<and> same_shape dev dev' \<and>
    (ok \<longrightarrow> media (raw dev') = bd_view media dev)"
proof (cases "buffers dev")
  case None
  then show ?thesis using assms by (simp add: flushBuffers_def bd_view_def)
next
  case (Some bufs)
  obtain d bufs' where fa: "flush_all ops (raw dev) bufs = (d, bufs', ok)"
    "dev' = dev\<lparr>raw := d, buffers := Some bufs'\<rparr>"
    using assms(2) Some by (auto simp: flushBuffers_def split: prod.splits)
  have "cache_ok (media (raw dev)) ss ([] @ bufs)" using assms(1) Some by (simp add: bd_ok_def)
  note f = flush_all_ok [OF this fa(1), simplified]
  have "media d = view (media (raw dev)) bufs" if ok using f view_all_clean [of "media d" ss bufs'] that by simp
  then show ?thesis using f assms(1) Some
    by (simp add: fa(2) bd_ok_def bd_view_def geometry_ok_def same_shape_def)
qed

lemma bd_sync_ok:
  assumes "bd_ok media ss dev" "bd_sync ops dev = (dev', ok)"
  shows "bd_ok media ss dev' \<and> bd_view media dev' = bd_view media dev \<and> same_shape dev dev' \<and>
    (ok \<longrightarrow> media (raw dev') = bd_view media dev)"
proof -
  obtain dev1 ok1 where f: "flushBuffers ops dev = (dev1, ok1)" by (cases "flushBuffers ops dev")
  note fl = flushBuffers_ok [OF assms(1) f]
  show ?thesis
  proof (cases ok1)
    case False
    then show ?thesis using fl assms(2) f by (simp add: bd_sync_def)
  next
    case True
    obtain d ok2 where s: "raw_sync ops (raw dev1) = (d, ok2)" by (cases "raw_sync ops (raw dev1)")
    have "media d = media (raw dev1)" by (rule raw_sync_frame [OF s])
    then show ?thesis using fl assms(2) f s True bd_ok_raw [of d dev1] same_shape_trans [of dev dev1]
      by (auto simp: bd_sync_def)
  qed
qed

lemma allocateBuffers_ok:
  assumes "bd_ok media ss dev" "size_bits_law L" "n = 0 \<or> n = 2 ^ k" "k < 32"
    and "allocateBuffers L ops mem dev n = (dev', ok)"
  shows "bd_ok media ss dev' \<and> bd_view media dev' = bd_view media dev \<and>
    (ok \<longrightarrow> map_option length (buffers dev') = (if n = 0 then None else Some n))"
proof -
  have g: "unat (sectorSize dev) = ss" using assms(1) by (auto simp: bd_ok_def geometry_ok_def)
  obtain dev1 ok1 where f: "flushBuffers ops dev = (dev1, ok1)" by (cases "flushBuffers ops dev")
  note fl = flushBuffers_ok [OF assms(1) f]
  then have g1: "unat (sectorSize dev1) = ss" "geometry_ok ss dev1"
    using g by (auto simp: same_shape_def bd_ok_def)
  show ?thesis
  proof (cases ok1)
    case False
    then show ?thesis using fl assms(5) f by (simp add: allocateBuffers_def)
  next
    case ok1: True
    have m: "media (raw dev1) = bd_view media dev" using fl ok1 by blast
    show ?thesis
    proof (cases "n = 0")
      case True
      then have "dev' = dev1\<lparr>buffers := None\<rparr>" "ok" using assms(5) f ok1 by (simp_all add: allocateBuffers_def)
      then show ?thesis using True m g1(2) by (simp add: bd_ok_def bd_view_def geometry_ok_def)
    next
      case False
      then have n: "n = 2 ^ k" using assms(3) by simp
      note b = bufferlist_new_ok [OF assms(2,4) refl, where mem = mem and ss = ss]
      have "dev' = dev1\<lparr>buffers := Some (bufferlist_new L mem ss n)\<rparr>"
        using assms(5) f ok1 False g1(1) by (simp add: allocateBuffers_def Let_def)
      then show ?thesis using False m g1(2) b by (simp add: n bd_ok_def bd_view_def geometry_ok_def)
    qed
  qed
qed

end

section \<open>The interface of the partitioning code\<close>

text \<open>
  A disk as the scanner sees it (\<open>rd\<close> is \<^verbatim>\<open>Device::read\<close>): while \<open>ok\<close> holds, the bytes below \<open>lim\<close>
  have a content, reading delivers it and does not change it.
\<close>

locale readable_disk =
  fixes rd :: "'s \<Rightarrow> u64 \<Rightarrow> nat \<Rightarrow> 's \<times> u8 list option"
    and ok :: "'s \<Rightarrow> bool" and bytes :: "'s \<Rightarrow> nat \<Rightarrow> u8" and lim :: nat
  assumes rd_frame: "ok s \<Longrightarrow> unat a + n \<le> lim \<Longrightarrow> rd s a n = (s', r) \<Longrightarrow> ok s' \<and> bytes s' = bytes s"
    and rd_data: "ok s \<Longrightarrow> unat a + n \<le> lim \<Longrightarrow> rd s a n = (s', Some bs)
      \<Longrightarrow> bs = map (bytes s) [unat a..<unat a + n]"

text \<open>A disk as the partition writers see it, with \<^verbatim>\<open>write\<close> and \<^verbatim>\<open>sync\<close>; \<open>stored\<close> is what is on the
  medium.\<close>

locale writable_disk = readable_disk +
  fixes wr :: "'a \<Rightarrow> u64 \<Rightarrow> u8 list \<Rightarrow> 'a \<times> bool" and sync :: "'a \<Rightarrow> 'a \<times> bool"
    and stored :: "'a \<Rightarrow> nat \<Rightarrow> u8"
  assumes wr_ok: "ok s \<Longrightarrow> unat a + length bs \<le> lim \<Longrightarrow> wr s a bs = (s', r) \<Longrightarrow> ok s'"
    and wr_data: "ok s \<Longrightarrow> unat a + length bs \<le> lim \<Longrightarrow> wr s a bs = (s', True)
      \<Longrightarrow> bytes s' = overwrite (unat a) bs (bytes s)"
    and wr_frame: "ok s \<Longrightarrow> unat a + length bs \<le> lim \<Longrightarrow> wr s a bs = (s', r)
      \<Longrightarrow> k < unat a \<or> unat a + length bs \<le> k \<Longrightarrow> bytes s' k = bytes s k"
    and sync_frame: "ok s \<Longrightarrow> sync s = (s', r) \<Longrightarrow> ok s' \<and> bytes s' = bytes s"
    and sync_data: "ok s \<Longrightarrow> sync s = (s', True) \<Longrightarrow> stored s' = bytes s"

sublocale raw_media \<subseteq> writable_disk "bd_read ops" "bd_ok media ss" "bd_content media ss" "cache_limit ss"
  "bd_write ops" "bd_sync ops" "\<lambda>dev. content ss (media (raw dev))"
proof (unfold_locales, goal_cases)
  case (1 s a n s' r)
  then show ?case using bd_read_ok [of s a n s' r] by (simp add: bd_content_def)
next
  case (2 s a n s' bs)
  then show ?case using bd_read_ok [of s a n s' "Some bs"] by simp
next
  case (3 s a bs s' r)
  then show ?case using bd_write_ok by blast
next
  case (4 s a bs s')
  then show ?case using bd_write_ok by blast
next
  case (5 s a bs s' r k)
  then show ?case using bd_write_ok by blast
next
  case (6 s s' r)
  then show ?case using bd_sync_ok [of s s' r] by (simp add: bd_content_def)
next
  case (7 s s')
  then show ?case using bd_sync_ok [of s s' True] by (simp add: bd_content_def)
qed

end
