(* ===== verification/HostFile.thy ===== *)
theory HostFile
  imports BlockSpec
begin

text \<open>
  \<^verbatim>\<open>HostFileDevice\<close>: a block device backed by a file of the host. The system calls are a record
  of functions over the state \<open>'o\<close> of the operating system; the locale \<open>posix_file\<close> states
  what their manual pages promise of the open file's content (zero beyond its end) and position.
  Under this contract the four raw operations implement the medium of \<open>raw_media\<close>.
\<close>

section \<open>System calls\<close>

text \<open>
  \<open>px_open\<close> takes the file's name and whether \<^verbatim>\<open>O_CREAT\<close> is given, and says whether the descriptor is
  valid. \<open>px_seek\<close> is \<^verbatim>\<open>lseek64\<close> with \<^verbatim>\<open>SEEK_SET\<close> (its result as the code compares it, unsigned),
  \<open>px_seek_end\<close> with \<^verbatim>\<open>SEEK_END\<close>. \<open>px_read\<close> gives the bytes transferred, \<open>px_write\<close> their number,
  \<open>None\<close> for the result -1. \<open>px_punch\<close> is \<^verbatim>\<open>fallocate64\<close> with \<^verbatim>\<open>FALLOC_FL_PUNCH_HOLE\<close> and
  \<^verbatim>\<open>FALLOC_FL_KEEP_SIZE\<close>.
\<close>

record 'o posix =
  px_open :: "'o \<Rightarrow> string \<Rightarrow> bool \<Rightarrow> 'o \<times> bool"
  px_close :: "'o \<Rightarrow> 'o"
  px_unlink :: "'o \<Rightarrow> string \<Rightarrow> 'o"
  px_seek :: "'o \<Rightarrow> u64 \<Rightarrow> 'o \<times> u64"
  px_seek_end :: "'o \<Rightarrow> 'o \<times> u64 option"
  px_read :: "'o \<Rightarrow> nat \<Rightarrow> 'o \<times> u8 list option"
  px_write :: "'o \<Rightarrow> u8 list \<Rightarrow> 'o \<times> nat option"
  px_punch :: "'o \<Rightarrow> u64 \<Rightarrow> u64 \<Rightarrow> 'o \<times> bool"
  px_ftruncate :: "'o \<Rightarrow> u64 \<Rightarrow> 'o \<times> bool"

locale posix_file =
  fixes P :: "'o posix" and fbytes :: "'o \<Rightarrow> nat \<Rightarrow> u8" and fpos :: "'o \<Rightarrow> nat"
  assumes seek_frame: "px_seek P d off = (d', r) \<Longrightarrow> fbytes d' = fbytes d"
    and seek_pos: "px_seek P d off = (d', off) \<Longrightarrow> fpos d' = unat off"
    and seek_end_frame: "px_seek_end P d = (d', e) \<Longrightarrow> fbytes d' = fbytes d"
    and read_frame: "px_read P d n = (d', x) \<Longrightarrow> fbytes d' = fbytes d"
    and read_data: "px_read P d n = (d', Some bs)
      \<Longrightarrow> bs = map (fbytes d) [fpos d..<fpos d + length bs]"
    and write_data: "px_write P d bs = (d', Some c)
      \<Longrightarrow> c \<le> length bs \<and> fbytes d' = overwrite (fpos d) (take c bs) (fbytes d)"
    and write_fail: "px_write P d bs = (d', None) \<Longrightarrow> k < fpos d \<or> fpos d + length bs \<le> k
      \<Longrightarrow> fbytes d' k = fbytes d k"
    and punch_data: "px_punch P d off len = (d', True)
      \<Longrightarrow> fbytes d' = overwrite (unat off) (replicate (unat len) 0) (fbytes d)"
    and punch_fail: "px_punch P d off len = (d', False) \<Longrightarrow> fbytes d' = fbytes d"
    and truncate_data: "px_ftruncate P d sz = (d', True)
      \<Longrightarrow> fbytes d' k = (if k < unat sz then fbytes d k else 0)"

text \<open>One file that outlives its descriptor: closing it and opening it again under its name keep its bytes.\<close>

locale posix_store = posix_file +
  fixes fname :: string
  assumes open_frame: "px_open P d fname create = (d', True) \<Longrightarrow> fbytes d' = fbytes d"
    and close_frame: "fbytes (px_close P d) = fbytes d"

section \<open>The code\<close>

definition zeroSparse :: "'o posix \<Rightarrow> 'o \<Rightarrow> u64 \<Rightarrow> u64 \<Rightarrow> 'o \<times> bool" where
  "zeroSparse P d offset len = px_punch P d offset len"

definition hf_sector_read :: "'o posix \<Rightarrow> nat \<Rightarrow> 'o \<Rightarrow> u64 \<Rightarrow> nat \<Rightarrow> 'o \<times> u8 list option" where
  "hf_sector_read P shift d address n =
     (let offset = push_bit shift address in
      case px_seek P d offset of
        (d1, res) \<Rightarrow>
          if res \<noteq> offset then (d1, None)
          else
            (case px_read P d1 (push_bit shift n) of
               (d2, None) \<Rightarrow> (d2, None)
             | (d2, Some bs) \<Rightarrow> (d2, if length bs = push_bit shift n then Some bs else None)))"

text \<open>The caller passes at least \<open>n\<close> sectors (bytes that are missing in \<open>src\<close> read as zero here).\<close>

definition hf_sector_write :: "'o posix \<Rightarrow> nat \<Rightarrow> 'o \<Rightarrow> u64 \<Rightarrow> u8 list \<Rightarrow> nat \<Rightarrow> 'o \<times> bool" where
  "hf_sector_write P shift d address src n =
     (let offset = push_bit shift address in
      case px_seek P d offset of
        (d1, res) \<Rightarrow>
          if res \<noteq> offset then (d1, False)
          else
            (case px_write P d1 (take (push_bit shift n) (src @ replicate (push_bit shift n) 0)) of
               (d2, cnt) \<Rightarrow> (d2, cnt = Some (push_bit shift n))))"

definition hf_sector_erase_range :: "'o posix \<Rightarrow> nat \<Rightarrow> 'o \<Rightarrow> u64 \<Rightarrow> nat \<Rightarrow> 'o \<times> bool" where
  "hf_sector_erase_range P shift d address n =
     zeroSparse P d (push_bit shift address) (push_bit shift (of_nat n))"

definition hostfile_ops :: "'o posix \<Rightarrow> nat \<Rightarrow> 'o raw_ops" where
  "hostfile_ops P shift =
     \<lparr>raw_sector_read = hf_sector_read P shift, raw_sector_write = hf_sector_write P shift,
      raw_sector_erase_range = hf_sector_erase_range P shift, raw_sync = (\<lambda>d. (d, True))\<rparr>"

text \<open>The object: \<open>hf_open\<close> is \<^verbatim>\<open>file >= 0\<close>. The default sector size is the framework's.\<close>

record 'o host_file =
  hf_name :: string
  hf_open :: bool
  hf_dev :: "'o block_device"

definition bd_initial :: "sming \<Rightarrow> u16 \<Rightarrow> 'o \<Rightarrow> 'o block_device" where
  "bd_initial L defaultSectorSize d =
     \<lparr>raw = d, buffers = None, sectorCount = 0, sectorSize = defaultSectorSize,
      sectorSizeShift = of_nat (getSizeBits L (unat defaultSectorSize)),
      stat = \<lparr>func = (\<lambda>_. zero_func), sectors = (\<lambda>_. None)\<rparr>\<rparr>"

text \<open>The name as a C string: it ends at the first null character.\<close>

definition hf_getName :: "'o host_file \<Rightarrow> string" where
  "hf_getName hf = takeWhile (\<lambda>ch. ch \<noteq> CHR 0x00) (hf_name hf)"

definition hf_setup :: "'o posix \<Rightarrow> sming \<Rightarrow> (nat \<Rightarrow> u8 list) \<Rightarrow> 'o block_device \<Rightarrow> u64 \<Rightarrow> 'o block_device" where
  "hf_setup P L mem dev sz =
     (let sz' = sz - sz mod ucast (sectorSize dev);
          dev1 = dev\<lparr>sectorCount := drop_bit (unat (sectorSizeShift dev)) sz'\<rparr>
      in fst (allocateBuffers L (hostfile_ops P (unat (sectorSizeShift dev))) mem dev1 4))"

definition hostfile_create :: "'o posix \<Rightarrow> sming \<Rightarrow> u16 \<Rightarrow> (nat \<Rightarrow> u8 list) \<Rightarrow> string \<Rightarrow> string \<Rightarrow> u64 \<Rightarrow> 'o
    \<Rightarrow> 'o host_file" where
  "hostfile_create P L dss mem name filename sz d =
     (case px_open P d filename True of
        (d1, False) \<Rightarrow> \<lparr>hf_name = name, hf_open = False, hf_dev = bd_initial L dss d1\<rparr>
      | (d1, True) \<Rightarrow>
          let dev = hf_setup P L mem (bd_initial L dss d1) sz in
          (case px_ftruncate P (raw dev) (getSize dev) of
             (d2, True) \<Rightarrow> \<lparr>hf_name = name, hf_open = True, hf_dev = dev\<lparr>raw := d2\<rparr>\<rparr>
           | (d2, False) \<Rightarrow>
               \<lparr>hf_name = name, hf_open = False,
                hf_dev = dev\<lparr>raw := px_unlink P (px_close P d2) filename, sectorCount := 0\<rparr>\<rparr>))"

text \<open>A failing \<^verbatim>\<open>lseek64\<close> gives -1, which the (signed) rounding turns into 0.\<close>

definition hostfile_existing :: "'o posix \<Rightarrow> sming \<Rightarrow> u16 \<Rightarrow> (nat \<Rightarrow> u8 list) \<Rightarrow> string \<Rightarrow> string \<Rightarrow> 'o
    \<Rightarrow> 'o host_file" where
  "hostfile_existing P L dss mem name filename d =
     (case px_open P d filename False of
        (d1, False) \<Rightarrow> \<lparr>hf_name = name, hf_open = False, hf_dev = bd_initial L dss d1\<rparr>
      | (d1, True) \<Rightarrow>
          (case px_seek_end P d1 of
             (d2, e) \<Rightarrow>
               \<lparr>hf_name = name, hf_open = True,
                hf_dev = hf_setup P L mem (bd_initial L dss d2) (case e of None \<Rightarrow> 0 | Some n \<Rightarrow> n)\<rparr>))"

definition hostfile_destroy :: "'o posix \<Rightarrow> 'o host_file \<Rightarrow> 'o" where
  "hostfile_destroy P hf = (if hf_open hf then px_close P (raw (hf_dev hf)) else raw (hf_dev hf))"

section \<open>The file as a medium\<close>

definition file_media :: "('o \<Rightarrow> nat \<Rightarrow> u8) \<Rightarrow> nat \<Rightarrow> 'o \<Rightarrow> nat \<Rightarrow> u8 list" where
  "file_media fbytes shift d s = map (fbytes d) [s * 2 ^ shift..<s * 2 ^ shift + 2 ^ shift]"

lemma length_file_media [simp]: "length (file_media fbytes shift d s) = 2 ^ shift"
  by (simp add: file_media_def)

lemma content_file_media: "content (2 ^ shift) (file_media fbytes shift d) = fbytes d"
proof
  fix k
  have "k mod 2 ^ shift < (2 :: nat) ^ shift" by simp
  then have "file_media fbytes shift d (k div 2 ^ shift) ! (k mod 2 ^ shift)
      = fbytes d (k div 2 ^ shift * 2 ^ shift + k mod 2 ^ shift)"
    by (simp add: file_media_def)
  then show "content (2 ^ shift) (file_media fbytes shift d) k = fbytes d k"
    by (simp only: content_def div_mult_mod_eq)
qed

lemma file_media_frame:
  "(\<And>k. s * 2 ^ shift \<le> k \<Longrightarrow> k < s * 2 ^ shift + 2 ^ shift \<Longrightarrow> fbytes d' k = fbytes d k)
    \<Longrightarrow> file_media fbytes shift d' s = file_media fbytes shift d s"
  by (simp add: file_media_def)

lemma sector_offset:
  assumes "shift < 16" "unat (a :: u64) \<le> 2 ^ 32"
  shows "unat (push_bit shift a) = unat a * 2 ^ shift"
proof -
  have "(2 :: nat) ^ shift \<le> 2 ^ 16" using assms(1) by (intro power_increasing) simp_all
  then have "unat a * 2 ^ shift \<le> 2 ^ 32 * 2 ^ 16" by (rule mult_le_mono [OF assms(2)])
  then have "unat a * 2 ^ shift < 2 ^ 64" by simp
  then have "take_bit LENGTH(64) (push_bit shift (unat a)) = unat a * 2 ^ shift"
    by (simp add: push_bit_eq_mult take_bit_nat_eq_self)
  then show ?thesis by (simp only: unsigned_push_bit_eq)
qed

lemma sectors_apart:
  fixes s q n b :: nat
  assumes "s < q \<or> q + n \<le> s" "s * b \<le> k" "k < s * b + b"
  shows "k < q * b \<or> q * b + n * b \<le> k"
  using assms(1)
proof
  assume "s < q"
  then have "(s + 1) * b \<le> q * b" by (intro mult_le_mono1) simp
  then show ?thesis using assms(3) by simp
next
  assume "q + n \<le> s"
  then have "(q + n) * b \<le> s * b" by (rule mult_le_mono1)
  then show ?thesis using assms(2) by (simp add: add_mult_distrib)
qed

context posix_file begin

lemma hf_read_media:
  assumes "shift < 16" "unat a + n \<le> 2 ^ 32" "hf_sector_read P shift d a n = (d', r)"
  shows "fbytes d' = fbytes d" "r = Some bs \<Longrightarrow> bs = map (fbytes d) [unat a * 2 ^ shift..<(unat a + n) * 2 ^ shift]"
proof -
  have off: "unat (push_bit shift a) = unat a * 2 ^ shift" using assms(1,2) by (intro sector_offset) simp_all
  obtain d1 res where s: "px_seek P d (push_bit shift a) = (d1, res)" by (cases "px_seek P d (push_bit shift a)")
  obtain d2 x where r: "px_read P d1 (push_bit shift n) = (d2, x)" by (cases "px_read P d1 (push_bit shift n)")
  note f = seek_frame [OF s] read_frame [OF r]
  note code = assms(3) [unfolded hf_sector_read_def Let_def s prod.case r]
  show "fbytes d' = fbytes d" using code f by (auto split: if_splits option.splits)
  assume "r = Some bs"
  then have "res = push_bit shift a" "x = Some bs" "length bs = n * 2 ^ shift"
    using code by (auto simp: push_bit_eq_mult split: if_splits option.splits)
  then show "bs = map (fbytes d) [unat a * 2 ^ shift..<(unat a + n) * 2 ^ shift]"
    using read_data [of d1 _ d2 bs] r seek_pos [of d "push_bit shift a" d1] s f(1) off by (simp add: add_mult_distrib)
qed

lemma hf_write_media:
  assumes "shift < 16" "unat a + n \<le> 2 ^ 32" "length bs = n * 2 ^ shift" "hf_sector_write P shift d a bs n = (d', ok)"
  shows "ok \<Longrightarrow> fbytes d' = overwrite (unat a * 2 ^ shift) bs (fbytes d)"
    "k < unat a * 2 ^ shift \<or> unat a * 2 ^ shift + length bs \<le> k \<Longrightarrow> fbytes d' k = fbytes d k"
proof -
  have off: "unat (push_bit shift a) = unat a * 2 ^ shift" using assms(1,2) by (intro sector_offset) simp_all
  have n: "take (push_bit shift n) (bs @ replicate (push_bit shift n) 0) = bs" "push_bit shift n = length bs"
    using assms(3) by (simp_all add: push_bit_eq_mult)
  obtain d1 res where s: "px_seek P d (push_bit shift a) = (d1, res)" by (cases "px_seek P d (push_bit shift a)")
  obtain d2 x where w: "px_write P d1 bs = (d2, x)" by (cases "px_write P d1 bs")
  have code: "(if res \<noteq> push_bit shift a then (d1, False) else (d2, x = Some (length bs))) = (d', ok)"
    using assms(4) by (simp only: hf_sector_write_def Let_def s prod.case n(1) w) (simp only: n(2))
  note f = seek_frame [OF s]
  show "fbytes d' = overwrite (unat a * 2 ^ shift) bs (fbytes d)" if ok
    using code that w write_data [of d1 bs d2 "length bs"] seek_pos [of d "push_bit shift a" d1] s f off
    by (auto split: if_splits)
  show "fbytes d' k = fbytes d k" if k: "k < unat a * 2 ^ shift \<or> unat a * 2 ^ shift + length bs \<le> k"
  proof (cases "res = push_bit shift a")
    case False
    then show ?thesis using code f by simp
  next
    case True
    then have p: "fpos d1 = unat a * 2 ^ shift" and d': "d' = d2"
      using code seek_pos [of d "push_bit shift a" d1] s off by (auto split: if_splits)
    show ?thesis
    proof (cases x)
      case None
      then show ?thesis using write_fail [of d1 bs d2 k] w k p f d' by simp
    next
      case (Some c)
      then show ?thesis using write_data [of d1 bs d2 c] w k p f d' by (auto simp: overwrite_def)
    qed
  qed
qed

lemma hf_erase_media:
  assumes "shift < 16" "unat a + n \<le> 2 ^ 32" "hf_sector_erase_range P shift d a n = (d', ok)"
  shows "fbytes d' = (if ok then overwrite (unat a * 2 ^ shift) (replicate (n * 2 ^ shift) 0) (fbytes d) else fbytes d)"
proof -
  have n: "unat (of_nat n :: u64) = n" using assms(2) by (intro unat_of_nat_u64) simp
  have "unat (push_bit shift a) = unat a * 2 ^ shift" "unat (push_bit shift (of_nat n :: u64)) = n * 2 ^ shift"
    using assms(1,2) n sector_offset [of shift "of_nat n"] by (simp_all add: sector_offset)
  then show ?thesis
    using punch_data [of d "push_bit shift a" "push_bit shift (of_nat n)" d'] assms(3)
      punch_fail [of d "push_bit shift a" "push_bit shift (of_nat n)" d']
    by (cases ok) (simp_all add: hf_sector_erase_range_def zeroSparse_def)
qed

lemma hostfile_media:
  assumes "shift < 16"
  shows "raw_media (hostfile_ops P shift) (2 ^ shift) (file_media fbytes shift)"
proof (unfold_locales, goal_cases)
  case (1 d s)
  show ?case by simp
next
  case (2 d a n d' r)
  then show ?case using hf_read_media(1) [OF assms, of a n d d' r]
    by (auto simp: hostfile_ops_def file_media_def fun_eq_iff)
next
  case (3 d a n d' bs)
  then have "bs = map (fbytes d) [unat a * 2 ^ shift..<(unat a + n) * 2 ^ shift]"
    using hf_read_media(2) [OF assms, of a n d d' "Some bs"] by (simp add: hostfile_ops_def)
  then show ?case by (simp only: content_concat [OF length_file_media] content_file_media)
next
  case (4 d a bs n d' ok s)
  have w: "hf_sector_write P shift d a bs n = (d', ok)" using 4(1) by (simp add: hostfile_ops_def)
  have "fbytes d' k = fbytes d k" if "s * 2 ^ shift \<le> k" "k < s * 2 ^ shift + 2 ^ shift" for k
    using sectors_apart [OF 4(4) that] by (intro hf_write_media(2) [OF assms 4(3,2) w]) (simp add: 4(2))
  then show ?case by (rule file_media_frame)
next
  case (5 d a bs n d' k)
  have "hf_sector_write P shift d a bs n = (d', True)" using 5(1) by (simp add: hostfile_ops_def)
  then have w: "fbytes d' = overwrite (unat a * 2 ^ shift) bs (fbytes d)"
    using hf_write_media(1) [OF assms 5(3,2)] by blast
  have "(k + 1) * 2 ^ shift \<le> n * 2 ^ shift" using 5(4) by (intro mult_le_mono1) simp
  then have "k * 2 ^ shift + 2 ^ shift \<le> length bs" using 5(2) by simp
  then show ?case
    by (intro nth_equalityI) (auto simp: file_media_def w overwrite_def add_mult_distrib min_def)
next
  case (6 d a n d' ok s)
  have e: "hf_sector_erase_range P shift d a n = (d', ok)" using 6(1) by (simp add: hostfile_ops_def)
  have "fbytes d' k = fbytes d k" if "s * 2 ^ shift \<le> k" "k < s * 2 ^ shift + 2 ^ shift" for k
    using hf_erase_media [OF assms 6(2) e] 6(3) sectors_apart [OF _ that, of "unat a" n]
    by (auto simp: overwrite_def)
  then show ?case by (rule file_media_frame)
next
  case (7 d a n d' s)
  have e: "hf_sector_erase_range P shift d a n = (d', True)" using 7(1) by (simp add: hostfile_ops_def)
  have "unat a * 2 ^ shift \<le> s * 2 ^ shift" "(s + 1) * 2 ^ shift \<le> (unat a + n) * 2 ^ shift"
    using mult_le_mono1 [OF 7(3), of "2 ^ shift"] mult_le_mono1 [of "s + 1" "unat a + n" "2 ^ shift"] 7(4) by simp_all
  then have "unat a * 2 ^ shift \<le> s * 2 ^ shift + i" "i < 2 ^ shift \<Longrightarrow> s * 2 ^ shift + i < unat a * 2 ^ shift + n * 2 ^ shift"
    "i < 2 ^ shift \<Longrightarrow> s * 2 ^ shift + i - unat a * 2 ^ shift < n * 2 ^ shift"
    for i unfolding add_mult_distrib by linarith+
  then show ?case using hf_erase_media [OF assms 7(2) e]
    by (intro nth_equalityI) (simp_all add: file_media_def overwrite_def)
next
  case (8 d d' ok)
  then show ?case by (simp add: hostfile_ops_def)
qed

end

section \<open>Construction\<close>

lemma hf_setup_initial:
  assumes "size_bits_law L" "sh < 16" "dss = 2 ^ sh"
  shows "hf_setup P L mem (bd_initial L dss d) sz = (bd_initial L dss d)
     \<lparr>buffers := Some (bufferlist_new L mem (2 ^ sh) 4), sectorCount := drop_bit sh (sz - sz mod 2 ^ sh)\<rparr>"
    "geometry_ok (2 ^ sh) (bd_initial L dss d)"
proof -
  have u: "unat dss = 2 ^ sh" using assms(2,3) by (simp add: unat_pow2)
  have "getSizeBits L (2 ^ sh) = sh" using assms(1,2) by (simp add: size_bits_law_def)
  then have s: "unat (of_nat (getSizeBits L (2 ^ sh)) :: u8) = sh" using assms(2) by (simp add: unat_of_nat_word)
  show "hf_setup P L mem (bd_initial L dss d) sz = (bd_initial L dss d)
     \<lparr>buffers := Some (bufferlist_new L mem (2 ^ sh) 4), sectorCount := drop_bit sh (sz - sz mod 2 ^ sh)\<rparr>"
    using assms(2) u by (simp add: hf_setup_def bd_initial_def allocateBuffers_def flushBuffers_def Let_def s assms(3) ucast_pow2)
  show "geometry_ok (2 ^ sh) (bd_initial L dss d)"
    using assms(2) u s by (simp add: geometry_ok_def bd_initial_def)
qed

section \<open>A concrete operating system\<close>

text \<open>One open file; \<open>os_faults\<close> says which of the coming writes fail, after writing half of the
  data.\<close>

record ref_os =
  os_data :: "u8 list"
  os_pos :: nat
  os_faults :: "bool list"

definition ref_bytes :: "ref_os \<Rightarrow> nat \<Rightarrow> u8" where
  "ref_bytes d k = (if k < length (os_data d) then os_data d ! k else 0)"

definition ref_put :: "nat \<Rightarrow> u8 list \<Rightarrow> u8 list \<Rightarrow> u8 list" where
  "ref_put a bs xs = patch a bs (xs @ replicate (a + length bs - length xs) 0)"

definition ref_write :: "ref_os \<Rightarrow> u8 list \<Rightarrow> ref_os \<times> nat option" where
  "ref_write d bs =
     (let faulty = (os_faults d \<noteq> [] \<and> hd (os_faults d));
          c = (if faulty then length bs div 2 else length bs)
      in (\<lparr>os_data = ref_put (os_pos d) (take c bs) (os_data d), os_pos = os_pos d + c, os_faults = tl (os_faults d)\<rparr>,
          Some c))"

definition ref_posix :: "ref_os posix" where
  "ref_posix =
     \<lparr>px_open = (\<lambda>d fn create. (d, True)), px_close = (\<lambda>d. d), px_unlink = (\<lambda>d fn. d\<lparr>os_data := []\<rparr>),
      px_seek = (\<lambda>d off. (d\<lparr>os_pos := unat off\<rparr>, off)),
      px_seek_end = (\<lambda>d. (d\<lparr>os_pos := length (os_data d)\<rparr>, Some (of_nat (length (os_data d))))),
      px_read = (\<lambda>d n. let bs = seg (os_pos d) n (os_data d) in (d\<lparr>os_pos := os_pos d + length bs\<rparr>, Some bs)),
      px_write = ref_write,
      px_punch = (\<lambda>d off len. (d\<lparr>os_data := map (\<lambda>k. if unat off \<le> k \<and> k < unat off + unat len then 0
        else os_data d ! k) [0..<length (os_data d)]\<rparr>, True)),
      px_ftruncate = (\<lambda>d n. (d\<lparr>os_data := take (unat n) (os_data d @ replicate (unat n) 0)\<rparr>, True))\<rparr>"

lemma ref_put_bytes:
  "ref_bytes (d\<lparr>os_data := ref_put a bs (os_data d), os_pos := p, os_faults := f\<rparr>) = overwrite a bs (ref_bytes d)"
proof
  fix k
  let ?xs = "os_data d @ replicate (a + length bs - length (os_data d)) 0"
  have len: "a + length bs \<le> length ?xs" by simp
  have "ref_put a bs (os_data d) ! k = (if a \<le> k \<and> k < a + length bs then bs ! (k - a) else ?xs ! k)"
    if "k < length ?xs" using nth_patch [OF len that] by (simp only: ref_put_def)
  then show "ref_bytes (d\<lparr>os_data := ref_put a bs (os_data d), os_pos := p, os_faults := f\<rparr>) k
      = overwrite a bs (ref_bytes d) k"
    using length_patch [OF len] by (auto simp: ref_bytes_def overwrite_def nth_append ref_put_def)
qed

interpretation ref_file: posix_file ref_posix ref_bytes os_pos
proof (unfold_locales, goal_cases)
  case (5 d n d' bs)
  then have "bs = seg (os_pos d) n (os_data d)" by (auto simp: ref_posix_def Let_def)
  then show ?case by (intro nth_equalityI) (auto simp: ref_bytes_def)
next
  case (6 d bs d' c)
  then have c: "c \<le> length bs" "d' = \<lparr>os_data = ref_put (os_pos d) (take c bs) (os_data d), os_pos = os_pos d + c,
      os_faults = tl (os_faults d)\<rparr>"
    by (auto simp: ref_posix_def ref_write_def Let_def)
  then have "d' = d\<lparr>os_data := ref_put (os_pos d) (take c bs) (os_data d), os_pos := os_pos d + c,
      os_faults := tl (os_faults d)\<rparr>" by simp
  then show ?case using c(1) by (simp only: ref_put_bytes)
next
  case (10 d n d' k)
  then show ?case by (auto simp: ref_posix_def ref_bytes_def nth_append)
qed (auto simp: ref_posix_def ref_bytes_def ref_write_def Let_def fun_eq_iff overwrite_def)

interpretation ref_media: raw_media "hostfile_ops ref_posix 9" 512 "file_media ref_bytes 9"
  using ref_file.hostfile_media [of 9] by simp

text \<open>A sparse file that is never full and whose system calls never fail.\<close>

record sparse_os =
  so_bytes :: "nat \<Rightarrow> u8"
  so_pos :: nat
  so_size :: nat

definition sparse_posix :: "sparse_os posix" where
  "sparse_posix =
     \<lparr>px_open = (\<lambda>d fn create. (d, True)), px_close = (\<lambda>d. d), px_unlink = (\<lambda>d fn. d),
      px_seek = (\<lambda>d off. (d\<lparr>so_pos := unat off\<rparr>, off)), px_seek_end = (\<lambda>d. (d\<lparr>so_pos := so_size d\<rparr>, Some (of_nat (so_size d)))),
      px_read = (\<lambda>d n. (d\<lparr>so_pos := so_pos d + n\<rparr>, Some (map (so_bytes d) [so_pos d..<so_pos d + n]))),
      px_write = (\<lambda>d bs. (\<lparr>so_bytes = overwrite (so_pos d) bs (so_bytes d), so_pos = so_pos d + length bs,
          so_size = max (so_size d) (so_pos d + length bs)\<rparr>,
        Some (length bs))),
      px_punch = (\<lambda>d off len. (d\<lparr>so_bytes := overwrite (unat off) (replicate (unat len) 0) (so_bytes d)\<rparr>, True)),
      px_ftruncate = (\<lambda>d n. (d\<lparr>so_bytes := (\<lambda>k. if k < unat n then so_bytes d k else 0), so_size := unat n\<rparr>, True))\<rparr>"

interpretation sparse_file: posix_file sparse_posix so_bytes so_pos
  by unfold_locales (auto simp: sparse_posix_def)

interpretation sparse_store: posix_store sparse_posix so_bytes so_pos "''demo.img''"
  by unfold_locales (auto simp: sparse_posix_def)

end
