(* ===== verification/DeviceProps.thy ===== *)
theory DeviceProps
  imports HostFile
begin

text \<open>
  The correctness of block devices. The properties speak of any derived class that meets
  the contract \<open>raw_media\<close>; the last ones show that \<^verbatim>\<open>HostFileDevice\<close> does, and what its constructors
  build. Their witnesses run on a file of the concrete operating system of \<open>HostFile\<close>, with sectors
  of two bytes.
\<close>

section \<open>Transfers succeed when the medium does\<close>

definition reliable :: "'d raw_ops \<Rightarrow> bool" where
  "reliable ops \<longleftrightarrow> (\<forall>d a. snd (raw_sector_read ops d a 1) \<noteq> None) \<and> (\<forall>d a bs. snd (raw_sector_write ops d a bs 1)) \<and>
     (\<forall>d. snd (raw_sync ops d))"

lemma reliable_read: "reliable ops \<Longrightarrow> \<exists>d' bs. raw_sector_read ops d a 1 = (d', Some bs)"
  unfolding reliable_def by (metis not_Some_eq prod.collapse)

lemma flushBuffer_reliable: "reliable ops \<Longrightarrow> flushBuffer ops d b = (d', b', ok) \<Longrightarrow> ok"
  unfolding reliable_def flushBuffer_def
  by (auto split: if_splits prod.splits bool.splits) (metis snd_conv)

lemma read_chunk_reliable:
  assumes "reliable ops"
  shows "snd (read_chunk ops dev bufs sector off n) \<noteq> None"
proof -
  obtain d1 b1 ok where f: "flushBuffer ops (raw dev) (bufs ! buffer_index bufs sector) = (d1, b1, ok)"
    by (cases "flushBuffer ops (raw dev) (bufs ! buffer_index bufs sector)")
  obtain d2 bs where "raw_sector_read ops d1 sector 1 = (d2, Some bs)"
    using reliable_read [OF assms] by blast
  then show ?thesis using f flushBuffer_reliable [OF assms f] by (simp add: read_chunk_def Let_def)
qed

lemma write_chunk_reliable:
  assumes "reliable ops"
  shows "snd (write_chunk ops dev bufs sector off src)"
proof -
  obtain d1 b1 ok where f: "flushBuffer ops (raw dev) (bufs ! buffer_index bufs sector) = (d1, b1, ok)"
    by (cases "flushBuffer ops (raw dev) (bufs ! buffer_index bufs sector)")
  obtain d2 bs where "raw_sector_read ops d1 sector 1 = (d2, Some bs)"
    using reliable_read [OF assms] by blast
  then show ?thesis using f flushBuffer_reliable [OF assms f] by (simp add: write_chunk_def Let_def)
qed

lemma chunk_pos:
  assumes "0 < unat (sectorSize dev)" "unat (offset :: u32) < unat (sectorSize dev)"
  shows "0 < unat (ucast (sectorSize dev) - offset :: u32)"
  using assms by (simp add: unat_sub word_le_nat_alt unat_ucast_up)

lemma read_chunk_kept:
  "buffers dev = Some bufs \<Longrightarrow> read_chunk ops dev bufs sector off n = (dev', r) \<Longrightarrow>
     sectorSize dev' = sectorSize dev \<and> (\<exists>bufs'. buffers dev' = Some bufs')"
  by (auto simp: read_chunk_def Let_def split: if_splits prod.splits bool.splits option.splits)

lemma write_chunk_kept:
  "buffers dev = Some bufs \<Longrightarrow> write_chunk ops dev bufs sector off src = (dev', r) \<Longrightarrow>
     sectorSize dev' = sectorSize dev \<and> (\<exists>bufs'. buffers dev' = Some bufs')"
  by (auto simp: write_chunk_def Let_def split: if_splits prod.splits bool.splits option.splits)

lemma read_loop_reliable:
  assumes "reliable ops" "buffers dev = Some bufs" "unat offset < unat (sectorSize dev)"
  shows "snd (read_loop ops dev bufs sector offset sz) \<noteq> None"
  using assms(2,3)
proof (induction sz arbitrary: dev bufs sector offset rule: less_induct)
  case (less sz)
  show ?case
  proof (cases "sz = 0")
    case True
    then show ?thesis by simp
  next
    case False
    define c where "c = min sz (unat (ucast (sectorSize dev) - offset :: u32))"
    have c: "c \<noteq> 0" using False chunk_pos [of dev offset] less.prems(2) by (simp add: c_def)
    obtain dev1 bs where rc: "read_chunk ops dev bufs sector (unat offset) c = (dev1, Some bs)"
      using read_chunk_reliable [OF assms(1), of dev bufs sector "unat offset" c]
      by (cases "read_chunk ops dev bufs sector (unat offset) c") auto
    obtain bufs1 where b1: "buffers dev1 = Some bufs1" "sectorSize dev1 = sectorSize dev"
      using read_chunk_kept [OF less.prems(1) rc] by auto
    have "snd (read_loop ops dev1 bufs1 (sector + 1) 0 (sz - c)) \<noteq> None"
      using less.IH [of "sz - c" dev1 bufs1 0 "sector + 1"] b1 c False less.prems(2) by simp
    then show ?thesis
      using False c b1 rc
      by (auto simp: read_loop.simps [of ops dev bufs sector offset sz] Let_def simp flip: c_def
          split: prod.splits option.splits)
  qed
qed

lemma write_loop_reliable:
  assumes "reliable ops" "buffers dev = Some bufs" "unat offset < unat (sectorSize dev)"
  shows "snd (write_loop ops dev bufs sector offset src)"
  using assms(2,3)
proof (induction "length src" arbitrary: dev bufs sector offset src rule: less_induct)
  case less
  show ?case
  proof (cases "src = []")
    case True
    then show ?thesis by simp
  next
    case False
    define c where "c = min (length src) (unat (ucast (sectorSize dev) - offset :: u32))"
    have c: "c \<noteq> 0" using False chunk_pos [of dev offset] less.prems(2) by (simp add: c_def)
    obtain dev1 where wc: "write_chunk ops dev bufs sector (unat offset) (take c src) = (dev1, True)"
      using write_chunk_reliable [OF assms(1), of dev bufs sector "unat offset" "take c src"]
      by (cases "write_chunk ops dev bufs sector (unat offset) (take c src)") auto
    obtain bufs1 where b1: "buffers dev1 = Some bufs1" "sectorSize dev1 = sectorSize dev"
      using write_chunk_kept [OF less.prems(1) wc] by auto
    have "snd (write_loop ops dev1 bufs1 (sector + 1) 0 (drop c src))"
      using less.hyps [of "drop c src" dev1 bufs1 0 "sector + 1"] b1 c False less.prems(2) by simp
    then show ?thesis
      using False c b1 wc by (simp add: write_loop.simps [of ops dev bufs sector offset src] Let_def flip: c_def)
  qed
qed

lemma flush_all_reliable: "reliable ops \<Longrightarrow> flush_all ops d bufs = (d', bufs', ok) \<Longrightarrow> ok"
proof (induction bufs arbitrary: d d' bufs' ok)
  case (Cons b bs)
  obtain d1 b1 ok1 where "flushBuffer ops d b = (d1, b1, ok1)" by (cases "flushBuffer ops d b")
  moreover obtain d2 bs2 ok2 where "flush_all ops d1 bs = (d2, bs2, ok2)" by (cases "flush_all ops d1 bs")
  ultimately show ?case using Cons flushBuffer_reliable [of ops d b] by fastforce
qed simp

lemma transfers_reliable:
  assumes "reliable ops" "geometry_ok ss dev" "buffers dev = Some bufs"
  shows "snd (bd_read ops dev address sz) \<noteq> None" "snd (bd_write ops dev address src)"
proof -
  have "unat (sectorSize dev) = ss" using assms(2) by (auto simp: geometry_ok_def)
  then have off: "unat (ucast (address AND (ucast (sectorSize dev) - 1) :: u64) :: u32) < unat (sectorSize dev)"
    using geometryD [OF assms(2), of address] geometry_pos [OF assms(2)] by (metis mod_less_divisor)
  show "snd (bd_read ops dev address sz) \<noteq> None" "snd (bd_write ops dev address src)"
    using read_loop_reliable [OF assms(1,3) off] write_loop_reliable [OF assms(1,3) off] assms(3)
    by (simp_all add: bd_read_def bd_write_def)
qed

lemma bd_sync_reliable:
  assumes "reliable ops"
  shows "snd (bd_sync ops dev)"
proof -
  obtain dev1 ok where f: "flushBuffers ops dev = (dev1, ok)" by (cases "flushBuffers ops dev")
  then have ok using flush_all_reliable [OF assms]
    by (auto simp: flushBuffers_def split: option.splits prod.splits)
  moreover obtain d ok2 where "raw_sync ops (raw dev1) = (d, ok2)" by (cases "raw_sync ops (raw dev1)")
  moreover from this have ok2 using assms by (metis reliable_def snd_conv)
  ultimately show ?thesis using f by (simp add: bd_sync_def)
qed

text \<open>A device with buffers in a coherent state stays one.\<close>

definition ready :: "('d \<Rightarrow> nat \<Rightarrow> u8 list) \<Rightarrow> nat \<Rightarrow> 'd block_device \<Rightarrow> bool" where
  "ready media ss dev \<longleftrightarrow> bd_ok media ss dev \<and> buffers dev \<noteq> None"

lemma ready_write:
  assumes "raw_media ops ss media" "reliable ops" "ready media ss dev" "unat address + length src \<le> cache_limit ss"
  shows "\<exists>dev'. bd_write ops dev address src = (dev', True) \<and> ready media ss dev'"
proof -
  obtain bufs where b: "buffers dev = Some bufs" and ok: "bd_ok media ss dev" using assms(3) by (auto simp: ready_def)
  have g: "geometry_ok ss dev" using ok by (simp add: bd_ok_def)
  have "snd (bd_write ops dev address src)" by (rule transfers_reliable [OF assms(2) g b])
  then obtain dev' where w: "bd_write ops dev address src = (dev', True)" by (cases "bd_write ops dev address src") auto
  have "bd_ok media ss dev' \<and> same_shape dev dev'" using raw_media.bd_write_ok [OF assms(1) ok assms(4) w] by simp
  then show ?thesis using w same_shape_Some [OF _ b] by (auto simp: ready_def)
qed

lemma ready_sync:
  assumes "raw_media ops ss media" "reliable ops" "ready media ss dev"
  shows "\<exists>dev'. bd_sync ops dev = (dev', True) \<and> ready media ss dev'"
proof -
  obtain bufs where b: "buffers dev = Some bufs" and ok: "bd_ok media ss dev" using assms(3) by (auto simp: ready_def)
  obtain dev' where s: "bd_sync ops dev = (dev', True)"
    using bd_sync_reliable [OF assms(2), of dev] by (cases "bd_sync ops dev") auto
  have "bd_ok media ss dev' \<and> same_shape dev dev'" using raw_media.bd_sync_ok [OF assms(1) ok s] by simp
  then show ?thesis using s same_shape_Some [OF _ b] by (auto simp: ready_def)
qed

section \<open>A sector number of more than 32 bits\<close>

lemma snd_True: "snd p \<Longrightarrow> p = (fst p, True)"
  by (cases p) simp

lemma large_sector_misses:
  assumes "2 ^ 32 \<le> unat (sector :: u64)"
  shows "ucast (bsector b) \<noteq> sector"
proof
  assume "ucast (bsector b) = sector"
  then have "unat sector = unat (bsector b)" by (auto simp: unat_ucast_up)
  moreover have "unat (bsector b) < 2 ^ LENGTH(32)" by (rule unsigned_less)
  ultimately show False using assms by simp
qed

section \<open>Constructed devices\<close>

lemma rounded_size:
  fixes sz :: u64
  assumes "sh < 16"
  shows "unat (drop_bit sh (sz - sz mod 2 ^ sh)) = unat sz div 2 ^ sh"
    "unat (push_bit sh (drop_bit sh (sz - sz mod 2 ^ sh))) = unat sz div 2 ^ sh * 2 ^ sh"
proof -
  have m: "unat (sz mod 2 ^ sh) = unat sz mod 2 ^ sh" using assms by (simp add: unat_mod unat_pow2)
  have "sz mod 2 ^ sh \<le> sz" by (simp add: word_le_nat_alt m)
  then have r: "unat (sz - sz mod 2 ^ sh) = unat sz div 2 ^ sh * 2 ^ sh"
    by (rule trans [OF unat_sub]) (simp only: m minus_mod_eq_div_mult)
  have "unat (drop_bit sh (sz - sz mod 2 ^ sh)) = unat (sz - sz mod 2 ^ sh) div 2 ^ sh"
    by (rule trans [OF unat_drop_bit_eq drop_bit_eq_div])
  then show "unat (drop_bit sh (sz - sz mod 2 ^ sh)) = unat sz div 2 ^ sh" by (simp add: r)
  show "unat (push_bit sh (drop_bit sh (sz - sz mod 2 ^ sh))) = unat sz div 2 ^ sh * 2 ^ sh"
    using unat_push_drop [of sh "sz - sz mod 2 ^ sh"] by (simp add: r)
qed

lemma fresh_device:
  assumes "size_bits_law L" "sh < 16" "dss = 2 ^ sh" "dev = hf_setup P L mem (bd_initial L dss d) sz"
  shows "raw dev = d" "bd_ok (file_media fbytes sh) (2 ^ sh) (dev\<lparr>raw := d'\<rparr>)"
    "bd_view (file_media fbytes sh) (dev\<lparr>raw := d'\<rparr>) = file_media fbytes sh d'"
    "map_option length (buffers dev) = Some 4"
    "unat (sectorCount dev) = unat sz div 2 ^ sh" "unat (getSize dev) = unat sz div 2 ^ sh * 2 ^ sh"
proof -
  note b = bufferlist_new_ok [OF assms(1) _ refl, of 2, simplified]
  note s = hf_setup_initial(1) [OF assms(1-3)] hf_setup_initial(2) [OF assms(1-3), of d]
  have sh: "unat (sectorSizeShift (bd_initial L dss d)) = sh"
    using s(2) by (auto simp: geometry_ok_def power_inject_exp)
  show "raw dev = d" "map_option length (buffers dev) = Some 4"
    "bd_ok (file_media fbytes sh) (2 ^ sh) (dev\<lparr>raw := d'\<rparr>)"
    "bd_view (file_media fbytes sh) (dev\<lparr>raw := d'\<rparr>) = file_media fbytes sh d'"
    using s(2) b by (simp_all add: assms(4) s(1) bd_ok_def bd_view_def geometry_ok_def) (simp add: bd_initial_def)
  show "unat (sectorCount dev) = unat sz div 2 ^ sh" "unat (getSize dev) = unat sz div 2 ^ sh * 2 ^ sh"
    using rounded_size [OF assms(2), of sz] sh by (simp_all add: assms(4) s(1) getSize_def)
qed

lemma created_device:
  assumes "posix_file P fbytes fpos" "size_bits_law L" "sh < 16" "dss = 2 ^ sh"
    and "px_open P d filename True = (d1, opened)"
    and "hostfile_create P L dss mem name filename sz d = hf" "hf_open hf"
  shows "bd_ok (file_media fbytes sh) (2 ^ sh) (hf_dev hf)" "map_option length (buffers (hf_dev hf)) = Some 4"
    "unat (sectorCount (hf_dev hf)) = unat sz div 2 ^ sh"
    "unat (getSize (hf_dev hf)) = unat sz div 2 ^ sh * 2 ^ sh"
    "bd_content (file_media fbytes sh) (2 ^ sh) (hf_dev hf) k
       = (if k < unat sz div 2 ^ sh * 2 ^ sh then fbytes d1 k else 0)"
proof -
  define dev where "dev = hf_setup P L mem (bd_initial L dss d1) sz"
  note fr = fresh_device [OF assms(2-4) dev_def]
  have op: opened using assms(5-7) by (auto simp: hostfile_create_def split: bool.splits)
  obtain d2 ok where t: "px_ftruncate P d1 (getSize dev) = (d2, ok)" by (cases "px_ftruncate P d1 (getSize dev)")
  have hf: "ok" "hf_dev hf = dev\<lparr>raw := d2\<rparr>"
    using assms(5-7) op t fr(1) by (auto simp: hostfile_create_def Let_def simp flip: dev_def split: bool.splits)
  show "bd_ok (file_media fbytes sh) (2 ^ sh) (hf_dev hf)" "map_option length (buffers (hf_dev hf)) = Some 4"
    "unat (sectorCount (hf_dev hf)) = unat sz div 2 ^ sh"
    "unat (getSize (hf_dev hf)) = unat sz div 2 ^ sh * 2 ^ sh"
    using fr by (simp_all add: hf(2) getSize_def)
  show "bd_content (file_media fbytes sh) (2 ^ sh) (hf_dev hf) k
      = (if k < unat sz div 2 ^ sh * 2 ^ sh then fbytes d1 k else 0)"
    using posix_file.truncate_data [OF assms(1), of d1 "getSize dev" d2 k] t hf(1) fr(3,6)
    by (simp add: hf(2) bd_content_def content_file_media)
qed

text \<open>A device on a file that exists.\<close>

lemma existing_device:
  assumes "posix_store P fbytes fpos fname" "size_bits_law L" "sh < 16" "dss = 2 ^ sh"
    and "hostfile_existing P L dss mem name fname d = hf" "hf_open hf"
  shows "bd_ok (file_media fbytes sh) (2 ^ sh) (hf_dev hf)" "map_option length (buffers (hf_dev hf)) = Some 4"
    "bd_content (file_media fbytes sh) (2 ^ sh) (hf_dev hf) = fbytes d"
proof -
  have pf: "posix_file P fbytes fpos" using assms(1) by (simp add: posix_store_def)
  obtain d1 where o: "px_open P d fname False = (d1, True)"
    using assms(5,6) by (auto simp: hostfile_existing_def split: prod.splits bool.splits)
  obtain d2 e where se: "px_seek_end P d1 = (d2, e)" by (cases "px_seek_end P d1")
  define dev where "dev = hf_setup P L mem (bd_initial L dss d2) (case e of None \<Rightarrow> 0 | Some n \<Rightarrow> n)"
  note fr = fresh_device [OF assms(2-4) dev_def]
  have hf: "hf_dev hf = dev\<lparr>raw := d2\<rparr>" using assms(5) o se fr(1) by (cases dev) (auto simp: hostfile_existing_def simp flip: dev_def)
  show "bd_ok (file_media fbytes sh) (2 ^ sh) (hf_dev hf)" "map_option length (buffers (hf_dev hf)) = Some 4"
    using fr by (simp_all add: hf)
  have "fbytes d2 = fbytes d"
    using posix_file.seek_end_frame [OF pf se] posix_store.open_frame [OF assms(1) o] by simp
  then show "bd_content (file_media fbytes sh) (2 ^ sh) (hf_dev hf) = fbytes d"
    using fr(3) by (simp add: hf bd_content_def content_file_media)
qed

text \<open>What was synchronised is there again after the file was closed and opened.\<close>

lemma reopened_device:
  assumes "posix_store P fbytes fpos fname" "size_bits_law L" "sh < 16" "dss = 2 ^ sh"
    and "content (2 ^ sh) (file_media fbytes sh (raw (hf_dev hf))) = c"
    and "hostfile_existing P L dss mem name fname (hostfile_destroy P hf) = hf'" "hf_open hf'"
  shows "bd_ok (file_media fbytes sh) (2 ^ sh) (hf_dev hf')" "map_option length (buffers (hf_dev hf')) = Some 4"
    "bd_content (file_media fbytes sh) (2 ^ sh) (hf_dev hf') = c"
proof -
  have "fbytes (hostfile_destroy P hf) = fbytes (raw (hf_dev hf))"
    using posix_store.close_frame [OF assms(1)] by (simp add: hostfile_destroy_def)
  then show "bd_content (file_media fbytes sh) (2 ^ sh) (hf_dev hf') = c"
    using existing_device(3) [OF assms(1-4,6,7)] assms(5) by (simp add: content_file_media)
qed (rule existing_device [OF assms(1-4,6,7)])+

text \<open>The device of the witnesses: eight bytes in four sectors.\<close>

definition demo_dev :: "bool list \<Rightarrow> ref_os block_device" where
  "demo_dev faults = hf_dev (hostfile_create ref_posix sming_ref 2 (\<lambda>_. []) ''demo'' ''demo.img'' 8
     \<lparr>os_data = [11, 12, 13, 14, 15, 16, 17, 18], os_pos = 0, os_faults = faults\<rparr>)"

definition demo_ops :: "ref_os raw_ops" where
  "demo_ops = hostfile_ops ref_posix 1"

definition demo_media :: "ref_os \<Rightarrow> nat \<Rightarrow> u8 list" where
  "demo_media = file_media ref_bytes 1"

lemma demo_media: "raw_media demo_ops 2 demo_media"
  using ref_file.hostfile_media [of 1] by (simp add: demo_ops_def demo_media_def)

lemma demo_dev:
  "bd_ok demo_media 2 (demo_dev fs)" "map_option length (buffers (demo_dev fs)) = Some 4"
  "bd_content demo_media 2 (demo_dev fs) k = (if k < 8 then [11, 12, 13, 14, 15, 16, 17, 18] ! k else 0)"
proof -
  let ?hf = "hostfile_create ref_posix sming_ref 2 (\<lambda>_. []) ''demo'' ''demo.img'' 8
     \<lparr>os_data = [11, 12, 13, 14, 15, 16, 17, 18], os_pos = 0, os_faults = fs\<rparr>"
  have "hf_open ?hf" by (simp add: hostfile_create_def ref_posix_def Let_def)
  note c = created_device [OF ref_file.posix_file_axioms sming_ref_laws(1), of 1 2 _ "''demo.img''" _ _ _ _ _ ?hf, OF _ _ _ refl this]
  show "bd_ok demo_media 2 (demo_dev fs)" "map_option length (buffers (demo_dev fs)) = Some 4"
    "bd_content demo_media 2 (demo_dev fs) k = (if k < 8 then [11, 12, 13, 14, 15, 16, 17, 18] ! k else 0)"
    using c by (simp_all add: demo_dev_def demo_media_def ref_posix_def ref_bytes_def)
qed

text \<open>A larger one, in a sparse file that never fails.\<close>

definition sparse_dev :: "u64 \<Rightarrow> sparse_os block_device" where
  "sparse_dev sz = hf_dev (hostfile_create sparse_posix sming_ref 512 (\<lambda>_. []) ''demo'' ''demo.img'' sz
     \<lparr>so_bytes = (\<lambda>_. 0), so_pos = 0, so_size = 0\<rparr>)"

definition sparse_ops :: "sparse_os raw_ops" where
  "sparse_ops = hostfile_ops sparse_posix 9"

definition sparse_media :: "sparse_os \<Rightarrow> nat \<Rightarrow> u8 list" where
  "sparse_media = file_media so_bytes 9"

lemma sparse_media: "raw_media sparse_ops 512 sparse_media"
  using sparse_file.hostfile_media [of 9] by (simp add: sparse_ops_def sparse_media_def)

lemma sparse_reliable: "reliable sparse_ops"
  by (simp add: reliable_def sparse_ops_def hostfile_ops_def hf_sector_read_def hf_sector_write_def sparse_posix_def
      Let_def push_bit_eq_mult min_def)

lemma sparse_dev:
  "bd_ok sparse_media 512 (sparse_dev sz)" "unat (sectorCount (sparse_dev sz)) = unat sz div 512"
  "\<exists>bufs. buffers (sparse_dev sz) = Some bufs" "bd_content sparse_media 512 (sparse_dev sz) k = 0"
proof -
  let ?d = "\<lparr>so_bytes = (\<lambda>_. 0), so_pos = 0, so_size = 0\<rparr>"
  let ?hf = "hostfile_create sparse_posix sming_ref 512 (\<lambda>_. []) ''demo'' ''demo.img'' sz ?d"
  have hf: "hf_open ?hf" by (simp add: hostfile_create_def sparse_posix_def Let_def)
  have px: "px_open sparse_posix ?d ''demo.img'' True = (?d, True)" by (simp add: sparse_posix_def)
  have dss: "(512 :: u16) = 2 ^ 9" by simp
  note c = created_device [OF sparse_file.posix_file_axioms sming_ref_laws(1) _ dss px refl hf, simplified]
  show "bd_ok sparse_media 512 (sparse_dev sz)" "unat (sectorCount (sparse_dev sz)) = unat sz div 512"
    "\<exists>bufs. buffers (sparse_dev sz) = Some bufs" "bd_content sparse_media 512 (sparse_dev sz) k = 0"
    using c by (auto simp: sparse_dev_def sparse_media_def)
qed

lemma sparse_ready: "ready sparse_media 512 (sparse_dev sz)"
  using sparse_dev(1,3) by (auto simp: ready_def)

lemma sparse_geometry: "geometry_ok 512 (sparse_dev sz)"
  using sparse_dev(1) by (simp add: bd_ok_def)

section \<open>Properties of every block device\<close>

text \<open>C5: A read that succeeds delivers the bytes of the device at the given address, whatever is
  cached, and no read (successful or not) changes the content, the coherence of the cache or the
  shape of the device.\<close>

theorem device_read:
  assumes "raw_media ops ss media" "bd_ok media ss dev" "unat address + sz \<le> cache_limit ss"
    and "bd_read ops dev address sz = (dev', r)"
  shows "bd_ok media ss dev' \<and> bd_content media ss dev' = bd_content media ss dev \<and> same_shape dev dev' \<and>
    (\<forall>bs. r = Some bs \<longrightarrow> bs = map (bd_content media ss dev) [unat address..<unat address + sz])"
  using raw_media.bd_read_ok [OF assms(1-4)] by (simp add: bd_content_def)

theorem device_read_witness:
  "\<exists>dev' r. bd_read demo_ops (demo_dev []) 3 4 = (dev', r) \<and> (\<forall>bs. r = Some bs \<longrightarrow> bs = [14, 15, 16, 17])"
proof -
  obtain dev' r where b: "bd_read demo_ops (demo_dev []) 3 4 = (dev', r)" by (cases "bd_read demo_ops (demo_dev []) 3 4")
  show ?thesis
    using device_read [OF demo_media demo_dev(1) _ b] b
    by (simp add: cache_limit_def demo_dev(3) upt_rec)
qed

text \<open>C6: A write that succeeds replaces exactly the addressed bytes of the content; after any write,
  failed ones included, all other bytes are as before and the cache is coherent.\<close>

theorem device_write:
  assumes "raw_media ops ss media" "bd_ok media ss dev" "unat address + length src \<le> cache_limit ss"
    and "bd_write ops dev address src = (dev', ok)"
  shows "bd_ok media ss dev' \<and> same_shape dev dev' \<and>
    (ok \<longrightarrow> bd_content media ss dev' = overwrite (unat address) src (bd_content media ss dev)) \<and>
    (\<forall>k. k < unat address \<or> unat address + length src \<le> k \<longrightarrow>
      bd_content media ss dev' k = bd_content media ss dev k)"
  by (rule raw_media.bd_write_ok [OF assms])

theorem device_write_witness:
  "\<exists>dev' ok. bd_write demo_ops (demo_dev [True]) 1 [7, 8] = (dev', ok) \<and> bd_content demo_media 2 dev' 4 = 15
     \<and> (ok \<longrightarrow> bd_content demo_media 2 dev' 2 = 8)"
proof -
  obtain dev' ok where b: "bd_write demo_ops (demo_dev [True]) 1 [7, 8] = (dev', ok)"
    by (cases "bd_write demo_ops (demo_dev [True]) 1 [7, 8]")
  show ?thesis using device_write [OF demo_media demo_dev(1) _ b] b
    by (auto simp: cache_limit_def demo_dev(3) overwrite_def)
qed



text \<open>C8: \<^verbatim>\<open>sync\<close> never changes the content, and once it has succeeded the medium itself holds the
  content, so that losing the buffers loses nothing.\<close>

theorem device_sync_durable:
  assumes "raw_media ops ss media" "bd_ok media ss dev" "bd_sync ops dev = (dev', ok)"
  shows "bd_ok media ss dev' \<and> bd_content media ss dev' = bd_content media ss dev \<and>
    (ok \<longrightarrow> content ss (media (raw dev')) = bd_content media ss dev)"
  using raw_media.bd_sync_ok [OF assms] by (simp add: bd_content_def)

theorem device_sync_durable_witness:
  "\<exists>dev' ok. bd_sync demo_ops (demo_dev [True]) = (dev', ok) \<and> bd_content demo_media 2 dev' 4 = 15
     \<and> (ok \<longrightarrow> content 2 (demo_media (raw dev')) 4 = 15)"
proof -
  obtain dev' ok where b: "bd_sync demo_ops (demo_dev [True]) = (dev', ok)" by (cases "bd_sync demo_ops (demo_dev [True])")
  show ?thesis using device_sync_durable [OF demo_media demo_dev(1) b] b by (simp add: demo_dev(3))
qed

text \<open>Changing the number of buffers (to none, or to a power of two) keeps the content, whether
  the call succeeds or fails; after a success the device has that many buffers.\<close>

lemma device_rebuffer:
  assumes "raw_media ops ss media" "bd_ok media ss dev" "size_bits_law L" "n = 0 \<or> n = 2 ^ k" "k < 32"
    and "allocateBuffers L ops mem dev n = (dev', ok)"
  shows "bd_ok media ss dev' \<and> bd_content media ss dev' = bd_content media ss dev \<and>
    (ok \<longrightarrow> map_option length (buffers dev') = (if n = 0 then None else Some n))"
  using raw_media.allocateBuffers_ok [OF assms] by (simp add: bd_content_def)

text \<open>C9: With buffers, transfers of any address and size succeed as long as the medium does: no
  other condition makes \<^verbatim>\<open>read\<close> or \<^verbatim>\<open>write\<close> fail, and both loops end.\<close>

theorem device_transfers_succeed:
  assumes "reliable ops" "geometry_ok ss dev" "buffers dev = Some bufs"
  shows "snd (bd_read ops dev address sz) \<noteq> None \<and> snd (bd_write ops dev address src)"
  using transfers_reliable [OF assms] by simp

definition memory_ops :: "(nat \<Rightarrow> u8 list) raw_ops" where
  "memory_ops = \<lparr>raw_sector_read = (\<lambda>d a n. (d, Some (concat (map d [unat a..<unat a + n])))),
     raw_sector_write = (\<lambda>d a bs n. (d(unat a := bs), True)),
     raw_sector_erase_range = (\<lambda>d a n. (d, True)), raw_sync = (\<lambda>d. (d, True))\<rparr>"

theorem device_transfers_succeed_witness:
  "snd (bd_read memory_ops
     \<lparr>raw = \<lambda>_. [0, 0], buffers = Some [\<lparr>bdata = [0, 0], bsector = buffer_invalid, bdirty = False\<rparr>], sectorCount = 4,
      sectorSize = 2, sectorSizeShift = 1, stat = \<lparr>func = \<lambda>_. zero_func, sectors = \<lambda>_. None\<rparr>\<rparr> 1 5) \<noteq> None"
  using device_transfers_succeed [of memory_ops 2] by (simp add: reliable_def memory_ops_def geometry_ok_def)

text \<open>Without buffers, a transfer whose address or size is not a multiple of the sector size is refused, and the device is
  not touched.\<close>

lemma unbuffered_misaligned:
  assumes "geometry_ok ss dev" "buffers dev = None" "length src < 2 ^ 64"
    and "unat address mod ss \<noteq> 0 \<or> length src mod ss \<noteq> 0"
  shows "bd_read ops dev address (length src) = (dev, None)" "bd_write ops dev address src = (dev, False)"
  using assms by (simp_all add: bd_read_def bd_write_def check_align_iff [OF assms(1)] unat_of_nat_u64)

text \<open>C24: Buffers record the sector they hold in 32 bits, while addresses have 64. After a whole sector
  numbered \<open>2 ^ 32\<close> or above has been written, the dirty buffer that holds its data carries the number
  modulo \<open>2 ^ 32\<close>, and flushing it writes the data over that other sector.\<close>

theorem large_sector_misdirected:
  assumes "bd_ok media ss dev" "buffers dev = Some bufs" "2 ^ 32 \<le> unat sector" "length src = ss"
    and "write_chunk ops dev bufs sector 0 src = (dev', True)"
  shows "\<exists>bufs' b. buffers dev' = Some bufs' \<and> b \<in> set bufs' \<and> bdata b = src \<and> bdirty b \<and>
    unat (bsector b) = unat sector mod 2 ^ 32 \<and> unat (bsector b) \<noteq> unat sector \<and>
    flushBuffer ops d b = (case raw_sector_write ops d (ucast (bsector b)) src 1 of
      (d', ok) \<Rightarrow> (d', if ok then b\<lparr>bdirty := False\<rparr> else b, ok))"
proof -
  have c: "cache_ok (media (raw dev)) ss bufs" and ssz: "unat (sectorSize dev) = ss"
    using assms(1,2) by (auto simp: bd_ok_def geometry_ok_def)
  let ?i = "unat sector mod length bufs"
  have i: "?i < length bufs" "buffer_index bufs sector = ?i" using cache_okD [OF c] by simp_all
  have len: "length (bdata (bufs ! ?i)) = ss" using cache_okD(3) [OF c, of sector] by (simp add: entry_ok_def)
  have uc: "unat (ucast sector :: u32) = unat sector mod 2 ^ 32"
    by (simp add: unsigned_ucast_eq take_bit_eq_mod)
  have miss: "(ucast (bsector (bufs ! ?i)) = sector) = False" using large_sector_misses [OF assms(3)] by simp
  obtain d1 b1 ok where f': "flushBuffer ops (raw dev) (bufs ! ?i) = (d1, b1, ok)"
    by (cases "flushBuffer ops (raw dev) (bufs ! ?i)")
  then have ok: ok using assms(5) i(2) miss by (cases ok) (simp_all add: write_chunk_def Let_def)
  note f = f' [unfolded ok [THEN eqTrueI]]
  have b1: "length (bdata b1) = ss" using f len by (auto simp: flushBuffer_def split: prod.splits bool.splits if_splits)
  let ?b = "b1\<lparr>bsector := ucast sector, bdata := src, bdirty := True\<rparr>"
  have "buffers dev' = Some (bufs[?i := ?b])"
    using assms(4,5) miss i(2) f b1 ssz by (auto simp: write_chunk_def Let_def)
  moreover have "?b \<in> set (bufs[?i := ?b])" using i(1) by (rule set_update_memI)
  moreover have "unat sector mod 2 ^ 32 \<noteq> unat sector"
  proof -
    have "unat sector mod 2 ^ 32 < 2 ^ 32" by simp
    then show ?thesis using assms(3) by linarith
  qed
  ultimately show ?thesis
    by (intro exI [of _ "bufs[?i := ?b]"] exI [of _ ?b])
      (simp add: uc flushBuffer_def split: prod.splits bool.splits)
qed

theorem large_sector_misdirected_witness:
  "\<exists>bufs' b. buffers (fst (write_chunk memory_ops
     \<lparr>raw = \<lambda>_. [0, 0], buffers = Some [\<lparr>bdata = [0, 0], bsector = buffer_invalid, bdirty = False\<rparr>],
      sectorCount = 0x200000000, sectorSize = 2, sectorSizeShift = 1, stat = \<lparr>func = \<lambda>_. zero_func, sectors = \<lambda>_. None\<rparr>\<rparr>
     [\<lparr>bdata = [0, 0], bsector = buffer_invalid, bdirty = False\<rparr>] 0x100000007 0 [5, 6])) = Some bufs'
   \<and> b \<in> set bufs' \<and> bdata b = [5, 6] \<and> bdirty b \<and> unat (bsector b) = 7"
proof -
  let ?b = "\<lparr>bdata = [0, 0], bsector = buffer_invalid, bdirty = False\<rparr>"
  let ?dev = "\<lparr>raw = \<lambda>_. [0, 0], buffers = Some [?b], sectorCount = 0x200000000, sectorSize = 2, sectorSizeShift = 1,
     stat = \<lparr>func = \<lambda>_. zero_func, sectors = \<lambda>_. None\<rparr>\<rparr> :: (nat \<Rightarrow> u8 list) block_device"
  have ok: "bd_ok (\<lambda>d. d) 2 ?dev"
    by (simp add: bd_ok_def geometry_ok_def cache_ok_def entry_ok_def) (rule exI [of _ 0], simp)
  have "snd (write_chunk memory_ops ?dev [?b] 0x100000007 0 [5, 6])"
    by (rule write_chunk_reliable) (simp add: reliable_def memory_ops_def)
  then have "write_chunk memory_ops ?dev [?b] 0x100000007 0 [5, 6]
      = (fst (write_chunk memory_ops ?dev [?b] 0x100000007 0 [5, 6]), True)"
    by (rule snd_True)
  note w = this
  have s: "unat (0x100000007 :: u64) = 0x100000007" by simp
  have "\<exists>bufs' b. buffers (fst (write_chunk memory_ops ?dev [?b] 0x100000007 0 [5, 6])) = Some bufs' \<and> b \<in> set bufs' \<and>
     bdata b = [5, 6] \<and> bdirty b \<and> unat (bsector b) = unat (0x100000007 :: u64) mod 2 ^ 32"
    using large_sector_misdirected [OF ok _ _ _ w, of undefined] by (simp only: s) force
  then show ?thesis by (simp only: s) simp
qed

section \<open>Properties of the host file device\<close>



text \<open>C23: The constructor with a size: when the device is usable it has the size rounded down to whole
  sectors, four buffers, and the file's content up to that size followed by zeros.\<close>

theorem hostfile_created:
  assumes "posix_file P fbytes fpos" "size_bits_law L" "sh < 16" "dss = 2 ^ sh"
    and "px_open P d filename True = (d1, opened)"
    and "hostfile_create P L dss mem name filename sz d = hf" "hf_open hf"
  shows "bd_ok (file_media fbytes sh) (2 ^ sh) (hf_dev hf) \<and> map_option length (buffers (hf_dev hf)) = Some 4 \<and>
    unat (sectorCount (hf_dev hf)) = unat sz div 2 ^ sh \<and>
    unat (getSize (hf_dev hf)) = unat sz div 2 ^ sh * 2 ^ sh \<and>
    (\<forall>k. bd_content (file_media fbytes sh) (2 ^ sh) (hf_dev hf) k
       = (if k < unat sz div 2 ^ sh * 2 ^ sh then fbytes d1 k else 0))"
  using created_device [OF assms] by blast

theorem hostfile_created_witness:
  "unat (getSize (hf_dev (hostfile_create ref_posix sming_ref 512 (\<lambda>_. []) ''d'' ''f'' 1000
     \<lparr>os_data = [], os_pos = 0, os_faults = []\<rparr>))) = 512"
proof -
  let ?hf = "hostfile_create ref_posix sming_ref 512 (\<lambda>_. []) ''d'' ''f'' 1000 \<lparr>os_data = [], os_pos = 0, os_faults = []\<rparr>"
  let ?d = "\<lparr>os_data = [], os_pos = 0, os_faults = []\<rparr>"
  have hf: "hf_open ?hf" by (simp add: hostfile_create_def ref_posix_def Let_def)
  have px: "px_open ref_posix ?d ''f'' True = (?d, True)" by (simp add: ref_posix_def)
  have "unat (getSize (hf_dev ?hf)) = unat (1000 :: u64) div 2 ^ 9 * 2 ^ 9"
    by (rule hostfile_created [OF ref_file.posix_file_axioms sming_ref_laws(1) _ _ px refl hf,
          THEN conjunct2, THEN conjunct2, THEN conjunct2, THEN conjunct1]) simp_all
  then show ?thesis by simp
qed

end
