(* ===== verification/Mbr.thy ===== *)
theory Mbr
  imports DiskDefs DiskLayout ValidatePlan DeviceProps
begin

text \<open>
  \<^verbatim>\<open>MBR.h\<close> and \<^verbatim>\<open>MBR.cpp\<close>: adding entries to an MBR partition table and writing the table to a
  device. Memory for the working buffer is an argument (\<open>None\<close> when the allocation fails); the
  device's own list of partitions is the argument \<open>pt\<close>.
\<close>

section \<open>The code\<close>

text \<open>What the constructors of \<^verbatim>\<open>PartInfo\<close> set; the members of \<^verbatim>\<open>DiskPart\<close> have their defaults.\<close>

definition part_info_new :: "string \<Rightarrow> full_type \<Rightarrow> u64 \<Rightarrow> u64 \<Rightarrow> part_info" where
  "part_info_new nm ft offset sz =
     \<lparr>typeGuid = null_uuid, uniqueGuid = null_uuid, systype = SysUnknown, sysind = 0,
      p_name = nm, p_type = ft_type ft, p_subtype = ft_subtype ft, p_offset = offset, p_size = sz\<rparr>"

definition data_type :: "sming \<Rightarrow> sys_type \<Rightarrow> full_type" where
  "data_type L st = \<lparr>ft_type = Type_data L, ft_subtype = (if st \<in> fatTypes then SubType_fat L else SubType_any L)\<rparr>"

definition mbr_add :: "sming \<Rightarrow> sys_type \<Rightarrow> sys_indicator \<Rightarrow> u64 \<Rightarrow> u64 \<Rightarrow> part_info list \<Rightarrow> part_info list" where
  "mbr_add L sysTyp sysIndicator offset sz table =
     table @ [(part_info_new [] (data_type L sysTyp) offset sz)\<lparr>systype := sysTyp, sysind := sysIndicator\<rparr>]"

text \<open>The loop that chooses the number of heads; the 8-bit counter becomes 0 after 128.\<close>

definition bits_above :: "u8 \<Rightarrow> nat set" where
  "bits_above h = {i. i < 8 \<and> (\<exists>j \<le> i. bit h j)}"

lemma bits_above_double:
  assumes "h \<noteq> 0"
  shows "card (bits_above (h * 2)) < card (bits_above h)"
proof -
  have fin: "finite (bits_above h)" by (simp add: bits_above_def)
  obtain j where "bit h j" using assms by (auto simp: bit_eq_iff)
  then have "j < 8" using bit_imp_le_length by fastforce
  then have "7 \<in> bits_above h" using \<open>bit h j\<close> by (auto simp: bits_above_def intro!: exI [of _ j])
  have "bits_above (h * 2) \<subseteq> Suc ` (bits_above h - {7})"
  proof
    fix i assume i: "i \<in> bits_above (h * 2)"
    then obtain j where j: "j \<le> i" "bit (h * 2) j" "i < 8" by (auto simp: bits_above_def)
    have "bit (2 * h) j" using j(2) by (simp add: mult.commute)
    then have "1 \<le> j" "bit h (j - 1)" unfolding bit_double_iff by auto
    then have "i - 1 \<in> bits_above h - {7}" "i = Suc (i - 1)"
      using j by (auto simp: bits_above_def intro!: exI [of _ "j - 1"])
    then show "i \<in> Suc ` (bits_above h - {7})" by blast
  qed
  then have "card (bits_above (h * 2)) \<le> card (bits_above h - {7})"
    using fin by (intro surj_card_le) auto
  also have "\<dots> < card (bits_above h)" using \<open>7 \<in> bits_above h\<close> fin by (rule card_Diff1_less [rotated])
  finally show ?thesis .
qed

function numHeads_loop :: "u32 \<Rightarrow> u8 \<Rightarrow> u8" where
  "numHeads_loop nsect numHeads =
     (if numHeads \<noteq> 0 \<and> nsect div (ucast numHeads * N_SEC_TRACK) > 1024
      then numHeads_loop nsect (numHeads * 2) else numHeads)"
  by pat_completeness auto
termination
  by (relation "measure (\<lambda>(nsect, h). card (bits_above h))") (auto simp: bits_above_double)

declare numHeads_loop.simps [simp del]

definition numHeads_for :: "u32 \<Rightarrow> u8" where
  "numHeads_for nsect = (let n = numHeads_loop nsect 8 in if n = 0 then 255 else n)"

record chs =
  chs_head :: u8
  chs_sector :: u8
  chs_track :: u8

definition calc_CHS :: "u8 \<Rightarrow> u32 \<Rightarrow> chs" where
  "calc_CHS numHeads sect =
     (let tracks = sect div N_SEC_TRACK;
          sec = ucast (1 + sect mod N_SEC_TRACK) :: u8;
          cyl = tracks div ucast numHeads;
          head = ucast (tracks mod ucast numHeads) :: u8
      in \<lparr>chs_head = head, chs_sector = sec OR ucast (drop_bit 2 cyl AND 0xC0), chs_track = ucast cyl\<rparr>)"

definition mbr_entry :: "nat \<Rightarrow> u8 \<Rightarrow> part_info \<Rightarrow> gpt_mbr_record" where
  "mbr_entry shift numHeads part =
     (let sect = ucast (drop_bit shift (p_offset part)) :: u32;
          numsect = ucast (drop_bit shift (p_size part)) :: u32;
          start = calc_CHS numHeads sect;
          fin = calc_CHS numHeads (sect + numsect - 1)
      in \<lparr>boot_indicator = 0, start_head = chs_head start, start_sector = chs_sector start, start_track = chs_track start,
          os_type = sysind (diskpart part), end_head = chs_head fin, end_sector = chs_sector fin, end_track = chs_track fin,
          starting_lba = sect, size_in_lba = numsect\<rparr>)"

fun mbr_fill :: "nat \<Rightarrow> u8 \<Rightarrow> part_info list \<Rightarrow> nat \<Rightarrow> legacy_mbr \<Rightarrow> legacy_mbr" where
  "mbr_fill shift numHeads [] partIndex m = m"
| "mbr_fill shift numHeads (part # ps) partIndex m =
     mbr_fill shift numHeads ps (Suc partIndex)
       (m\<lparr>partition_record := (partition_record m)[partIndex := mbr_entry shift numHeads part]\<rparr>)"

definition mbr_image :: "nat \<Rightarrow> u8 \<Rightarrow> part_info list \<Rightarrow> u8 list \<Rightarrow> u8 list" where
  "mbr_image shift numHeads table work =
     legacy_mbr_bytes ((mbr_fill shift numHeads table 0 (legacy_mbr_of_bytes work))\<lparr>mbr_signature := MSDOS_MBR_SIGNATURE\<rparr>)
       @ drop 512 work"

definition formatDisk_mbr :: "sming \<Rightarrow> 'd raw_ops \<Rightarrow> u8 list option \<Rightarrow> 'd block_device \<Rightarrow> part_info list \<Rightarrow> part_info list
    \<Rightarrow> (('d block_device \<times> part_info list \<times> part_info list) \<times> disk_error) run option" where
  "formatDisk_mbr L ops mem dev pt table =
     (if table = [] \<or> length table > 4 then Some (Ret ((dev, pt, table), BadParam))
      else
        let sectorSz = DISK_MAX_SECTOR_SIZE;
            shift = getSizeBits L sectorSz;
            numDeviceSectors = ucast (sectorCount dev) :: u32;
            firstAllocatableSector = drop_bit shift PARTITION_ALIGN;
            allocatableSectors = numDeviceSectors - firstAllocatableSector
        in case validate L table (ucast firstAllocatableSector) (ucast allocatableSectors) (of_nat sectorSz) of
             None \<Rightarrow> None
           | Some Fault \<Rightarrow> Some Fault
           | Some (Ret (t, err)) \<Rightarrow>
               if \<not> error_not err then Some (Ret ((dev, pt, t), err))
               else
                 let workBuffer = sb_new mem sectorSz 1 in
                 (case sb_data (sb_clear workBuffer) of
                    None \<Rightarrow> Some (Ret ((dev, pt, t), NoMem))
                  | Some work \<Rightarrow>
                      (case bd_write ops dev 0 (mbr_image shift (numHeads_for numDeviceSectors) t work) of
                         (dev1, False) \<Rightarrow> Some (Ret ((dev1, pt, t), WriteFailure))
                       | (dev1, True) \<Rightarrow>
                           (case bd_sync ops dev1 of
                              (dev2, False) \<Rightarrow> Some (Ret ((dev2, pt, t), WriteFailure))
                            | (dev2, True) \<Rightarrow> Some (Ret ((dev2, t, []), Success))))))"

section \<open>CHS addresses\<close>

text \<open>The sector that a CHS triple denotes, for a given number of heads.\<close>

definition chs_to_lba :: "u8 \<Rightarrow> chs \<Rightarrow> nat" where
  "chs_to_lba numHeads c =
     (let cyl = unat (chs_track c) + 4 * unat (chs_sector c AND 0xC0);
          sec = unat (chs_sector c AND 0x3F)
      in (cyl * unat numHeads + unat (chs_head c)) * 63 + (sec - 1))"

lemma sector_byte:
  fixes low hi :: u8
  assumes "unat low < 64"
  shows "(low OR (hi AND 0xC0)) AND 0x3F = low" "(low OR (hi AND 0xC0)) AND 0xC0 = hi AND 0xC0"
proof -
  have m: "(0x3F :: u8) = mask 6" "(0xC0 :: u8) = NOT (mask 6)" by (simp_all add: mask_eq_decr_exp)
  have "take_bit 6 low = low" using assms by (simp add: word_unat_eq_iff unsigned_take_bit_eq take_bit_nat_eq_self)
  then have b: "bit low n \<Longrightarrow> n < 6" for n by (metis bit_take_bit_iff)
  show "(low OR (hi AND 0xC0)) AND 0x3F = low" "(low OR (hi AND 0xC0)) AND 0xC0 = hi AND 0xC0"
    unfolding m by (rule bit_word_eqI; auto simp: bit_simps dest: b)+
qed

lemma unat_high_cyl:
  fixes cyl :: u32
  assumes "unat cyl < 1024"
  shows "unat (ucast (drop_bit 2 cyl) AND 0xC0 :: u8) = unat cyl div 256 * 64"
    "ucast (drop_bit 2 cyl AND 0xC0) = (ucast (drop_bit 2 cyl) AND 0xC0 :: u8)"
proof -
  have m: "(0xC0 :: u8) = NOT (mask 6)" by (simp add: mask_eq_decr_exp)
  have d: "unat (drop_bit 2 cyl) = unat cyl div 2 ^ 2" by (rule trans [OF unat_drop_bit_eq drop_bit_eq_div])
  have "unat (ucast (drop_bit 2 cyl) :: u8) = unat cyl div 4"
    using assms by (simp only: unsigned_ucast_eq d) (simp add: take_bit_nat_eq_self)
  then show "unat (ucast (drop_bit 2 cyl) AND 0xC0 :: u8) = unat cyl div 256 * 64"
    by (simp only: m unat_and_not_mask) (simp add: div_mult2_eq [symmetric])
  show "ucast (drop_bit 2 cyl AND 0xC0) = (ucast (drop_bit 2 cyl) AND 0xC0 :: u8)"
    by (rule bit_word_eqI) (auto simp: bit_simps)
qed

lemma calc_CHS_parts:
  assumes "numHeads \<noteq> 0" "unat sect < 1024 * unat numHeads * 63"
  defines "c \<equiv> calc_CHS numHeads sect" and "tracks \<equiv> unat sect div 63"
  shows "unat (chs_head c) = tracks mod unat numHeads" "unat (chs_sector c AND 0x3F) = 1 + unat sect mod 63"
    "unat (chs_track c) + 4 * unat (chs_sector c AND 0xC0) = tracks div unat numHeads"
proof -
  let ?h = "unat numHeads"
  let ?cyl = "sect div 63 div ucast numHeads" 
  have h: "0 < ?h" using assms(1) by (simp add: unat_gt_0)
  have t: "unat (sect div 63) = tracks" by (simp add: tracks_def unat_div)
  have cyl: "unat ?cyl = tracks div ?h" by (simp add: unat_div t [symmetric] unat_ucast_up)
  have "tracks < 1024 * ?h"
    unfolding tracks_def using assms(2) by (simp add: less_mult_imp_div_less)
  then have small: "unat ?cyl < 1024" using h by (simp add: cyl less_mult_imp_div_less)
  have "unat (1 + sect mod 63) = 1 + unat sect mod 63"
  proof -
    have "unat (sect mod 63) = unat sect mod 63" by (simp add: unat_mod)
    moreover have "unat sect mod 63 < 4294967295" using mod_less_divisor [of 63 "unat sect"] by linarith
    ultimately show ?thesis using unat_add_lem [of 1 "sect mod 63"] by simp
  qed
  moreover have "1 + unat sect mod 63 < 64" using mod_less_divisor [of 63 "unat sect"] by linarith
  ultimately have sec: "unat (ucast (1 + sect mod 63) :: u8) = 1 + unat sect mod 63"
    by (simp add: unsigned_ucast_eq take_bit_nat_eq_self)
  then have low: "unat (ucast (1 + sect mod 63) :: u8) < 64" using \<open>1 + unat sect mod 63 < 64\<close> by simp
  note sb = sector_byte [OF low, of "ucast (drop_bit 2 ?cyl)"]
  have c: "chs_sector c = ucast (1 + sect mod 63) OR (ucast (drop_bit 2 ?cyl) AND 0xC0)"
    "chs_track c = ucast ?cyl" "chs_head c = ucast (sect div 63 mod ucast numHeads)"
    using unat_high_cyl(2) [OF small] by (simp_all add: c_def calc_CHS_def Let_def N_SEC_TRACK_def)
  have "unat (sect div 63 mod ucast numHeads) = tracks mod ?h" by (simp add: unat_mod t [symmetric] unat_ucast_up)
  moreover have "tracks mod ?h < 256"
  proof -
    have "tracks mod ?h < ?h" using h by simp
    also have "?h < 2 ^ LENGTH(8)" by (rule unsigned_less)
    finally show ?thesis by simp
  qed
  ultimately show "unat (chs_head c) = tracks mod ?h"
    by (simp only: c unsigned_ucast_eq) (simp add: take_bit_nat_eq_self)
  show "unat (chs_sector c AND 0x3F) = 1 + unat sect mod 63" by (simp only: c sb sec)
  have "unat (ucast ?cyl :: u8) = unat ?cyl mod 256" by (simp only: unsigned_ucast_eq) (simp add: take_bit_eq_mod)
  then show "unat (chs_track c) + 4 * unat (chs_sector c AND 0xC0) = tracks div ?h"
    using unat_high_cyl(1) [OF small] by (simp only: c sb) (simp add: cyl)
qed

section \<open>The image of the sector\<close>

lemma mbr_fill_records:
  "k + length ps \<le> length (partition_record m) \<Longrightarrow>
   mbr_fill shift h ps k m = m\<lparr>partition_record := take k (partition_record m) @ map (mbr_entry shift h) ps
     @ drop (k + length ps) (partition_record m)\<rparr>"
proof (induction ps arbitrary: k m)
  case Nil
  then show ?case by simp
next
  case (Cons p ps)
  let ?r = "partition_record m" and ?e = "mbr_entry shift h p"
  have k: "k < length ?r" using Cons.prems by simp
  then have "take (Suc k) (?r[k := ?e]) = take k ?r @ [?e]" "drop (Suc k + length ps) (?r[k := ?e]) = drop (Suc k + length ps) ?r"
    by (simp_all add: take_Suc_conv_app_nth)
  then show ?case using Cons.IH [of "Suc k" "m\<lparr>partition_record := ?r[k := ?e]\<rparr>"] Cons.prems by simp
qed

definition no_record :: gpt_mbr_record where
  "no_record = \<lparr>boot_indicator = 0, start_head = 0, start_sector = 0, start_track = 0, os_type = 0,
     end_head = 0, end_sector = 0, end_track = 0, starting_lba = 0, size_in_lba = 0\<rparr>"

text \<open>The sector a table of at most four partitions is written as.\<close>

definition mbr_of :: "nat \<Rightarrow> u8 \<Rightarrow> part_info list \<Rightarrow> legacy_mbr" where
  "mbr_of shift h t = \<lparr>mbr_boot_code = replicate 440 0, unique_mbr_signature = 0, mbr_unknown = 0,
     partition_record = map (mbr_entry shift h) t @ replicate (4 - length t) no_record, mbr_signature = MSDOS_MBR_SIGNATURE\<rparr>"

lemma mbr_of_wf [simp]: "length t \<le> 4 \<Longrightarrow> legacy_mbr_wf (mbr_of shift h t)"
  by (simp add: legacy_mbr_wf_def mbr_of_def)

lemma at_zeros [layout_simps]:
  "u8_at i (replicate n 0) = 0" "u16_at i (replicate n 0) = 0" "u32_at i (replicate n 0) = 0" "u64_at i (replicate n 0) = 0"
proof -
  have "le_word (replicate k 0) = (0 :: 'a::len word)" for k by (induction k) simp_all
  then show "u8_at i (replicate n 0) = 0" "u16_at i (replicate n 0) = 0" "u32_at i (replicate n 0) = 0" "u64_at i (replicate n 0) = 0"
    by (simp_all add: at_defs)
qed

lemma mbr_image_clear:
  assumes "length t \<le> 4"
  shows "mbr_image shift h t (replicate 512 0) = legacy_mbr_bytes (mbr_of shift h t)"
proof -
  have z: "legacy_mbr_of_bytes (replicate 512 0) = \<lparr>mbr_boot_code = replicate 440 0, unique_mbr_signature = 0, mbr_unknown = 0,
     partition_record = replicate 4 no_record, mbr_signature = 0\<rparr>"
    by (simp add: legacy_mbr_of_bytes_def layout_simps dec_array_def mbr_record_of_bytes_def no_record_def
        list_eq_iff_nth_eq)
  show ?thesis using assms by (simp add: mbr_image_def z mbr_fill_records mbr_of_def)
qed

section \<open>Writing the table\<close>

lemma size_parts_length: "size_parts a b c d e u t = Ret (t', r) \<Longrightarrow> length t' = length t"
  by (induction t arbitrary: u t' r) (fastforce simp: Let_def split: if_splits run.splits)+

lemma assign_offsets_length:
  assumes "assign_offsets L minOff maxOff t ptrs = Some r"
  shows "\<forall>t' p e. r = Ret ((t', p), e) \<longrightarrow> length t' = length t"
  using _ assms
proof (rule assign_offsets.raw_induct [where P = "\<lambda>L minOff maxOff t ptrs r.
    \<forall>t' p e. r = Ret ((t', p), e) \<longrightarrow> length t' = length t"])
  fix rec :: "sming \<Rightarrow> u64 \<Rightarrow> u64 \<Rightarrow> part_info list \<Rightarrow> nat list \<Rightarrow> ((part_info list \<times> nat list) \<times> disk_error) run option"
    and L minOff maxOff t ptrs r
  assume ih: "\<And>L minOff maxOff t ptrs r. rec L minOff maxOff t ptrs = Some r \<Longrightarrow>
      \<forall>t' p e. r = Ret ((t', p), e) \<longrightarrow> length t' = length t"
    and body: "(case ptrs of [] \<Rightarrow> Some Fault
      | pz # rest \<Rightarrow> if p_offset (t ! pz) \<noteq> 0 then Some (Ret ((t, ptrs), Success))
          else case find_gap t (p_size (t ! pz)) maxOff minOff rest of None \<Rightarrow> Some (Ret ((t, ptrs), NoSpace))
             | Some endOff \<Rightarrow> let t' = t[pz := (t ! pz)\<lparr>p_offset := endOff\<rparr>]
                 in rec L minOff maxOff t' (sortList L t' ptrs)) = Some r"
  show "\<forall>t' p e. r = Ret ((t', p), e) \<longrightarrow> length t' = length t"
    using body ih by (fastforce simp: Let_def split: list.splits if_splits option.splits)
qed

lemma validate_length:
  "validate L table f n b = Some (Ret (t, err)) \<Longrightarrow> length t = length table"
  by (auto simp: validate_def Let_def split: if_splits run.splits sum.splits option.splits prod.splits
      dest!: size_parts_length assign_offsets_length)

text \<open>The code with its constants evaluated: 512-byte sectors, the first 2048 of them reserved.\<close>

definition mbr_region :: "u64 \<Rightarrow> u64" where
  "mbr_region cnt = ucast (ucast cnt - 2048 :: u32)"

lemma formatDisk_mbr_steps:
  assumes "size_bits_law L" "table \<noteq> []" "length table \<le> 4"
  shows "formatDisk_mbr L ops mem dev pt table =
     (case validate L table 2048 (mbr_region (sectorCount dev)) 512 of
        None \<Rightarrow> None
      | Some Fault \<Rightarrow> Some Fault
      | Some (Ret (t, err)) \<Rightarrow>
          if err \<noteq> Success then Some (Ret ((dev, pt, t), err))
          else if mem = None then Some (Ret ((dev, pt, t), NoMem))
          else
            (case bd_write ops dev 0 (legacy_mbr_bytes (mbr_of 9 (numHeads_for (ucast (sectorCount dev))) t)) of
               (dev1, False) \<Rightarrow> Some (Ret ((dev1, pt, t), WriteFailure))
             | (dev1, True) \<Rightarrow>
                 (case bd_sync ops dev1 of
                    (dev2, False) \<Rightarrow> Some (Ret ((dev2, pt, t), WriteFailure))
                  | (dev2, True) \<Rightarrow> Some (Ret ((dev2, t, []), Success)))))"
proof -
  have s: "getSizeBits L 512 = 9"
    using assms(1) spec [of "\<lambda>k. k < 32 \<longrightarrow> getSizeBits L (2 ^ k) = k" 9] by (simp add: size_bits_law_def)
  have f: "drop_bit 9 PARTITION_ALIGN = 2048" by (simp add: PARTITION_ALIGN_def)
  have m: "sb_data (sb_clear (sb_new (Some xs) 512 (Suc 0))) = Some (replicate 512 0)" for xs
    by (simp add: sb_clear_def sb_fill_def sb_new_def)
  have n: "sb_data (sb_clear (sb_new None 512 (Suc 0))) = None"
    by (simp add: sb_clear_def sb_fill_def sb_new_def)
  have i: "mbr_image 9 h t (replicate 512 0) = legacy_mbr_bytes (mbr_of 9 h t)"
    if "validate L table 2048 (mbr_region (sectorCount dev)) 512 = Some (Ret (t, e))" for h t e
    using validate_length [OF that] assms(3) by (simp add: mbr_image_clear)
  have c: "(ucast (2048 :: u32) :: u64) = 2048" by simp
  show ?thesis
    using assms(2,3) i
    by (cases mem)
      (auto simp: formatDisk_mbr_def Let_def DISK_MAX_SECTOR_SIZE_def s f m n c mbr_region_def
        split: option.splits run.splits prod.splits bool.splits)
qed

lemma format_mbr_returns:
  assumes "reliable ops" "geometry_ok ss dev" "buffers dev = Some bufs" "size_bits_law L" "mem \<noteq> None"
    and "table \<noteq> []" "length table \<le> 4"
    and "validate L table 2048 (mbr_region (sectorCount dev)) 512 = Some (Ret (t, Success))"
  shows "\<exists>dev'. formatDisk_mbr L ops mem dev pt table = Some (Ret ((dev', t, []), Success))"
proof -
  let ?m = "legacy_mbr_bytes (mbr_of 9 (numHeads_for (ucast (sectorCount dev))) t)"
  have "snd (bd_write ops dev 0 ?m)" by (rule transfers_reliable [OF assms(1-3)])
  then obtain dev1 where w: "bd_write ops dev 0 ?m = (dev1, True)" by (metis snd_True)
  obtain dev2 where s: "bd_sync ops dev1 = (dev2, True)" using bd_sync_reliable [OF assms(1), of dev1] by (metis snd_True)
  show ?thesis using formatDisk_mbr_steps [OF assms(4,6,7), of ops mem dev pt] assms(5,8) w s by simp
qed

text \<open>A disk of 100 MiB with one FAT16 partition, and the start of a small disk.\<close>

definition demo_table :: "part_info list" where
  "demo_table = mbr_add sming_ref SysFat16 SI_FAT16B 0 100 []"

definition demo_placed :: "u64 \<Rightarrow> part_info list" where
  "demo_placed sz = [(part_info_new [] (data_type sming_ref SysFat16) 0x100000 sz)\<lparr>systype := SysFat16, sysind := SI_FAT16B\<rparr>]"

lemma le_bytes_2: "le_bytes 2 w = [ucast w, ucast (drop_bit 8 w)]"
  by (simp add: numeral_2_eq_2)

lemma demo_table: "demo_table \<noteq> []" "length demo_table \<le> 4"
  by (simp_all add: demo_table_def mbr_add_def)

lemma sparse_region:
  "mbr_region (sectorCount (sparse_dev 104857600)) = 202752"
  "mbr_region (sectorCount (sparse_dev 512000)) = 4294966248"
  "ucast (sectorCount (sparse_dev 104857600)) = (204800 :: u32)"
proof -
  have "sectorCount (sparse_dev 104857600) = 204800" "sectorCount (sparse_dev 512000) = 1000"
    using sparse_dev(2) [of 104857600] sparse_dev(2) [of 512000] by (simp_all add: word_unat_eq_iff)
  then show "mbr_region (sectorCount (sparse_dev 104857600)) = 202752"
    "mbr_region (sectorCount (sparse_dev 512000)) = 4294966248"
    "ucast (sectorCount (sparse_dev 104857600)) = (204800 :: u32)"
    by (simp_all add: mbr_region_def)
qed

lemma demo_validate:
  "validate sming_ref demo_table 2048 202752 512 = Some (Ret (demo_placed 103809024, Success))"
  "validate sming_ref demo_table 2048 4294966248 512 = Some (Ret (demo_placed 2199022718976, Success))"
  by code_simp+

lemma demo_format_mbr:
  "\<exists>dev'. formatDisk_mbr sming_ref sparse_ops (Some []) (sparse_dev 104857600) [] demo_table
     = Some (Ret ((dev', demo_placed 103809024, []), Success))"
proof -
  obtain bufs where "buffers (sparse_dev 104857600) = Some bufs" using sparse_dev(3) by auto
  then show ?thesis
    using sparse_region(1) demo_validate(1)
    by (intro format_mbr_returns [OF sparse_reliable sparse_geometry _ sming_ref_laws(1)])
      (simp_all add: demo_table_def mbr_add_def)
qed

lemma formatDisk_mbr_content:
  assumes "raw_media ops ss media" "bd_ok media ss dev" "512 \<le> cache_limit ss" "size_bits_law L"
    and "formatDisk_mbr L ops mem dev pt table = Some (Ret ((dev', pt', table'), Success))"
  shows "\<exists>t. validate L table 2048 (mbr_region (sectorCount dev)) 512 = Some (Ret (t, Success)) \<and>
    pt' = t \<and> table' = [] \<and> bd_ok media ss dev' \<and>
    bd_content media ss dev' = overwrite 0 (legacy_mbr_bytes (mbr_of 9 (numHeads_for (ucast (sectorCount dev))) t))
      (bd_content media ss dev) \<and>
    content ss (media (raw dev')) = bd_content media ss dev'"
proof -
  have tb: "table \<noteq> []" "length table \<le> 4" using assms(5) by (auto simp: formatDisk_mbr_def split: if_splits)
  note st = formatDisk_mbr_steps [OF assms(4) tb, of ops mem dev pt, unfolded assms(5)]
  obtain t dev1 where t: "validate L table 2048 (mbr_region (sectorCount dev)) 512 = Some (Ret (t, Success))"
    and w: "bd_write ops dev 0 (legacy_mbr_bytes (mbr_of 9 (numHeads_for (ucast (sectorCount dev))) t)) = (dev1, True)"
    and s: "bd_sync ops dev1 = (dev', True)" and p: "pt' = t" "table' = []"
    using st by (auto split: option.splits run.splits prod.splits if_splits bool.splits)
  let ?m = "legacy_mbr_bytes (mbr_of 9 (numHeads_for (ucast (sectorCount dev))) t)"
  have "length t \<le> 4" using validate_length [OF t] tb(2) by simp
  then have len: "length ?m = 512" by (intro mbr.enc_length mbr_of_wf)
  note bw = raw_media.bd_write_ok [OF assms(1,2) _ w]
  have "unat (0 :: u64) + length ?m \<le> cache_limit ss" using len assms(3) by simp
  note bw = bw [OF this]
  note bs = raw_media.bd_sync_ok [OF assms(1) _ s]
  show ?thesis using t p bw bs by (auto simp: bd_content_def)
qed

section \<open>Properties\<close>

text \<open>C37: The CHS triple of a sector below cylinder 1024 denotes that sector: its head is below the
  number of heads, its sector number is between 1 and 63, and cylinder, head and sector give the
  sector back.\<close>

theorem chs_roundtrip:
  assumes "numHeads \<noteq> 0" "unat sect < 1024 * unat numHeads * 63"
  shows "chs_to_lba numHeads (calc_CHS numHeads sect) = unat sect \<and>
    chs_head (calc_CHS numHeads sect) < numHeads \<and>
    unat (chs_sector (calc_CHS numHeads sect) AND 0x3F) \<in> {1..63}"
proof -
  note p = calc_CHS_parts [OF assms]
  let ?h = "unat numHeads" and ?t = "unat sect div 63"
  have "0 < ?h" using assms(1) by (simp add: unat_gt_0)
  then have "chs_head (calc_CHS numHeads sect) < numHeads" by (simp add: word_less_nat_alt p(1))
  moreover have "1 + unat sect mod 63 \<in> {1..63}" using mod_less_divisor [of 63 "unat sect"] by force
  moreover have "(?t div ?h * ?h + ?t mod ?h) * 63 + (1 + unat sect mod 63 - 1) = unat sect" by simp
  ultimately show ?thesis by (simp only: chs_to_lba_def Let_def p)
qed

theorem chs_roundtrip_witness:
  "chs_to_lba 255 (calc_CHS 255 (2048 :: u32)) = 2048"
  using chs_roundtrip [of 255 2048] by simp

text \<open>The number of heads is the smallest of 8, 16, 32, 64 and 128 with which the device has at most
  1024 whole cylinders, and 255 when there is none; the loop ends although its counter wraps.\<close>

lemma numHeads_choice:
  "numHeads_for n =
     (if n div 504 \<le> 1024 then 8 else if n div 1008 \<le> 1024 then 16 else if n div 2016 \<le> 1024 then 32
      else if n div 4032 \<le> 1024 then 64 else if n div 8064 \<le> 1024 then 128 else 255)"
proof -
  have l0: "numHeads_loop n 0 = 0" by (simp add: numHeads_loop.simps)
  have "(256 :: u8) = 0" by simp
  then have l256: "numHeads_loop n 256 = 0" by (simp only: l0)
  have l128: "numHeads_loop n 128 = (if n div 8064 \<le> 1024 then 128 else 0)"
    by (subst numHeads_loop.simps) (auto simp: N_SEC_TRACK_def l256)
  have l64: "numHeads_loop n 64 = (if n div 4032 \<le> 1024 then 64 else numHeads_loop n 128)"
    by (subst numHeads_loop.simps) (auto simp: N_SEC_TRACK_def)
  have l32: "numHeads_loop n 32 = (if n div 2016 \<le> 1024 then 32 else numHeads_loop n 64)"
    by (subst numHeads_loop.simps) (auto simp: N_SEC_TRACK_def)
  have l16: "numHeads_loop n 16 = (if n div 1008 \<le> 1024 then 16 else numHeads_loop n 32)"
    by (subst numHeads_loop.simps) (auto simp: N_SEC_TRACK_def)
  have l8: "numHeads_loop n 8 = (if n div 504 \<le> 1024 then 8 else numHeads_loop n 16)"
    by (subst numHeads_loop.simps) (auto simp: N_SEC_TRACK_def)
  show ?thesis by (simp add: numHeads_for_def Let_def l8 l16 l32 l64 l128)
qed

text \<open>C34: When \<^verbatim>\<open>formatDisk\<close> succeeds on an MBR table, the first 512 bytes of the device are the image
  of an MBR whose entries describe the validated partitions in order, every other byte is as before,
  the medium holds all of it, and the device's list of partitions has become the validated table.\<close>

theorem mbr_format_writes:
  assumes "raw_media ops ss media" "bd_ok media ss dev" "512 \<le> cache_limit ss" "size_bits_law L"
    and "formatDisk_mbr L ops mem dev pt table = Some (Ret ((dev', pt', table'), Success))"
  shows "\<exists>t. validate L table 2048 (mbr_region (sectorCount dev)) 512 = Some (Ret (t, Success)) \<and>
    pt' = t \<and> table' = [] \<and> bd_ok media ss dev' \<and>
    bd_content media ss dev' = overwrite 0 (legacy_mbr_bytes (mbr_of 9 (numHeads_for (ucast (sectorCount dev))) t))
      (bd_content media ss dev) \<and>
    content ss (media (raw dev')) = bd_content media ss dev'"
  by (rule formatDisk_mbr_content [OF assms])

theorem mbr_format_writes_witness:
  "\<exists>dev'. formatDisk_mbr sming_ref sparse_ops (Some []) (sparse_dev 104857600) [] demo_table
     = Some (Ret ((dev', demo_placed 103809024, []), Success)) \<and>
   bd_content sparse_media 512 dev' 510 = 0x55 \<and> content 512 (sparse_media (raw dev')) 450 = SI_FAT16B"
proof -
  obtain dev' where f: "formatDisk_mbr sming_ref sparse_ops (Some []) (sparse_dev 104857600) [] demo_table
      = Some (Ret ((dev', demo_placed 103809024, []), Success))" using demo_format_mbr by auto
  let ?m = "mbr_of 9 (numHeads_for 204800) (demo_placed 103809024)"
  have e: "length (enc_array mbr_record_bytes (partition_record ?m)) = 64"
    by (simp add: mbr_rec.length_enc_array mbr_of_def demo_placed_def)
  have "legacy_mbr_bytes ?m ! 510 = 0x55" "legacy_mbr_bytes ?m ! 450 = SI_FAT16B" "length (legacy_mbr_bytes ?m) = 512"
    using e
    by (simp_all add: legacy_mbr_bytes_def nth_append)
      (simp_all add: mbr_of_def MSDOS_MBR_SIGNATURE_def demo_placed_def enc_array_def mbr_record_bytes_def
        mbr_entry_def Let_def u8_bytes_def diskpart_def disk_part.truncate_def
        le_bytes_2)
  then show ?thesis
    using f mbr_format_writes [OF sparse_media sparse_dev(1) _ sming_ref_laws(1) f]
    by (auto simp: sparse_region demo_validate cache_limit_def overwrite_def)
qed

text \<open>C35: When \<^verbatim>\<open>formatDisk\<close> reports an error for an MBR table, the device keeps its list of partitions; only
  the first 512 bytes can have changed, and only when the error is a write failure.\<close>

theorem mbr_format_fails:
  assumes "raw_media ops ss media" "bd_ok media ss dev" "512 \<le> cache_limit ss" "size_bits_law L"
    and "formatDisk_mbr L ops mem dev pt table = Some (Ret ((dev', pt', table'), err))" "err \<noteq> Success"
  shows "pt' = pt \<and> (err \<noteq> WriteFailure \<longrightarrow> dev' = dev) \<and> bd_ok media ss dev' \<and>
    (\<forall>k \<ge> 512. bd_content media ss dev' k = bd_content media ss dev k)"
proof (cases "table = [] \<or> length table > 4")
  case True
  then show ?thesis using assms(2,5) by (auto simp: formatDisk_mbr_def)
next
  case False
  then have tb: "table \<noteq> []" "length table \<le> 4" by simp_all
  note st = formatDisk_mbr_steps [OF assms(4) tb, of ops mem dev pt, unfolded assms(5)]
  let ?m = "\<lambda>t. legacy_mbr_bytes (mbr_of 9 (numHeads_for (ucast (sectorCount dev))) t)"
  consider "dev' = dev" "pt' = pt"
    | t dev1 ok where "validate L table 2048 (mbr_region (sectorCount dev)) 512 = Some (Ret (t, Success))"
      "bd_write ops dev 0 (?m t) = (dev1, ok)" "pt' = pt" "err = WriteFailure"
      "\<not> ok \<and> dev' = dev1 \<or> bd_sync ops dev1 = (dev', False)"
    using st assms(6) by (auto split: option.splits run.splits prod.splits if_splits bool.splits)
  then show ?thesis
  proof cases
    case 1
    then show ?thesis using assms(2) by simp
  next
    case (2 t dev1 ok)
    have "length t \<le> 4" using validate_length [OF 2(1)] tb(2) by simp
    then have len: "length (?m t) = 512" by (intro mbr.enc_length mbr_of_wf)
    have "unat (0 :: u64) + length (?m t) \<le> cache_limit ss" using len assms(3) by simp
    note bw = raw_media.bd_write_ok [OF assms(1,2) this 2(2)]
    then have "bd_ok media ss dev1" "\<forall>k \<ge> 512. bd_content media ss dev1 k = bd_content media ss dev k"
      using len by auto
    then show ?thesis using 2(3-5) raw_media.bd_sync_ok [OF assms(1), of dev1 dev' False]
      by (auto simp: bd_content_def)
  qed
qed

theorem mbr_format_fails_witness:
  "formatDisk_mbr sming_ref sparse_ops None (sparse_dev 104857600) demo_table demo_table
     = Some (Ret ((sparse_dev 104857600, demo_table, demo_placed 103809024), NoMem)) \<and>
   bd_ok sparse_media 512 (sparse_dev 104857600)"
proof -
  have f: "formatDisk_mbr sming_ref sparse_ops None (sparse_dev 104857600) demo_table demo_table
      = Some (Ret ((sparse_dev 104857600, demo_table, demo_placed 103809024), NoMem))"
    using formatDisk_mbr_steps [OF sming_ref_laws(1) demo_table, of sparse_ops None]
    by (simp add: sparse_region demo_validate)
  show ?thesis using f mbr_format_fails [OF sparse_media sparse_dev(1) _ sming_ref_laws(1) f] by (simp add: cache_limit_def)
qed

text \<open>C36: \<^verbatim>\<open>formatDisk\<close> returns and succeeds on every MBR table that passes validation, provided that memory
  is available and the medium does not fail. The witness is a device of 1000 sectors, too small for
  any partition: the count of allocatable sectors wraps and a partition of two terabytes is accepted.\<close>

theorem mbr_format_succeeds:
  assumes "reliable ops" "geometry_ok ss dev" "buffers dev = Some bufs" "size_bits_law L" "mem \<noteq> None"
    and "table \<noteq> []" "length table \<le> 4"
    and "validate L table 2048 (mbr_region (sectorCount dev)) 512 = Some (Ret (t, Success))"
  shows "\<exists>dev'. formatDisk_mbr L ops mem dev pt table = Some (Ret ((dev', t, []), Success))"
  by (rule format_mbr_returns [OF assms])

theorem mbr_format_succeeds_witness:
  "\<exists>dev'. formatDisk_mbr sming_ref sparse_ops (Some []) (sparse_dev 512000) [] demo_table
     = Some (Ret ((dev', demo_placed 2199022718976, []), Success))"
proof -
  obtain bufs where "buffers (sparse_dev 512000) = Some bufs" using sparse_dev(3) by auto
  then show ?thesis
    using sparse_region(2) demo_validate(2)
    by (intro mbr_format_succeeds [OF sparse_reliable sparse_geometry _ sming_ref_laws(1)])
      (simp_all add: demo_table_def mbr_add_def)
qed

end
