(* ===== verification/Gpt.thy ===== *)
theory Gpt
  imports Mbr
begin

text \<open>
  \<^verbatim>\<open>GPT.h\<close> and \<^verbatim>\<open>GPT.cpp\<close>: partition type GUIDs, adding entries to a GPT partition table and writing the
  table to a device. \<open>gen\<close> is the result of \<^verbatim>\<open>Uuid::generate\<close>. Characters of a partition name are
  signed, as on the emulator's host, when they are widened to 16 bits.
\<close>

section \<open>Type GUIDs\<close>

definition mk_uuid :: "u32 \<Rightarrow> u16 \<Rightarrow> u16 \<Rightarrow> u8 \<Rightarrow> u8 \<Rightarrow> u8 \<Rightarrow> u8 \<Rightarrow> u8 \<Rightarrow> u8 \<Rightarrow> u8 \<Rightarrow> u8 \<Rightarrow> uuid" where
  "mk_uuid a b c d e n0 n1 n2 n3 n4 n5 =
     \<lparr>time_low = a, time_mid = b, time_hi_version = c, clock_seq_hi = d, clock_seq_low = e,
      node0 = n0, node1 = n1, node2 = n2, node3 = n3, node4 = n4, node5 = n5\<rparr>"

definition PARTITION_BASIC_DATA_GUID :: uuid where
  "PARTITION_BASIC_DATA_GUID = mk_uuid 0xEBD0A0A2 0xB9E5 0x4433 0x87 0xC0 0x68 0xB6 0xB7 0x26 0x99 0xC7"

definition EFI_PARTITION_TYPE_GUID_MAP :: "(uuid \<times> string) list" where
  "EFI_PARTITION_TYPE_GUID_MAP =
     [(mk_uuid 0xC12A7328 0xF81F 0x11d2 0xBA 0x4B 0x00 0xA0 0xC9 0x3E 0xC9 0x3B, ''PARTITION_SYSTEM''),
      (mk_uuid 0x024DEE41 0x33E7 0x11d3 0x9D 0x69 0x00 0x08 0xC7 0x81 0xF3 0x9F, ''LEGACY_MBR_PARTITION''),
      (mk_uuid 0xE3C9E316 0x0B5C 0x4DB8 0x81 0x7D 0xF9 0x2D 0xF0 0x02 0x15 0xAE, ''PARTITION_MSFT_RESERVED''),
      (PARTITION_BASIC_DATA_GUID, ''PARTITION_BASIC_DATA''),
      (mk_uuid 0xa19d880f 0x05fc 0x4d3b 0xa0 0x06 0x74 0x3f 0x0f 0x84 0x91 0x1e, ''PARTITION_LINUX_RAID''),
      (mk_uuid 0x0657fd6d 0xa4ab 0x43c4 0x84 0xe5 0x09 0x33 0xc8 0x4b 0x4f 0x4f, ''PARTITION_LINUX_SWAP''),
      (mk_uuid 0xe6d6d379 0xf507 0x44c2 0xa2 0x3c 0x23 0x8f 0x2a 0x3d 0xf9 0x28, ''PARTITION_LINUX_LVM''),
      (mk_uuid 0x0fc63daf 0x8483 0x4772 0x8e 0x79 0x3d 0x69 0xd8 0x47 0x7d 0xe4, ''PARTITION_LINUX_DATA'')]"

definition getTypeName :: "uuid \<Rightarrow> string option" where
  "getTypeName guid = map_option snd (find (\<lambda>e. fst e = guid) EFI_PARTITION_TYPE_GUID_MAP)"

definition sming_baseguid :: uuid where
  "sming_baseguid = mk_uuid 0x3cd54234 0xcb54 0x4ed5 0xbc 0x8b 0x00 0x00 0x7d 0x42 0x84 0x70"

definition SmingTypeGuid :: "full_type \<Rightarrow> uuid" where
  "SmingTypeGuid ft = sming_baseguid\<lparr>node0 := ft_type ft, node1 := ft_subtype ft\<rparr>"

definition SmingTypeGuid_match :: "sming \<Rightarrow> uuid \<Rightarrow> full_type" where
  "SmingTypeGuid_match L guid =
     (if sming_baseguid \<noteq> guid\<lparr>node0 := 0, node1 := 0\<rparr> then fulltype_none L
      else \<lparr>ft_type = node0 guid, ft_subtype = node1 guid\<rparr>)"

section \<open>Adding partitions\<close>

definition gpt_add_part :: "sming \<Rightarrow> uuid \<Rightarrow> string \<Rightarrow> sys_type \<Rightarrow> u64 \<Rightarrow> u64 \<Rightarrow> uuid \<Rightarrow> uuid \<Rightarrow> part_info list
    \<Rightarrow> part_info list" where
  "gpt_add_part L gen nm sysTyp offset sz uniqueGd typeGd table =
     table @ [(part_info_new nm (data_type L sysTyp) offset sz)
       \<lparr>systype := sysTyp, typeGuid := (if uuid_isset L typeGd then typeGd else PARTITION_BASIC_DATA_GUID),
        uniqueGuid := (if uuid_isset L uniqueGd then uniqueGd else gen)\<rparr>]"

definition gpt_add_sming :: "sming \<Rightarrow> uuid \<Rightarrow> string \<Rightarrow> full_type \<Rightarrow> u64 \<Rightarrow> u64 \<Rightarrow> uuid \<Rightarrow> part_info list
    \<Rightarrow> part_info list" where
  "gpt_add_sming L gen nm ft offset sz uniqueGd table =
     table @ [(part_info_new nm ft offset sz)
       \<lparr>typeGuid := (if ft = \<lparr>ft_type = Type_data L, ft_subtype = SubType_fat L\<rparr> then PARTITION_BASIC_DATA_GUID
          else SmingTypeGuid ft),
        uniqueGuid := (if uuid_isset L uniqueGd then uniqueGd else gen)\<rparr>]"

section \<open>Writing the table\<close>

definition widen_char :: "char \<Rightarrow> u16" where
  "widen_char c = (scast (of_char c :: u8) :: u16)"

definition gpt_name :: "string \<Rightarrow> u16 list" where
  "gpt_name nm = (let s = map widen_char (take 36 (takeWhile (\<lambda>c. c \<noteq> CHR 0x00) nm)) in s @ replicate (36 - length s) 0)"

definition gpt_entry_of_part :: "nat \<Rightarrow> part_info \<Rightarrow> gpt_entry" where
  "gpt_entry_of_part shift part =
     \<lparr>partition_type_guid = typeGuid (diskpart part), unique_partition_guid = uniqueGuid (diskpart part),
      ge_starting_lba = drop_bit shift (p_offset part),
      ge_ending_lba = drop_bit shift (p_offset part + p_size part) - 1,
      ge_attributes = 0, partition_name = gpt_name (p_name part)\<rparr>"

definition writeSectors :: "'d raw_ops \<Rightarrow> nat \<Rightarrow> 'd block_device \<Rightarrow> u64 \<Rightarrow> u8 list \<Rightarrow> 'd block_device \<times> bool" where
  "writeSectors ops shift dev sector buff = bd_write ops dev (push_bit shift sector) buff"

text \<open>One round of the loop over the entries: the device, the buffer and the checksum after it.\<close>

definition gpt_entry_step :: "sming \<Rightarrow> 'd raw_ops \<Rightarrow> nat \<Rightarrow> u64 \<Rightarrow> 'd block_device \<Rightarrow> u8 list \<Rightarrow> u32 \<Rightarrow> part_info list \<Rightarrow> nat
    \<Rightarrow> 'd block_device \<times> (u8 list \<times> u32) option" where
  "gpt_entry_step L ops shift backup dev work bcc parts partitionIndex =
     (let entriesPerSector = DISK_MAX_SECTOR_SIZE div 128;
          i = partitionIndex mod entriesPerSector;
          work0 = (if i = 0 then replicate (length work) 0 else work);
          work1 = (case parts of [] \<Rightarrow> work0
            | part # _ \<Rightarrow> patch (i * 128) (gpt_entry_bytes L (gpt_entry_of_part shift part)) work0);
          bcc' = crc32 bcc (seg (i * 128) 128 work1)
      in if i + 1 = entriesPerSector then
           (case writeSectors ops shift dev (2 + of_nat (partitionIndex div entriesPerSector)) work1 of
              (dev1, False) \<Rightarrow> (dev1, None)
            | (dev1, True) \<Rightarrow>
                (case writeSectors ops shift dev1 (backup + of_nat (partitionIndex div entriesPerSector)) work1 of
                   (dev2, False) \<Rightarrow> (dev2, None)
                 | (dev2, True) \<Rightarrow> (dev2, Some (work1, bcc'))))
         else (dev, Some (work1, bcc')))"

text \<open>The loop, from \<open>partitionIndex\<close> on.\<close>

function gpt_entries_loop :: "sming \<Rightarrow> 'd raw_ops \<Rightarrow> nat \<Rightarrow> u64 \<Rightarrow> 'd block_device \<Rightarrow> u8 list \<Rightarrow> u32 \<Rightarrow> part_info list \<Rightarrow> nat
    \<Rightarrow> 'd block_device \<times> (u8 list \<times> u32) option" where
  "gpt_entries_loop L ops shift backup dev work bcc parts partitionIndex =
     (if \<not> partitionIndex < GPT_ITEMS then (dev, Some (work, bcc))
      else
        (case gpt_entry_step L ops shift backup dev work bcc parts partitionIndex of
           (dev1, None) \<Rightarrow> (dev1, None)
         | (dev1, Some (work1, bcc1)) \<Rightarrow>
             gpt_entries_loop L ops shift backup dev1 work1 bcc1 (tl parts) (partitionIndex + 1)))"
  by pat_completeness auto
termination
  by (relation "measure (\<lambda>(L, ops, shift, backup, dev, work, bcc, parts, idx). GPT_ITEMS - idx)") auto

declare gpt_entries_loop.simps [simp del]

definition gpt_primary_header :: "u64 \<Rightarrow> u64 \<Rightarrow> u64 \<Rightarrow> u32 \<Rightarrow> uuid \<Rightarrow> gpt_header" where
  "gpt_primary_header driveSectors tableSectors backup bcc guid =
     \<lparr>gh_signature = GPT_HEADER_SIGNATURE, gh_revision = GPT_HEADER_REVISION_V1, header_size = GPT_HEADER_SIZE,
      header_crc32 = 0, gh_reserved1 = 0, my_lba = 1, alternate_lba = driveSectors - 1,
      first_usable_lba = 2 + tableSectors, last_usable_lba = backup - 1, disk_guid = guid, partition_entry_lba = 2,
      num_partition_entries = of_nat GPT_ITEMS, sizeof_partition_entry = 128, partition_entry_array_crc32 = bcc\<rparr>"

definition gpt_sign :: "sming \<Rightarrow> gpt_header \<Rightarrow> gpt_header" where
  "gpt_sign L h = h\<lparr>header_crc32 := crc32 0 (take (unat GPT_HEADER_SIZE) (gpt_header_bytes L h))\<rparr>"

definition gpt_secondary_header :: "u64 \<Rightarrow> gpt_header \<Rightarrow> gpt_header" where
  "gpt_secondary_header backup h =
     h\<lparr>header_crc32 := 0, my_lba := alternate_lba h, alternate_lba := my_lba h, partition_entry_lba := backup\<rparr>"

definition protective_mbr :: "u64 \<Rightarrow> legacy_mbr" where
  "protective_mbr driveSectors =
     \<lparr>mbr_boot_code = replicate 440 0, unique_mbr_signature = 0, mbr_unknown = 0,
      partition_record = [\<lparr>boot_indicator = 0, start_head = 0, start_sector = 2, start_track = 0,
        os_type = EFI_PMBR_OSTYPE_EFI_GPT, end_head = 0xff, end_sector = 0xff, end_track = 0xff, starting_lba = 1,
        size_in_lba = ucast (min 0xffffffff (driveSectors - 1))\<rparr>, no_record, no_record, no_record],
      mbr_signature = MSDOS_MBR_SIGNATURE\<rparr>"

text \<open>The headers and the protective MBR, written after the entries.\<close>

definition gpt_write_headers :: "sming \<Rightarrow> 'd raw_ops \<Rightarrow> nat \<Rightarrow> u64 \<Rightarrow> u64 \<Rightarrow> 'd block_device \<Rightarrow> u8 list \<Rightarrow> gpt_header
    \<Rightarrow> 'd block_device \<times> bool" where
  "gpt_write_headers L ops shift driveSectors backup dev work h0 =
     (let h1 = gpt_sign L h0;
          work1 = patch 0 (gpt_header_bytes L h1) work
      in case writeSectors ops shift dev (my_lba h1) work1 of
        (dev1, False) \<Rightarrow> (dev1, False)
      | (dev1, True) \<Rightarrow>
          let h2 = gpt_sign L (gpt_secondary_header backup h1);
              work2 = patch 0 (gpt_header_bytes L h2) work1
          in (case writeSectors ops shift dev1 (my_lba h2) work2 of
                (dev2, False) \<Rightarrow> (dev2, False)
              | (dev2, True) \<Rightarrow>
                  let work3 = patch 0 (legacy_mbr_bytes (protective_mbr driveSectors)) work2
                  in (case writeSectors ops shift dev2 0 work3 of
                        (dev3, False) \<Rightarrow> (dev3, False)
                      | (dev3, True) \<Rightarrow> bd_sync ops dev3)))"

definition formatDisk_gpt :: "sming \<Rightarrow> 'd raw_ops \<Rightarrow> uuid \<Rightarrow> u8 list option \<Rightarrow> 'd block_device \<Rightarrow> part_info list \<Rightarrow> part_info list
    \<Rightarrow> uuid \<Rightarrow> (('d block_device \<times> part_info list \<times> part_info list) \<times> disk_error) run option" where
  "formatDisk_gpt L ops gen mem dev pt table diskGuid =
     (if table = [] then Some (Ret ((dev, pt, table), BadParam))
      else
        let sectorSz = DISK_MAX_SECTOR_SIZE;
            shift = getSizeBits L sectorSz
        in case sb_data (sb_new mem sectorSz 1) of
             None \<Rightarrow> Some (Ret ((dev, pt, table), NoMem))
           | Some work \<Rightarrow>
               let driveSectors = sectorCount dev;
                   partAlignSectors = drop_bit shift PARTITION_ALIGN;
                   tableSectors = of_nat (drop_bit shift (GPT_ITEMS * 128)) :: u64;
                   backup = driveSectors - tableSectors - 1;
                   firstAllocatableSector = align_up (2 + tableSectors) partAlignSectors;
                   allocatableSectors = backup - firstAllocatableSector
               in (case validate L table firstAllocatableSector allocatableSectors (of_nat sectorSz) of
                     None \<Rightarrow> None
                   | Some Fault \<Rightarrow> Some Fault
                   | Some (Ret (t, err)) \<Rightarrow>
                       if \<not> error_not err then Some (Ret ((dev, pt, t), err))
                       else
                         (case gpt_entries_loop L ops shift backup dev work 0 t 0 of
                            (dev1, None) \<Rightarrow> Some (Ret ((dev1, pt, t), WriteFailure))
                          | (dev1, Some (work1, bcc)) \<Rightarrow>
                              (case gpt_write_headers L ops shift driveSectors backup dev1 work1
                                  (gpt_primary_header driveSectors tableSectors backup bcc
                                     (if uuid_isset L diskGuid then diskGuid else gen)) of
                                 (dev2, False) \<Rightarrow> Some (Ret ((dev2, pt, t), WriteFailure))
                               | (dev2, True) \<Rightarrow> Some (Ret ((dev2, t, []), Success))))))"

section \<open>Type GUIDs, again\<close>

lemma mk_uuid_nodes [simp]:
  "(mk_uuid a b c d e n0 n1 n2 n3 n4 n5)\<lparr>node0 := x, node1 := y\<rparr> = mk_uuid a b c d e x y n2 n3 n4 n5"
  "node0 (mk_uuid a b c d e n0 n1 n2 n3 n4 n5) = n0" "node1 (mk_uuid a b c d e n0 n1 n2 n3 n4 n5) = n1"
  by (simp_all add: mk_uuid_def)

section \<open>The image of the partition array\<close>

definition gpt_chunk :: "sming \<Rightarrow> part_info list \<Rightarrow> u8 list" where
  "gpt_chunk L parts = (case parts of [] \<Rightarrow> replicate 128 0 | p # _ \<Rightarrow> gpt_entry_bytes L (gpt_entry_of_part 9 p))"

definition gpt_sector :: "sming \<Rightarrow> part_info list \<Rightarrow> u8 list" where
  "gpt_sector L parts = gpt_chunk L parts @ gpt_chunk L (drop 1 parts) @ gpt_chunk L (drop 2 parts) @ gpt_chunk L (drop 3 parts)"

text \<open>The \<open>n\<close> sectors that hold the entries of \<open>parts\<close>.\<close>

fun gpt_array :: "sming \<Rightarrow> nat \<Rightarrow> part_info list \<Rightarrow> u8 list" where
  "gpt_array L 0 parts = []"
| "gpt_array L (Suc n) parts = gpt_sector L parts @ gpt_array L n (drop 4 parts)"

lemma length_gpt_name [simp]: "length (gpt_name nm) = 36"
  by (simp add: gpt_name_def Let_def)

lemma gpt_entry_of_part_wf [simp]: "gpt_entry_wf (gpt_entry_of_part shift p)"
  by (simp add: gpt_entry_wf_def gpt_entry_of_part_def)

context uuid_layout begin

lemma length_gpt_chunk [simp]: "length (gpt_chunk L parts) = 128"
  by (simp add: gpt_chunk_def gpt_entry.enc_length split: list.split)

lemma length_gpt_sector [simp]: "length (gpt_sector L parts) = 512"
  by (simp add: gpt_sector_def)

lemma length_gpt_array [simp]: "length (gpt_array L n parts) = n * 512"
  by (induction n arbitrary: parts) simp_all

text \<open>One entry: the buffer holds the \<open>i\<close> entries before it, then zeros.\<close>

lemma gpt_patch_chunk:
  assumes "length pre = i * 128" "i < 4"
    and "w = pre @ replicate ((4 - i) * 128) 0"
  shows "(case parts of [] \<Rightarrow> w | p # _ \<Rightarrow> patch (i * 128) (gpt_entry_bytes L (gpt_entry_of_part 9 p)) w)
     = pre @ gpt_chunk L parts @ replicate ((3 - i) * 128) 0"
proof -
  have r: "replicate ((4 - i) * 128) (0 :: u8) = replicate 128 0 @ replicate ((3 - i) * 128) 0"
    using assms(2) by (simp flip: replicate_add add_mult_distrib add: Suc_diff_le)
  show ?thesis
    using assms(1) gpt_entry.enc_length [OF gpt_entry_of_part_wf]
    by (cases parts) (simp_all add: gpt_chunk_def patch_def assms(3) r)
qed

lemma gpt_entries_step:
  assumes "idx = 4 * q + i" "i < 3" "q < 32" "length pre = i * 128"
    and "work = pre @ replicate ((4 - i) * 128) 0 \<or> i = 0 \<and> length work = 512"
  shows "gpt_entries_loop L ops 9 backup dev work bcc parts idx =
    gpt_entries_loop L ops 9 backup dev (pre @ gpt_chunk L parts @ replicate ((3 - i) * 128) 0)
      (crc32 bcc (gpt_chunk L parts)) (tl parts) (idx + 1)"
proof -
  have i: "idx mod 4 = i" "idx < 128" using assms(1-3) by simp_all
  define w where "w = (if i = 0 then replicate (length work) 0 else work)"
  have w: "w = pre @ replicate ((4 - i) * 128) 0" using assms(4,5) by (auto simp: w_def)
  have s: "seg (i * 128) 128 (pre @ gpt_chunk L parts @ replicate ((3 - i) * 128) 0) = gpt_chunk L parts"
    using assms(4) by simp
  have c: "(case parts of [] \<Rightarrow> w | p # _ \<Rightarrow> patch (i * 128) (gpt_entry_bytes L (gpt_entry_of_part 9 p)) w)
     = pre @ gpt_chunk L parts @ replicate ((3 - i) * 128) 0"
    using gpt_patch_chunk [OF assms(4) _ w] assms(2) by simp
  show ?thesis
    using assms(2) i(2)
    by (subst gpt_entries_loop.simps)
      (simp add: gpt_entry_step_def GPT_ITEMS_def DISK_MAX_SECTOR_SIZE_def Let_def i(1) c s cong: list.case_cong split del: if_split flip: w_def)
qed

lemma gpt_entries_last:
  assumes "idx = 4 * q + 3" "q < 32" "length pre = 384" "work = pre @ replicate 128 0"
  shows "gpt_entries_loop L ops 9 backup dev work bcc parts idx =
    (case writeSectors ops 9 dev (2 + of_nat q) (pre @ gpt_chunk L parts) of
       (dev1, False) \<Rightarrow> (dev1, None)
     | (dev1, True) \<Rightarrow>
         (case writeSectors ops 9 dev1 (backup + of_nat q) (pre @ gpt_chunk L parts) of
            (dev2, False) \<Rightarrow> (dev2, None)
          | (dev2, True) \<Rightarrow> gpt_entries_loop L ops 9 backup dev2 (pre @ gpt_chunk L parts)
              (crc32 bcc (gpt_chunk L parts)) (tl parts) (idx + 1)))"
proof -
  have three: "(3 :: nat) * 128 = 384" by simp
  have i: "idx mod 4 = 3" "idx < 128" "idx div 4 = q" using assms(1,2) by simp_all
  have s: "seg 384 128 (pre @ gpt_chunk L parts) = gpt_chunk L parts" using assms(3) by simp
  have c: "(case parts of [] \<Rightarrow> work | p # _ \<Rightarrow> patch 384 (gpt_entry_bytes L (gpt_entry_of_part 9 p)) work)
     = pre @ gpt_chunk L parts"
    using gpt_patch_chunk [of pre 3 work parts, unfolded three] assms(3,4) by simp
  show ?thesis
    using i(2)
    by (subst gpt_entries_loop.simps)
      (simp add: gpt_entry_step_def GPT_ITEMS_def DISK_MAX_SECTOR_SIZE_def Let_def i(1,3) c s cong: list.case_cong split: prod.split bool.split)
qed

lemma gpt_entries_sector:
  assumes "q < 32" "length work = 512"
  shows "gpt_entries_loop L ops 9 backup dev work bcc parts (4 * q) =
    (case writeSectors ops 9 dev (2 + of_nat q) (gpt_sector L parts) of
       (dev1, False) \<Rightarrow> (dev1, None)
     | (dev1, True) \<Rightarrow>
         (case writeSectors ops 9 dev1 (backup + of_nat q) (gpt_sector L parts) of
            (dev2, False) \<Rightarrow> (dev2, None)
          | (dev2, True) \<Rightarrow> gpt_entries_loop L ops 9 backup dev2 (gpt_sector L parts)
              (crc32 bcc (gpt_sector L parts)) (drop 4 parts) (4 * Suc q)))"
proof -
  let ?c0 = "gpt_chunk L parts" and ?c1 = "gpt_chunk L (tl parts)" and ?c2 = "gpt_chunk L (tl (tl parts))"
    and ?c3 = "gpt_chunk L (tl (tl (tl parts)))"
  have d: "drop 2 parts = tl (tl parts)" "drop 3 parts = tl (tl (tl parts))" "drop 4 parts = tl (tl (tl (tl parts)))"
    by (simp_all add: drop_Suc numeral_eq_Suc)
  have sec: "gpt_sector L parts = (?c0 @ ?c1 @ ?c2) @ ?c3" by (simp add: gpt_sector_def d drop_Suc)
  have crc: "crc32 (crc32 (crc32 (crc32 bcc ?c0) ?c1) ?c2) ?c3 = crc32 bcc (gpt_sector L parts)"
    by (simp add: sec crc.csum_append)
  have 0: "gpt_entries_loop L ops 9 backup dev work bcc parts (4 * q) =
      gpt_entries_loop L ops 9 backup dev (?c0 @ replicate 384 0) (crc32 bcc ?c0) (tl parts) (4 * q + 1)"
    using gpt_entries_step [of "4 * q" q 0 "[]" work ops backup dev bcc parts] assms by simp
  have 1: "gpt_entries_loop L ops 9 backup dev (?c0 @ replicate 384 0) b (tl parts) (4 * q + 1) =
      gpt_entries_loop L ops 9 backup dev ((?c0 @ ?c1) @ replicate 256 0) (crc32 b ?c1) (tl (tl parts)) (4 * q + 2)" for b
    using gpt_entries_step [of "4 * q + 1" q 1 ?c0 _ ops backup dev b "tl parts"] assms(1) by simp
  have 2: "gpt_entries_loop L ops 9 backup dev ((?c0 @ ?c1) @ replicate 256 0) b (tl (tl parts)) (4 * q + 2) =
      gpt_entries_loop L ops 9 backup dev ((?c0 @ ?c1 @ ?c2) @ replicate 128 0) (crc32 b ?c2) (tl (tl (tl parts))) (4 * q + 3)" for b
    using gpt_entries_step [of "4 * q + 2" q 2 "?c0 @ ?c1" _ ops backup dev b "tl (tl parts)"] assms(1)
    by (simp add: numeral_3_eq_3)
  have len: "length (?c0 @ ?c1 @ ?c2) = 384" by simp
  have n: "4 * q + 3 + 1 = 4 * Suc q" by simp
  show ?thesis
    unfolding 0 1 2 gpt_entries_last [OF refl assms(1) len refl] sec [symmetric] crc d(3) n ..
qed

end

section \<open>What the writes leave on the disk\<close>

lemma unat_push_bit_small:
  fixes w :: u64
  assumes "unat w * 2 ^ k < 2 ^ 64"
  shows "unat (push_bit k w) = unat w * 2 ^ k"
proof -
  have "take_bit LENGTH(64) (push_bit k (unat w)) = unat w * 2 ^ k"
    using assms by (simp add: push_bit_eq_mult take_bit_nat_eq_self)
  then show ?thesis by (simp only: unsigned_push_bit_eq)
qed

lemma overwrite_commute:
  "a + length xs \<le> b \<Longrightarrow> overwrite a xs (overwrite b ys c) = overwrite b ys (overwrite a xs c)"
  by (auto simp: overwrite_def fun_eq_iff)

lemma write_sector_ok:
  assumes "raw_media ops ss media" "bd_ok media ss dev" "length buf = 512" "(unat sector + 1) * 512 \<le> cache_limit ss"
    and "writeSectors ops 9 dev sector buf = (dev', ok)"
  shows "bd_ok media ss dev'" "ok \<Longrightarrow> bd_content media ss dev' = overwrite (unat sector * 512) buf (bd_content media ss dev)"
    "k < unat sector * 512 \<or> (unat sector + 1) * 512 \<le> k \<Longrightarrow> bd_content media ss dev' k = bd_content media ss dev k"
proof -
  have "geometry_ok ss dev" using assms(2) by (simp add: bd_ok_def)
  then have "unat sector * 2 ^ 9 < 2 ^ 64" using assms(4) cache_limit_u64 [of ss dev] by simp
  then have a: "unat (push_bit 9 sector) = unat sector * 512" using unat_push_bit_small [of sector 9] by simp
  have fit: "unat (push_bit 9 sector) + length buf \<le> cache_limit ss" unfolding a using assms(3,4) by simp
  note w = raw_media.bd_write_ok [OF assms(1,2) fit assms(5) [unfolded writeSectors_def]]
  show "bd_ok media ss dev'" "ok \<Longrightarrow> bd_content media ss dev' = overwrite (unat sector * 512) buf (bd_content media ss dev)"
    using w unfolding a by blast+
  show "bd_content media ss dev' k = bd_content media ss dev k" if "k < unat sector * 512 \<or> (unat sector + 1) * 512 \<le> k"
    using w that assms(3) unfolding a by auto
qed

lemma unat_plus_of_nat:
  fixes w :: u64
  assumes "unat w + n < 2 ^ 64"
  shows "unat (w + of_nat n) = unat w + n"
proof -
  have "unat (of_nat n :: u64) = n" using assms by (intro unat_of_nat_u64) linarith
  moreover from this have "unat w + unat (of_nat n :: u64) < 2 ^ LENGTH(64)" using assms by simp
  ultimately show ?thesis using unat_add_lem [of w "of_nat n"] by simp
qed

text \<open>The primary and the backup array, both written sector by sector, do not meet.\<close>

lemma gpt_loop_content:
  assumes "raw_media ops ss media" "uuid_law L" "34 \<le> unat backup" "(unat backup + 32) * 512 \<le> cache_limit ss"
    and "n + q = 32" "bd_ok media ss dev" "length work = 512"
    and "gpt_entries_loop L ops 9 backup dev work bcc parts (4 * q) = (dev', res)"
  shows "bd_ok media ss dev' \<and>
    (\<forall>work' bcc'. res = Some (work', bcc') \<longrightarrow> length work' = 512 \<and> bcc' = crc32 bcc (gpt_array L n parts) \<and>
      bd_content media ss dev' = overwrite ((2 + q) * 512) (gpt_array L n parts)
        (overwrite ((unat backup + q) * 512) (gpt_array L n parts) (bd_content media ss dev)))"
  using assms(5-8)
proof (induction n arbitrary: q dev work bcc parts)
  case 0
  then show ?case by (auto simp: gpt_entries_loop.simps [of L ops 9 backup dev work bcc parts] GPT_ITEMS_def crc32_def)
next
  case (Suc n)
  have ul: "uuid_layout L" by unfold_locales (rule assms(2))
  note len = uuid_layout.length_gpt_sector [OF ul] uuid_layout.length_gpt_array [OF ul]
  have q: "q < 32" using Suc.prems(1) by simp
  let ?S = "gpt_sector L parts" and ?R = "gpt_array L n (drop 4 parts)" and ?c = "bd_content media ss"
  have g: "cache_limit ss < 2 ^ 64" using Suc.prems(2) cache_limit_u64 [of ss dev] by (simp add: bd_ok_def)
  have p: "unat (2 + of_nat q :: u64) = 2 + q" using unat_plus_of_nat [of 2 q] q by simp
  have b: "unat (backup + of_nat q) = unat backup + q"
    using assms(4) g q by (intro unat_plus_of_nat) simp
  have fit: "(unat (2 + of_nat q :: u64) + 1) * 512 \<le> cache_limit ss" "(unat (backup + of_nat q) + 1) * 512 \<le> cache_limit ss"
    unfolding p b using assms(3,4) q by simp_all
  obtain dev1 ok1 where w1: "writeSectors ops 9 dev (2 + of_nat q) ?S = (dev1, ok1)"
    by (cases "writeSectors ops 9 dev (2 + of_nat q) ?S")
  obtain dev2 ok2 where w2: "writeSectors ops 9 dev1 (backup + of_nat q) ?S = (dev2, ok2)"
    by (cases "writeSectors ops 9 dev1 (backup + of_nat q) ?S")
  note ws1 = write_sector_ok [OF assms(1) Suc.prems(2) len(1) fit(1) w1]
  note ws2 = write_sector_ok [OF assms(1) ws1(1) len(1) fit(2) w2]
  note step = uuid_layout.gpt_entries_sector [OF ul q Suc.prems(3), of ops backup dev bcc parts, unfolded w1 prod.case w2]
  show ?case
  proof (cases "ok1 \<and> ok2")
    case False
    then show ?thesis using step Suc.prems(4) ws1(1) ws2(1) by (cases ok1) auto
  next
    case True
    then have loop: "gpt_entries_loop L ops 9 backup dev2 ?S (crc32 bcc ?S) (drop 4 parts) (4 * Suc q) = (dev', res)"
      using step Suc.prems(4) by simp
    note ih = Suc.IH [OF _ ws2(1) len(1) loop]
    have c2: "?c dev2 = overwrite ((unat backup + q) * 512) ?S (overwrite ((2 + q) * 512) ?S (?c dev))"
      using ws1(2) ws2(2) True by (simp only: p b)
    let ?p = "(2 + q) * 512" and ?b = "(unat backup + q) * 512"
    have far: "?p + 512 + n * 512 \<le> ?b" using assms(3) Suc.prems(1) by simp
    have e: "(2 + Suc q) * 512 = ?p + length ?S" "(unat backup + Suc q) * 512 = ?b + length ?S" by (simp_all add: len)
    have "overwrite (?p + length ?S) ?R (overwrite (?b + length ?S) ?R (overwrite ?b ?S (overwrite ?p ?S (?c dev))))
        = overwrite (?p + length ?S) ?R (overwrite ?b (?S @ ?R) (overwrite ?p ?S (?c dev)))"
      by (simp only: overwrite_append)
    also have "\<dots> = overwrite ?b (?S @ ?R) (overwrite (?p + length ?S) ?R (overwrite ?p ?S (?c dev)))"
      using far by (intro overwrite_commute) (simp add: len)
    also have "\<dots> = overwrite ?b (?S @ ?R) (overwrite ?p (?S @ ?R) (?c dev))"
      by (simp only: overwrite_append)
    also have "\<dots> = overwrite ?p (?S @ ?R) (overwrite ?b (?S @ ?R) (?c dev))"
      using far by (intro overwrite_commute [symmetric]) (simp add: len)
    finally show ?thesis using ih Suc.prems(1) unfolding c2 e by (simp add: crc.csum_append)
  qed
qed

lemma gpt_sign_simps [simp]:
  "my_lba (gpt_sign L h) = my_lba h" "alternate_lba (gpt_sign L h) = alternate_lba h"
  "my_lba (gpt_secondary_header b h) = alternate_lba h"
  by (simp_all add: gpt_sign_def gpt_secondary_header_def)

lemma protective_mbr_wf: "legacy_mbr_wf (protective_mbr n)"
  by (simp add: protective_mbr_def legacy_mbr_wf_def)

lemma patch_start: "patch 0 xs ys = xs @ drop (length xs) ys"
  by (simp add: patch_def)

text \<open>The two headers and the protective MBR; after the headers' 92 bytes the sectors keep what
  the buffer held.\<close>

lemma gpt_headers_content:
  assumes "raw_media ops ss media" "uuid_law L" "bd_ok media ss dev" "length work = 512"
    and "2 \<le> unat n" "unat n * 512 \<le> cache_limit ss" "my_lba h0 = 1" "alternate_lba h0 = n - 1"
    and "gpt_write_headers L ops 9 n backup dev work h0 = (dev', True)"
  defines "h1 \<equiv> gpt_sign L h0" and "h2 \<equiv> gpt_sign L (gpt_secondary_header backup (gpt_sign L h0))"
  shows "bd_ok media ss dev' \<and> content ss (media (raw dev')) = bd_content media ss dev' \<and>
    bd_content media ss dev' = overwrite 0 (legacy_mbr_bytes (protective_mbr n))
      (overwrite ((unat n - 1) * 512) (gpt_header_bytes L h2 @ drop 92 work)
        (overwrite 512 (gpt_header_bytes L h1 @ drop 92 work) (bd_content media ss dev)))"
proof -
  have ul: "uuid_layout L" by unfold_locales (rule assms(2))
  note hl = uuid_layout.length_gpt_header [OF ul]
  have ml: "length (legacy_mbr_bytes (protective_mbr n)) = 512" by (rule mbr.enc_length [OF protective_mbr_wf])
  have w1: "patch 0 (gpt_header_bytes L h1) work = gpt_header_bytes L h1 @ drop 92 work" by (simp add: patch_start hl)
  have w2: "patch 0 (gpt_header_bytes L h2) (gpt_header_bytes L h1 @ drop 92 work) = gpt_header_bytes L h2 @ drop 92 work"
    by (simp add: patch_start hl)
  have w3: "patch 0 (legacy_mbr_bytes (protective_mbr n)) (gpt_header_bytes L h2 @ drop 92 work)
      = legacy_mbr_bytes (protective_mbr n)"
    by (rule patch_all) (simp add: ml hl assms(4))
  have len: "length (gpt_header_bytes L h1 @ drop 92 work) = 512" "length (gpt_header_bytes L h2 @ drop 92 work) = 512"
    by (simp_all add: hl assms(4))
  have h2': "gpt_sign L (gpt_secondary_header backup h1) = h2" by (simp add: h1_def h2_def)
  have a: "my_lba h1 = 1" "my_lba h2 = n - 1" using assms(7,8) by (simp_all add: h1_def h2_def)
  note code = assms(9) [unfolded gpt_write_headers_def Let_def, folded h1_def, unfolded h2' a w1 w2 w3]
  obtain dev1 where s1: "writeSectors ops 9 dev 1 (gpt_header_bytes L h1 @ drop 92 work) = (dev1, True)"
    using code by (auto split: prod.splits bool.splits)
  obtain dev2 where s2: "writeSectors ops 9 dev1 (n - 1) (gpt_header_bytes L h2 @ drop 92 work) = (dev2, True)"
    using code s1 by (auto split: prod.splits bool.splits)
  obtain dev3 where s3: "writeSectors ops 9 dev2 0 (legacy_mbr_bytes (protective_mbr n)) = (dev3, True)"
    and s4: "bd_sync ops dev3 = (dev', True)"
    using code s1 s2 by (auto split: prod.splits bool.splits)
  have n1: "unat (n - 1) = unat n - 1" using assms(5) by (simp add: unat_sub word_le_nat_alt)
  have "(unat (1 :: u64) + 1) * 512 \<le> cache_limit ss" "(unat (n - 1) + 1) * 512 \<le> cache_limit ss"
    "(unat (0 :: u64) + 1) * 512 \<le> cache_limit ss" using assms(5,6) n1 by simp_all
  note fit = this
  note c1 = write_sector_ok [OF assms(1,3) len(1) fit(1) s1]
  note c2 = write_sector_ok [OF assms(1) c1(1) len(2) fit(2) s2]
  note c3 = write_sector_ok [OF assms(1) c2(1) ml fit(3) s3]
  note c4 = raw_media.bd_sync_ok [OF assms(1) c3(1) s4]
  have v: "bd_content media ss dev' = bd_content media ss dev3" using c4 by (simp add: bd_content_def)
  have "bd_content media ss dev' = overwrite 0 (legacy_mbr_bytes (protective_mbr n))
      (overwrite ((unat n - 1) * 512) (gpt_header_bytes L h2 @ drop 92 work)
        (overwrite 512 (gpt_header_bytes L h1 @ drop 92 work) (bd_content media ss dev)))"
    unfolding v using c1(2) c2(2) c3(2) n1 by simp
  then show ?thesis using c4 by (simp add: bd_content_def)
qed

text \<open>The code with its constants evaluated.\<close>

definition gpt_region :: "u64 \<Rightarrow> u64" where
  "gpt_region cnt = cnt - 33 - 2048"

lemma formatDisk_gpt_steps:
  assumes "size_bits_law L" "table \<noteq> []"
  shows "formatDisk_gpt L ops gen mem dev pt table diskGuid =
     (case sb_data (sb_new mem 512 1) of
        None \<Rightarrow> Some (Ret ((dev, pt, table), NoMem))
      | Some work \<Rightarrow>
          (case validate L table 2048 (gpt_region (sectorCount dev)) 512 of
             None \<Rightarrow> None
           | Some Fault \<Rightarrow> Some Fault
           | Some (Ret (t, err)) \<Rightarrow>
               if err \<noteq> Success then Some (Ret ((dev, pt, t), err))
               else
                 (case gpt_entries_loop L ops 9 (sectorCount dev - 33) dev work 0 t 0 of
                    (dev1, None) \<Rightarrow> Some (Ret ((dev1, pt, t), WriteFailure))
                  | (dev1, Some (work1, bcc)) \<Rightarrow>
                      (case gpt_write_headers L ops 9 (sectorCount dev) (sectorCount dev - 33) dev1 work1
                          (gpt_primary_header (sectorCount dev) 32 (sectorCount dev - 33) bcc
                             (if uuid_isset L diskGuid then diskGuid else gen)) of
                         (dev2, False) \<Rightarrow> Some (Ret ((dev2, pt, t), WriteFailure))
                       | (dev2, True) \<Rightarrow> Some (Ret ((dev2, t, []), Success))))))"
proof -
  have s: "getSizeBits L 512 = 9"
    using assms(1) spec [of "\<lambda>k. k < 32 \<longrightarrow> getSizeBits L (2 ^ k) = k" 9] by (simp add: size_bits_law_def)
  have f: "drop_bit 9 PARTITION_ALIGN = 2048" by (simp add: PARTITION_ALIGN_def)
  have i: "(of_nat (drop_bit 9 (128 * 128)) :: u64) = 32" by simp
  have al: "align_up (2 + 32) 2048 = 2048" by (simp add: align_up_def)
  have b: "cnt - 32 - 1 = cnt - 33" "cnt - 33 - 2048 = gpt_region cnt" for cnt :: u64
    by (simp_all add: gpt_region_def)
  have o: "(of_nat 512 :: u32) = 512" by simp
  show ?thesis
    unfolding formatDisk_gpt_def Let_def DISK_MAX_SECTOR_SIZE_def GPT_ITEMS_def s f i al b o error_not_simps
    using assms(2) by simp
qed

lemma map_overwrite: "n = length bs \<Longrightarrow> map (overwrite a bs c) [a..<a + n] = bs"
  by (rule nth_equalityI) (auto simp: overwrite_def)

lemma map_overwrite_other:
  "b + n \<le> a \<or> a + length bs \<le> b \<Longrightarrow> map (overwrite a bs c) [b..<b + n] = map c [b..<b + n]"
  by (auto simp: overwrite_def)

text \<open>Where the code writes at all, on a device of \<open>n\<close> sectors.\<close>

definition gpt_area :: "nat \<Rightarrow> nat \<Rightarrow> bool" where
  "gpt_area n k \<longleftrightarrow> k < 34 * 512 \<or> (n - 33) * 512 \<le> k \<and> k < n * 512"

lemma write_sector_area:
  assumes "raw_media ops ss media" "bd_ok media ss dev" "length buf = 512" "n * 512 \<le> cache_limit ss"
    and "unat sector < n" "unat sector < 34 \<or> n - 33 \<le> unat sector" "34 \<le> n"
    and "writeSectors ops 9 dev sector buf = (dev', ok)"
  shows "bd_ok media ss dev'" "\<not> gpt_area n k \<Longrightarrow> bd_content media ss dev' k = bd_content media ss dev k"
proof -
  have fit: "(unat sector + 1) * 512 \<le> cache_limit ss"
  proof -
    have "(unat sector + 1) * 512 \<le> n * 512" using assms(5) by (intro mult_le_mono1) simp
    then show ?thesis using assms(4) by linarith
  qed
  note w = write_sector_ok [OF assms(1-3) fit assms(8)]
  show "bd_ok media ss dev'" by (rule w(1))
  assume out: "\<not> gpt_area n k"
  have "k < unat sector * 512 \<or> (unat sector + 1) * 512 \<le> k"
  proof (cases "unat sector < 34")
    case True
    then have "(unat sector + 1) * 512 \<le> 34 * 512" by (intro mult_le_mono1) simp
    then show ?thesis using out by (simp add: gpt_area_def)
  next
    case False
    then have "(n - 33) * 512 \<le> unat sector * 512" "(unat sector + 1) * 512 \<le> n * 512"
      using assms(5,6) by (auto intro!: mult_le_mono1)
    then show ?thesis using out unfolding gpt_area_def by linarith
  qed
  then show "bd_content media ss dev' k = bd_content media ss dev k" by (rule w(3))
qed

lemma gpt_loop_area:
  assumes "raw_media ops ss media" "uuid_law L" "34 \<le> n" "n * 512 \<le> cache_limit ss" "unat backup = n - 33" "m + q = 32"
    and "bd_ok media ss dev" "length work = 512"
    and "gpt_entries_loop L ops 9 backup dev work bcc parts (4 * q) = (dev', res)"
  shows "bd_ok media ss dev' \<and> (\<forall>k. \<not> gpt_area n k \<longrightarrow> bd_content media ss dev' k = bd_content media ss dev k) \<and>
    (\<forall>work' bcc'. res = Some (work', bcc') \<longrightarrow> length work' = 512)"
  using assms(6-9)
proof (induction m arbitrary: q dev work bcc parts)
  case 0
  then show ?case by (auto simp: gpt_entries_loop.simps [of L ops 9 backup dev work bcc parts] GPT_ITEMS_def)
next
  case (Suc m)
  have ul: "uuid_layout L" by unfold_locales (rule assms(2))
  let ?S = "gpt_sector L parts"
  have len: "length ?S = 512" by (rule uuid_layout.length_gpt_sector [OF ul])
  have q: "q < 32" using Suc.prems(1) by simp
  have g: "n * 512 < 2 ^ 64" using Suc.prems(2) assms(4) cache_limit_u64 [of ss dev] by (simp add: bd_ok_def)
  have p: "unat (2 + of_nat q :: u64) = 2 + q" using unat_plus_of_nat [of 2 q] q by simp
  have b: "unat (backup + of_nat q) = n - 33 + q" using unat_plus_of_nat [of backup q] assms(5) g q by simp
  have in1: "unat (2 + of_nat q :: u64) < n" "unat (2 + of_nat q :: u64) < 34 \<or> n - 33 \<le> unat (2 + of_nat q :: u64)"
    and in2: "unat (backup + of_nat q) < n" "unat (backup + of_nat q) < 34 \<or> n - 33 \<le> unat (backup + of_nat q)"
    unfolding p b using assms(3) q by linarith+
  obtain dev1 ok1 where w1: "writeSectors ops 9 dev (2 + of_nat q) ?S = (dev1, ok1)"
    by (cases "writeSectors ops 9 dev (2 + of_nat q) ?S")
  obtain dev2 ok2 where w2: "writeSectors ops 9 dev1 (backup + of_nat q) ?S = (dev2, ok2)"
    by (cases "writeSectors ops 9 dev1 (backup + of_nat q) ?S")
  note ws1 = write_sector_area [OF assms(1) Suc.prems(2) len assms(4) in1 assms(3) w1]
  note ws2 = write_sector_area [OF assms(1) ws1(1) len assms(4) in2 assms(3) w2]
  note step = uuid_layout.gpt_entries_sector [OF ul q Suc.prems(3), of ops backup dev bcc parts, unfolded w1 prod.case w2]
  show ?case
  proof (cases "ok1 \<and> ok2")
    case False
    then show ?thesis using step Suc.prems(4) ws1 ws2 by (cases ok1) auto
  next
    case True
    then have loop: "gpt_entries_loop L ops 9 backup dev2 ?S (crc32 bcc ?S) (drop 4 parts) (4 * Suc q) = (dev', res)"
      using step Suc.prems(4) by simp
    show ?thesis using Suc.IH [OF _ ws2(1) len loop] Suc.prems(1) ws1(2) ws2(2) by simp
  qed
qed

lemma gpt_headers_area:
  assumes "raw_media ops ss media" "uuid_law L" "bd_ok media ss dev" "length work = 512"
    and "34 \<le> unat n" "unat n * 512 \<le> cache_limit ss" "my_lba h0 = 1" "alternate_lba h0 = n - 1"
    and "gpt_write_headers L ops 9 n backup dev work h0 = (dev', ok)" "\<not> gpt_area (unat n) k"
  shows "bd_ok media ss dev' \<and> bd_content media ss dev' k = bd_content media ss dev k"
proof -
  have ul: "uuid_layout L" by unfold_locales (rule assms(2))
  note hl = uuid_layout.length_gpt_header [OF ul]
  define h1 where "h1 = gpt_sign L h0"
  define h2 where "h2 = gpt_sign L (gpt_secondary_header backup h1)"
  define b1 where "b1 = patch 0 (gpt_header_bytes L h1) work"
  define b2 where "b2 = patch 0 (gpt_header_bytes L h2) b1"
  define b3 where "b3 = patch 0 (legacy_mbr_bytes (protective_mbr n)) b2"
  have len: "length b1 = 512" "length b2 = 512" "length b3 = 512"
    using mbr.enc_length [OF protective_mbr_wf] by (simp_all add: b1_def b2_def b3_def hl assms(4))
  have a: "my_lba h1 = 1" "my_lba h2 = n - 1" using assms(7,8) by (simp_all add: h1_def h2_def)
  note code = assms(9) [unfolded gpt_write_headers_def Let_def, folded h1_def, folded h2_def b1_def, folded b2_def, folded b3_def,
      unfolded a]
  have n1: "unat (n - 1) = unat n - 1" using assms(5) by (simp add: unat_sub word_le_nat_alt)
  have in1: "unat (1 :: u64) < unat n" "unat (1 :: u64) < 34 \<or> unat n - 33 \<le> unat (1 :: u64)"
    and in2: "unat (n - 1) < unat n" "unat (n - 1) < 34 \<or> unat n - 33 \<le> unat (n - 1)"
    and in3: "unat (0 :: u64) < unat n" "unat (0 :: u64) < 34 \<or> unat n - 33 \<le> unat (0 :: u64)"
    using assms(5) by (auto simp: n1)
  obtain dev1 ok1 where s1: "writeSectors ops 9 dev 1 b1 = (dev1, ok1)" by (cases "writeSectors ops 9 dev 1 b1")
  obtain dev2 ok2 where s2: "writeSectors ops 9 dev1 (n - 1) b2 = (dev2, ok2)" by (cases "writeSectors ops 9 dev1 (n - 1) b2")
  obtain dev3 ok3 where s3: "writeSectors ops 9 dev2 0 b3 = (dev3, ok3)" by (cases "writeSectors ops 9 dev2 0 b3")
  obtain dev4 ok4 where s4: "bd_sync ops dev3 = (dev4, ok4)" by (cases "bd_sync ops dev3")
  note c1 = write_sector_area [OF assms(1,3) len(1) assms(6) in1 assms(5) s1]
  note c2 = write_sector_area [OF assms(1) c1(1) len(2) assms(6) in2 assms(5) s2]
  note c3 = write_sector_area [OF assms(1) c2(1) len(3) assms(6) in3 assms(5) s3]
  note c4 = raw_media.bd_sync_ok [OF assms(1) c3(1) s4]
  have "dev' \<in> {dev1, dev2, dev3, dev4}" using code s1 s2 s3 s4 by (auto split: bool.splits)
  then show ?thesis using c1 c2 c3 c4 assms(10) by (auto simp: bd_content_def)
qed

section \<open>On a reliable medium\<close>

lemma write_sector_returns:
  assumes "raw_media ops ss media" "reliable ops" "ready media ss dev" "length buf = 512" "(unat sector + 1) * 512 \<le> cache_limit ss"
  shows "\<exists>dev'. writeSectors ops 9 dev sector buf = (dev', True) \<and> ready media ss dev'"
proof -
  have "geometry_ok ss dev" using assms(3) by (simp add: ready_def bd_ok_def)
  then have "unat sector * 2 ^ 9 < 2 ^ 64" using assms(5) cache_limit_u64 [of ss dev] by simp
  then have a: "unat (push_bit 9 sector) = unat sector * 512" using unat_push_bit_small [of sector 9] by simp
  have fit: "unat (push_bit 9 sector) + length buf \<le> cache_limit ss" unfolding a using assms(4,5) by simp
  show ?thesis unfolding writeSectors_def by (rule ready_write [OF assms(1-3) fit])
qed

lemma gpt_loop_returns:
  assumes "raw_media ops ss media" "uuid_law L" "reliable ops" "(unat backup + 32) * 512 \<le> cache_limit ss" "34 * 512 \<le> cache_limit ss"
    and "m + q = 32" "ready media ss dev" "length work = 512"
  shows "\<exists>dev' work' bcc'. gpt_entries_loop L ops 9 backup dev work bcc parts (4 * q) = (dev', Some (work', bcc')) \<and>
    ready media ss dev' \<and> length work' = 512"
  using assms(6-8)
proof (induction m arbitrary: q dev work bcc parts)
  case 0
  then show ?case by (auto simp: gpt_entries_loop.simps [of L ops 9 backup dev work bcc parts] GPT_ITEMS_def)
next
  case (Suc m)
  have ul: "uuid_layout L" by unfold_locales (rule assms(2))
  let ?S = "gpt_sector L parts"
  have len: "length ?S = 512" by (rule uuid_layout.length_gpt_sector [OF ul])
  have q: "q < 32" using Suc.prems(1) by simp
  have "geometry_ok ss dev" using Suc.prems(2) by (simp add: ready_def bd_ok_def)
  then have g: "cache_limit ss < 2 ^ 64" by (rule cache_limit_u64)
  have p: "unat (2 + of_nat q :: u64) = 2 + q" using unat_plus_of_nat [of 2 q] q by simp
  have b: "unat (backup + of_nat q) = unat backup + q"
    using assms(4) g q by (intro unat_plus_of_nat) simp
  have fit: "(unat (2 + of_nat q :: u64) + 1) * 512 \<le> cache_limit ss" "(unat (backup + of_nat q) + 1) * 512 \<le> cache_limit ss"
    unfolding p b using assms(4,5) q by simp_all
  obtain dev1 where w1: "writeSectors ops 9 dev (2 + of_nat q) ?S = (dev1, True)" "ready media ss dev1"
    using write_sector_returns [OF assms(1,3) Suc.prems(2) len fit(1)] by auto
  obtain dev2 where w2: "writeSectors ops 9 dev1 (backup + of_nat q) ?S = (dev2, True)" "ready media ss dev2"
    using write_sector_returns [OF assms(1,3) w1(2) len fit(2)] by auto
  show ?case
    using Suc.IH [of "Suc q" dev2 ?S "crc32 bcc ?S" "drop 4 parts"] Suc.prems(1) w1 w2 len
      uuid_layout.gpt_entries_sector [OF ul q Suc.prems(3), of ops backup dev bcc parts] by simp
qed

lemma gpt_headers_return:
  assumes "raw_media ops ss media" "uuid_law L" "reliable ops" "ready media ss dev" "length work = 512"
    and "2 \<le> unat n" "unat n * 512 \<le> cache_limit ss" "my_lba h0 = 1" "alternate_lba h0 = n - 1"
  shows "\<exists>dev'. gpt_write_headers L ops 9 n backup dev work h0 = (dev', True) \<and> ready media ss dev'"
proof -
  have ul: "uuid_layout L" by unfold_locales (rule assms(2))
  note hl = uuid_layout.length_gpt_header [OF ul] mbr.enc_length [OF protective_mbr_wf]
  define h1 where "h1 = gpt_sign L h0"
  define h2 where "h2 = gpt_sign L (gpt_secondary_header backup h1)"
  define b1 where "b1 = patch 0 (gpt_header_bytes L h1) work"
  define b2 where "b2 = patch 0 (gpt_header_bytes L h2) b1"
  define b3 where "b3 = patch 0 (legacy_mbr_bytes (protective_mbr n)) b2"
  have len: "length b1 = 512" "length b2 = 512" "length b3 = 512" by (simp_all add: b1_def b2_def b3_def hl assms(5))
  have a: "my_lba h1 = 1" "my_lba h2 = n - 1" "alternate_lba h1 = n - 1" using assms(8,9) by (simp_all add: h1_def h2_def)
  have n1: "unat (n - 1) = unat n - 1" using assms(6) by (simp add: unat_sub word_le_nat_alt)
  have fit: "(unat (1 :: u64) + 1) * 512 \<le> cache_limit ss" "(unat (n - 1) + 1) * 512 \<le> cache_limit ss"
    "(unat (0 :: u64) + 1) * 512 \<le> cache_limit ss" using assms(6,7) n1 by simp_all
  obtain dev1 where s1: "writeSectors ops 9 dev 1 b1 = (dev1, True)" "ready media ss dev1"
    using write_sector_returns [OF assms(1,3,4) len(1) fit(1)] by auto
  obtain dev2 where s2: "writeSectors ops 9 dev1 (n - 1) b2 = (dev2, True)" "ready media ss dev2"
    using write_sector_returns [OF assms(1,3) s1(2) len(2) fit(2)] by auto
  obtain dev3 where s3: "writeSectors ops 9 dev2 0 b3 = (dev3, True)" "ready media ss dev3"
    using write_sector_returns [OF assms(1,3) s2(2) len(3) fit(3)] by auto
  obtain dev4 where "bd_sync ops dev3 = (dev4, True)" "ready media ss dev4" using ready_sync [OF assms(1,3) s3(2)] by blast
  then show ?thesis
    using s1(1) s2(1) s3(1)
    by (simp add: gpt_write_headers_def Let_def a flip: h1_def b1_def h2_def b2_def b3_def)
qed

lemma format_gpt_returns:
  assumes "raw_media ops ss media" "reliable ops" "bd_ok media ss dev" "buffers dev = Some bufs" "size_bits_law L" "uuid_law L"
    and "34 \<le> unat (sectorCount dev)" "unat (sectorCount dev) * 512 \<le> cache_limit ss" "table \<noteq> []"
    and "validate L table 2048 (gpt_region (sectorCount dev)) 512 = Some (Ret (t, Success))"
  shows "\<exists>dev'. formatDisk_gpt L ops gen (Some ws) dev pt table diskGuid = Some (Ret ((dev', t, []), Success)) \<and>
    ready media ss dev'"
proof -
  let ?n = "sectorCount dev"
  have r: "ready media ss dev" using assms(3,4) by (simp add: ready_def)
  have b: "unat (?n - 33) = unat ?n - 33" using assms(7) by (simp add: unat_sub word_le_nat_alt)
  have fit: "(unat (?n - 33) + 32) * 512 \<le> cache_limit ss" "34 * 512 \<le> cache_limit ss" "2 \<le> unat ?n"
    unfolding b using assms(7,8) by simp_all
  obtain work where work: "sb_data (sb_new (Some ws) 512 1) = Some work" "length work = 512"
    by (simp add: sb_new_def)
  obtain dev1 work1 bcc where e: "gpt_entries_loop L ops 9 (?n - 33) dev work 0 t 0 = (dev1, Some (work1, bcc))"
      "ready media ss dev1" "length work1 = 512"
    using gpt_loop_returns [OF assms(1,6,2) fit(1,2) _ r work(2), of 32 0 0 t] by auto
  obtain dev2 where "gpt_write_headers L ops 9 ?n (?n - 33) dev1 work1
      (gpt_primary_header ?n 32 (?n - 33) bcc (if uuid_isset L diskGuid then diskGuid else gen)) = (dev2, True)" "ready media ss dev2"
    using gpt_headers_return [OF assms(1,6,2) e(2,3) fit(3) assms(8), of
        "gpt_primary_header ?n 32 (?n - 33) bcc (if uuid_isset L diskGuid then diskGuid else gen)" "?n - 33"]
    by (auto simp: gpt_primary_header_def)
  then show ?thesis
    using formatDisk_gpt_steps [OF assms(5,9), of ops gen "Some ws" dev pt diskGuid] assms(10) work(1) e(1) by simp
qed

text \<open>A disk of 100 MiB with two partitions.\<close>

definition demo_guid :: uuid where
  "demo_guid = mk_uuid 0x9d4f0f3e 0x1c5b 0x4e0a 0x8a 0x7c 1 2 3 4 5 6"

definition demo_gpt_table :: "part_info list" where
  "demo_gpt_table = gpt_add_sming sming_ref demo_guid ''app'' \<lparr>ft_type = 2, ft_subtype = 1\<rparr> 0 60 null_uuid
     (gpt_add_part sming_ref demo_guid ''boot'' SysFat32 0 40 null_uuid null_uuid [])"

definition demo_gpt_placed :: "part_info list" where
  "demo_gpt_placed =
     [(part_info_new ''boot'' (data_type sming_ref SysFat32) 0x100000 0x2800000)
        \<lparr>systype := SysFat32, typeGuid := PARTITION_BASIC_DATA_GUID, uniqueGuid := demo_guid\<rparr>,
      (part_info_new ''app'' \<lparr>ft_type = 2, ft_subtype = 1\<rparr> 0x2900000 0x3AFBE00)
        \<lparr>typeGuid := SmingTypeGuid \<lparr>ft_type = 2, ft_subtype = 1\<rparr>, uniqueGuid := demo_guid\<rparr>]"

lemma demo_gpt_nonempty: "demo_gpt_table \<noteq> []"
  by (simp add: demo_gpt_table_def gpt_add_sming_def)

lemma demo_gpt_validate:
  "validate sming_ref demo_gpt_table 2048 202719 512 = Some (Ret (demo_gpt_placed, Success))"
  "validate sming_ref demo_gpt_table 2048 18446744073709550535 512 = Some Fault"
  by code_simp+

lemma sparse_gpt_region:
  "unat (sectorCount (sparse_dev 104857600)) = 204800" "gpt_region (sectorCount (sparse_dev 104857600)) = 202719"
  "gpt_region (sectorCount (sparse_dev 512000)) = 18446744073709550535"
proof -
  have "sectorCount (sparse_dev 104857600) = 204800" "sectorCount (sparse_dev 512000) = 1000"
    using sparse_dev(2) [of 104857600] sparse_dev(2) [of 512000] by (simp_all add: word_unat_eq_iff)
  then show "unat (sectorCount (sparse_dev 104857600)) = 204800" "gpt_region (sectorCount (sparse_dev 104857600)) = 202719"
    "gpt_region (sectorCount (sparse_dev 512000)) = 18446744073709550535"
    by (simp_all add: gpt_region_def)
qed

lemma demo_format_gpt:
  "\<exists>dev'. formatDisk_gpt sming_ref sparse_ops gen (Some ws) (sparse_dev 104857600) pt demo_gpt_table diskGuid
     = Some (Ret ((dev', demo_gpt_placed, []), Success))"
proof -
  obtain bufs where b: "buffers (sparse_dev 104857600) = Some bufs" using sparse_dev(3) by auto
  have lim: "34 \<le> unat (sectorCount (sparse_dev 104857600))" "unat (sectorCount (sparse_dev 104857600)) * 512 \<le> cache_limit 512"
    by (simp_all add: sparse_gpt_region cache_limit_def)
  have v: "validate sming_ref demo_gpt_table 2048 (gpt_region (sectorCount (sparse_dev 104857600))) 512
      = Some (Ret (demo_gpt_placed, Success))" by (simp only: sparse_gpt_region demo_gpt_validate(1))
  show ?thesis
    using format_gpt_returns [OF sparse_media sparse_reliable sparse_dev(1) b sming_ref_laws(1,3) lim demo_gpt_nonempty v] by blast
qed

lemma map_upt_nth: "map c [a..<a + n] = xs \<Longrightarrow> i < n \<Longrightarrow> c (a + i) = xs ! i"
  by auto

lemma gpt_header_first: "gpt_header_bytes L h ! 0 = ucast (gh_signature h)"
  by (simp add: gpt_header_bytes_def numeral_eq_Suc nth_append)

section \<open>The formatted disk\<close>

text \<open>Five areas of a disk of \<open>n\<close> sectors, and what they hold after they were written one after the other.\<close>

lemma gpt_regions:
  fixes c :: "nat \<Rightarrow> u8"
  assumes c': "c' = overwrite 0 M (overwrite ((n - 1) * 512) H2 (overwrite 512 H1 (overwrite 1024 A (overwrite ((n - 33) * 512) A c))))"
    and l: "length M = 512" "length H1 = 512" "length H2 = 512" "length A = 16384" and n: "67 \<le> n"
  shows "map c' [0..<512] = M" "map c' [512..<512 + 512] = H1" "map c' [1024..<1024 + 16384] = A"
    "map c' [(n - 33) * 512..<(n - 33) * 512 + 16384] = A" "map c' [(n - 1) * 512..<(n - 1) * 512 + 512] = H2"
proof -
  define P B S where "P = overwrite 1024 A (overwrite ((n - 33) * 512) A c)"
    and "B = overwrite 512 H1 P" and "S = overwrite ((n - 1) * 512) H2 B"
  have c': "c' = overwrite 0 M S" by (simp add: c' P_def B_def S_def)
  have far: "(n - 33) * 512 + 16384 = (n - 1) * 512" "34 * 512 \<le> (n - 33) * 512" "1024 + 16384 = (34 * 512 :: nat)"
    using n by simp_all
  have oM: "map c' [b..<b + m] = map S [b..<b + m]" if "512 \<le> b" for b m
    unfolding c' by (rule map_overwrite_other) (use that l in simp)
  have oS: "map S [b..<b + m] = map B [b..<b + m]" if "b + m \<le> (n - 1) * 512" for b m
    unfolding S_def by (rule map_overwrite_other) (use that in simp)
  have oB: "map B [b..<b + m] = map P [b..<b + m]" if "1024 \<le> b" for b m
    unfolding B_def by (rule map_overwrite_other) (use that l in simp)
  show "map c' [0..<512] = M" unfolding c' using map_overwrite [of 512 M 0 S] l(1) by simp
  show "map c' [512..<512 + 512] = H1"
  proof -
    have "map c' [512..<512 + 512] = map S [512..<512 + 512]" by (rule oM) simp
    also have "\<dots> = map B [512..<512 + 512]" by (rule oS) (use far in linarith)
    also have "\<dots> = H1" unfolding B_def by (rule map_overwrite) (simp add: l)
    finally show ?thesis .
  qed
  show "map c' [1024..<1024 + 16384] = A"
  proof -
    have "map c' [1024..<1024 + 16384] = map S [1024..<1024 + 16384]" by (rule oM) simp
    also have "\<dots> = map B [1024..<1024 + 16384]" by (rule oS) (use far in linarith)
    also have "\<dots> = map P [1024..<1024 + 16384]" by (rule oB) simp
    also have "\<dots> = A" unfolding P_def by (rule map_overwrite) (simp add: l)
    finally show ?thesis .
  qed
  show "map c' [(n - 33) * 512..<(n - 33) * 512 + 16384] = A"
  proof -
    let ?b = "(n - 33) * 512"
    have "map c' [?b..<?b + 16384] = map S [?b..<?b + 16384]" by (rule oM) (use far in linarith)
    also have "\<dots> = map B [?b..<?b + 16384]" by (rule oS) (use far in linarith)
    also have "\<dots> = map P [?b..<?b + 16384]" by (rule oB) (use far in linarith)
    also have "\<dots> = map (overwrite ?b A c) [?b..<?b + 16384]"
      unfolding P_def by (rule map_overwrite_other) (use far l in linarith)
    also have "\<dots> = A" by (rule map_overwrite) (simp add: l)
    finally show ?thesis .
  qed
  show "map c' [(n - 1) * 512..<(n - 1) * 512 + 512] = H2"
  proof -
    let ?b = "(n - 1) * 512"
    have "map c' [?b..<?b + 512] = map S [?b..<?b + 512]" by (rule oM) (use far in linarith)
    also have "\<dots> = H2" unfolding S_def by (rule map_overwrite) (simp add: l)
    finally show ?thesis .
  qed
qed

lemma formatDisk_gpt_content:
  assumes "raw_media ops ss media" "bd_ok media ss dev" "size_bits_law L" "uuid_law L"
    and "n = unat (sectorCount dev)" "67 \<le> n" "n * 512 \<le> cache_limit ss"
    and "formatDisk_gpt L ops gen mem dev pt table diskGuid = Some (Ret ((dev', pt', table'), Success))"
  shows "\<exists>t. validate L table 2048 (gpt_region (sectorCount dev)) 512 = Some (Ret (t, Success)) \<and>
    pt' = t \<and> table' = [] \<and> bd_ok media ss dev' \<and> content ss (media (raw dev')) = bd_content media ss dev' \<and>
    (let A = gpt_array L 32 t; c = bd_content media ss dev';
         h1 = gpt_sign L (gpt_primary_header (sectorCount dev) 32 (sectorCount dev - 33) (crc32 0 A)
                (if uuid_isset L diskGuid then diskGuid else gen));
         h2 = gpt_sign L (gpt_secondary_header (sectorCount dev - 33) h1)
     in map c [0..<512] = legacy_mbr_bytes (protective_mbr (sectorCount dev)) \<and>
        map c [512..<512 + 92] = gpt_header_bytes L h1 \<and>
        map c [1024..<1024 + 16384] = A \<and>
        map c [(n - 33) * 512..<(n - 33) * 512 + 16384] = A \<and>
        map c [(n - 1) * 512..<(n - 1) * 512 + 92] = gpt_header_bytes L h2 \<and>
        (\<forall>k. \<not> gpt_area n k \<longrightarrow> c k = bd_content media ss dev k))"
proof -
  have ul: "uuid_layout L" by unfold_locales (rule assms(4))
  note len = uuid_layout.length_gpt_array [OF ul] uuid_layout.length_gpt_header [OF ul]
  have tb: "table \<noteq> []" using assms(8) by (auto simp: formatDisk_gpt_def)
  let ?g = "if uuid_isset L diskGuid then diskGuid else gen" and ?n = "sectorCount dev"
  note st = formatDisk_gpt_steps [OF assms(3) tb, of ops gen mem dev pt diskGuid, unfolded assms(8)]
  obtain work t dev1 work1 bcc where mem: "sb_data (sb_new mem 512 1) = Some work"
    and t: "validate L table 2048 (gpt_region ?n) 512 = Some (Ret (t, Success))"
    and e: "gpt_entries_loop L ops 9 (?n - 33) dev work 0 t 0 = (dev1, Some (work1, bcc))"
    and h: "gpt_write_headers L ops 9 ?n (?n - 33) dev1 work1 (gpt_primary_header ?n 32 (?n - 33) bcc ?g) = (dev', True)"
    and p: "pt' = t" "table' = []"
    using st by (auto split: option.splits run.splits prod.splits if_splits bool.splits)
  have work: "length work = 512" using mem by (auto simp: sb_new_def)
  have b: "unat (?n - 33) = n - 33" using assms(5,6) by (simp add: unat_sub word_le_nat_alt)
  have e0: "gpt_entries_loop L ops 9 (?n - 33) dev work 0 t (4 * 0) = (dev1, Some (work1, bcc))" using e by simp
  have 34: "34 \<le> unat (?n - 33)" "(unat (?n - 33) + 32) * 512 \<le> cache_limit ss"
    "34 \<le> n" "2 \<le> unat ?n" "34 \<le> unat ?n" using assms(5-7) unfolding b by simp_all
  let ?A = "gpt_array L 32 t" and ?c = "bd_content media ss"
  note gc = gpt_loop_content [OF assms(1,4) 34(1,2) _ assms(2) work e0, of 32, simplified, unfolded b]
  note ga = gpt_loop_area [OF assms(1,4) 34(3) assms(7) b _ assms(2) work e0, of 32, simplified]
  have lb: "my_lba (gpt_primary_header ?n 32 (?n - 33) bcc ?g) = 1"
    "alternate_lba (gpt_primary_header ?n 32 (?n - 33) bcc ?g) = ?n - 1" by (simp_all add: gpt_primary_header_def)
  have ok1: "bd_ok media ss dev1" "length work1 = 512" "bcc = crc32 0 ?A"
    "?c dev1 = overwrite 1024 ?A (overwrite ((n - 33) * 512) ?A (?c dev))" using gc by simp_all
  have lim: "unat ?n * 512 \<le> cache_limit ss" using assms(5,7) by simp
  note hc = gpt_headers_content [OF assms(1,4) ok1(1,2) 34(4) lim lb h, folded assms(5)]
  note ha = gpt_headers_area [OF assms(1,4) ok1(1,2) 34(5) lim lb h, folded assms(5)]
  define h1 where "h1 = gpt_sign L (gpt_primary_header ?n 32 (?n - 33) (crc32 0 ?A) ?g)"
  define h2 where "h2 = gpt_sign L (gpt_secondary_header (?n - 33) h1)"
  define M where "M = legacy_mbr_bytes (protective_mbr ?n)"
  define H1 where "H1 = gpt_header_bytes L h1 @ drop 92 work1"
  define H2 where "H2 = gpt_header_bytes L h2 @ drop 92 work1"
  have l: "length M = 512" "length H1 = 512" "length H2 = 512" "length ?A = 16384"
    using mbr.enc_length [OF protective_mbr_wf] by (simp_all add: M_def H1_def H2_def len ok1(2))
  have c': "?c dev' = overwrite 0 M (overwrite ((n - 1) * 512) H2 (overwrite 512 H1
      (overwrite 1024 ?A (overwrite ((n - 33) * 512) ?A (?c dev)))))"
    using hc by (simp add: ok1(3,4) M_def H1_def H2_def h1_def h2_def)
  note regions = gpt_regions [OF c' l assms(6)]
  have head: "map f [b..<b + 92] = gpt_header_bytes L h"
    if "map f [b..<b + 512] = gpt_header_bytes L h @ drop 92 work1" for f b h
  proof -
    have "map f [b..<b + 92] = take 92 (map f [b..<b + 512])" by (simp add: take_map take_upt)
    then show ?thesis using that by (simp add: len)
  qed
  have "?c dev' k = ?c dev k" if "\<not> gpt_area n k" for k using ga ha that by simp
  then show ?thesis using t p hc regions(1,3,4) head [OF regions(2) [unfolded H1_def]] head [OF regions(5) [unfolded H2_def]]
    unfolding Let_def M_def h2_def h1_def
    by (intro exI [of _ t] conjI allI impI) blast+
qed

text \<open>The two headers, field by field.\<close>

lemma gpt_header_literals:
  "gpt_primary_header N 32 (N - 33) bcc guid =
     \<lparr>gh_signature = GPT_HEADER_SIGNATURE, gh_revision = GPT_HEADER_REVISION_V1, header_size = 92,
      header_crc32 = 0, gh_reserved1 = 0, my_lba = 1, alternate_lba = N - 1, first_usable_lba = 34,
      last_usable_lba = N - 34, disk_guid = guid, partition_entry_lba = 2, num_partition_entries = 128,
      sizeof_partition_entry = 128, partition_entry_array_crc32 = bcc\<rparr>"
  "gpt_secondary_header (N - 33) (gpt_sign L (gpt_primary_header N 32 (N - 33) bcc guid)) =
     (gpt_primary_header N 32 (N - 33) bcc guid)\<lparr>my_lba := N - 1, alternate_lba := 1, partition_entry_lba := N - 33\<rparr>"
  by (simp_all add: gpt_primary_header_def gpt_secondary_header_def gpt_sign_def GPT_HEADER_SIZE_def GPT_ITEMS_def)

section \<open>Properties\<close>

text \<open>A partition type of the framework survives its encoding in a type GUID, and \<^verbatim>\<open>match\<close> recognises
  exactly the GUIDs of this form: if it yields a type at all, the GUID is that type's.\<close>

lemma sming_guid_roundtrip:
  assumes "fulltype_law L"
  shows "SmingTypeGuid_match L (SmingTypeGuid ft) = ft \<and>
    (fulltype_isset L (SmingTypeGuid_match L guid) \<longrightarrow> guid = SmingTypeGuid (SmingTypeGuid_match L guid))"
proof -
  have "\<not> fulltype_isset L (fulltype_none L)" using assms by (simp add: fulltype_law_def)
  moreover have "guid = SmingTypeGuid \<lparr>ft_type = node0 guid, ft_subtype = node1 guid\<rparr>"
    if "sming_baseguid = guid\<lparr>node0 := 0, node1 := 0\<rparr>"
    by (simp add: SmingTypeGuid_def that)
  ultimately have "fulltype_isset L (SmingTypeGuid_match L guid) \<longrightarrow> guid = SmingTypeGuid (SmingTypeGuid_match L guid)"
    by (auto simp: SmingTypeGuid_match_def)
  moreover have "SmingTypeGuid_match L (SmingTypeGuid ft) = ft"
    by (simp add: SmingTypeGuid_match_def SmingTypeGuid_def sming_baseguid_def)
  ultimately show ?thesis by blast
qed

text \<open>C31: When \<^verbatim>\<open>formatDisk\<close> succeeds on a GPT table the disk holds, each at its place, the protective
  MBR, the signed primary header, the array of 128 entries, its identical backup and the signed secondary
  header; sectors outside of these are as before, the medium holds all of it, and the device's list of
  partitions has become the validated table.\<close>

theorem gpt_format_writes:
  assumes "raw_media ops ss media" "bd_ok media ss dev" "size_bits_law L" "uuid_law L"
    and "n = unat (sectorCount dev)" "67 \<le> n" "n * 512 \<le> cache_limit ss"
    and "formatDisk_gpt L ops gen mem dev pt table diskGuid = Some (Ret ((dev', pt', table'), Success))"
  shows "\<exists>t. validate L table 2048 (gpt_region (sectorCount dev)) 512 = Some (Ret (t, Success)) \<and>
    pt' = t \<and> table' = [] \<and> bd_ok media ss dev' \<and> content ss (media (raw dev')) = bd_content media ss dev' \<and>
    (let A = gpt_array L 32 t; c = bd_content media ss dev'; N = sectorCount dev;
         h = \<lparr>gh_signature = GPT_HEADER_SIGNATURE, gh_revision = GPT_HEADER_REVISION_V1, header_size = 92,
              header_crc32 = 0, gh_reserved1 = 0, my_lba = 1, alternate_lba = N - 1, first_usable_lba = 34,
              last_usable_lba = N - 34, disk_guid = (if uuid_isset L diskGuid then diskGuid else gen),
              partition_entry_lba = 2, num_partition_entries = 128, sizeof_partition_entry = 128,
              partition_entry_array_crc32 = crc32 0 A\<rparr>
     in map c [0..<512] = legacy_mbr_bytes (protective_mbr N) \<and>
        map c [512..<512 + 92] = gpt_header_bytes L (gpt_sign L h) \<and>
        map c [1024..<1024 + 16384] = A \<and>
        map c [(n - 33) * 512..<(n - 33) * 512 + 16384] = A \<and>
        map c [(n - 1) * 512..<(n - 1) * 512 + 92] = gpt_header_bytes L
          (gpt_sign L (h\<lparr>my_lba := N - 1, alternate_lba := 1, partition_entry_lba := N - 33\<rparr>)) \<and>
        (\<forall>k. \<not> gpt_area n k \<longrightarrow> c k = bd_content media ss dev k))"
  using formatDisk_gpt_content [OF assms] unfolding Let_def gpt_header_literals(2) unfolding gpt_header_literals(1) .

theorem gpt_format_writes_witness:
  "\<exists>dev'. formatDisk_gpt sming_ref sparse_ops demo_guid (Some []) (sparse_dev 104857600) [] demo_gpt_table null_uuid
     = Some (Ret ((dev', demo_gpt_placed, []), Success)) \<and>
   bd_content sparse_media 512 dev' 512 = 0x45 \<and> bd_content sparse_media 512 dev' 104857088 = 0x45"
proof -
  obtain dev' where f: "formatDisk_gpt sming_ref sparse_ops demo_guid (Some []) (sparse_dev 104857600) [] demo_gpt_table null_uuid
      = Some (Ret ((dev', demo_gpt_placed, []), Success))" using demo_format_gpt by blast
  let ?c = "bd_content sparse_media 512 dev'" and ?n = "sectorCount (sparse_dev 104857600)"
  have side: "67 \<le> unat ?n" "unat ?n * 512 \<le> cache_limit 512" by (simp_all add: sparse_gpt_region cache_limit_def)
  define e where "e = (unat ?n - 1) * 512"
  obtain bcc g where h: "map ?c [512..<512 + 92]
        = gpt_header_bytes sming_ref (gpt_sign sming_ref (gpt_primary_header ?n 32 (?n - 33) bcc g))"
      "map ?c [e..<e + 92] = gpt_header_bytes sming_ref (gpt_sign sming_ref
        (gpt_secondary_header (?n - 33) (gpt_sign sming_ref (gpt_primary_header ?n 32 (?n - 33) bcc g))))"
    using gpt_format_writes [OF sparse_media sparse_dev(1) sming_ref_laws(1,3) refl side f]
    unfolding Let_def e_def gpt_header_literals(1) [symmetric] unfolding gpt_header_literals(2) [where L = sming_ref, symmetric] by blast
  have "?c (512 + 0) = 0x45" "?c (e + 0) = 0x45"
    unfolding map_upt_nth [OF h(1) zero_less_numeral] map_upt_nth [OF h(2) zero_less_numeral] gpt_header_first
    by (simp_all add: gpt_sign_def gpt_secondary_header_def gpt_primary_header_def GPT_HEADER_SIGNATURE_def)
  moreover have "e = 104857088" by (simp add: e_def sparse_gpt_region)
  ultimately show ?thesis using f by simp
qed

text \<open>C32: When \<^verbatim>\<open>formatDisk\<close> reports an error for a GPT table, the device keeps its list of partitions and no
  partition is lost from the table; the device is untouched unless the error is a write failure, and then
  only the first 34 and the last 33 sectors can have changed.\<close>

theorem gpt_format_fails:
  assumes "raw_media ops ss media" "bd_ok media ss dev" "size_bits_law L" "uuid_law L"
    and "n = unat (sectorCount dev)" "34 \<le> n" "n * 512 \<le> cache_limit ss"
    and "formatDisk_gpt L ops gen mem dev pt table diskGuid = Some (Ret ((dev', pt', table'), err))" "err \<noteq> Success"
  shows "pt' = pt \<and> length table' = length table \<and> (err \<noteq> WriteFailure \<longrightarrow> dev' = dev) \<and> bd_ok media ss dev' \<and>
    (\<forall>k. \<not> gpt_area n k \<longrightarrow> bd_content media ss dev' k = bd_content media ss dev k)"
proof (cases "table = []")
  case True
  then show ?thesis using assms(2,8) by (auto simp: formatDisk_gpt_def)
next
  case False
  let ?n = "sectorCount dev" and ?g = "if uuid_isset L diskGuid then diskGuid else gen"
  note st = formatDisk_gpt_steps [OF assms(3) False, of ops gen mem dev pt diskGuid, unfolded assms(8)]
  consider "dev' = dev" "pt' = pt" "length table' = length table"
    | work t dev1 res where "sb_data (sb_new mem 512 1) = Some work"
      "validate L table 2048 (gpt_region ?n) 512 = Some (Ret (t, Success))"
      "gpt_entries_loop L ops 9 (?n - 33) dev work 0 t 0 = (dev1, res)" "pt' = pt" "table' = t" "err = WriteFailure"
      "res = None \<and> dev' = dev1 \<or> (\<exists>work1 bcc. res = Some (work1, bcc) \<and>
         gpt_write_headers L ops 9 ?n (?n - 33) dev1 work1 (gpt_primary_header ?n 32 (?n - 33) bcc ?g) = (dev', False))"
    using st assms(9) validate_length
    by (auto split: option.splits run.splits prod.splits if_splits bool.splits)
  then show ?thesis
  proof cases
    case 1
    then show ?thesis using assms(2) by simp
  next
    case (2 work t dev1 res)
    have work: "length work = 512" using 2(1) by (auto simp: sb_new_def)
    have b: "unat (?n - 33) = n - 33" using assms(5,6) by (simp add: unat_sub word_le_nat_alt)
    have e0: "gpt_entries_loop L ops 9 (?n - 33) dev work 0 t (4 * 0) = (dev1, res)" using 2(3) by simp
    note ga = gpt_loop_area [OF assms(1,4,6,7) b _ assms(2) work e0, of 32, simplified]
    have n: "34 \<le> unat ?n" "unat ?n * 512 \<le> cache_limit ss" using assms(5-7) by simp_all
    have lb: "my_lba (gpt_primary_header ?n 32 (?n - 33) bcc ?g) = 1"
      "alternate_lba (gpt_primary_header ?n 32 (?n - 33) bcc ?g) = ?n - 1" for bcc by (simp_all add: gpt_primary_header_def)
    have ha: "bd_ok media ss dev' \<and> bd_content media ss dev' k = bd_content media ss dev1 k"
      if "\<not> gpt_area n k" for k
      using 2(7) ga gpt_headers_area [OF assms(1,4) _ _ n lb, of dev1 _ "?n - 33" _ dev' False k, folded assms(5)] that
      by (elim disjE exE conjE) simp_all
    moreover have "\<not> gpt_area n (n * 512)" using assms(6) by (simp add: gpt_area_def)
    ultimately have "bd_ok media ss dev'" "\<forall>k. \<not> gpt_area n k \<longrightarrow> bd_content media ss dev' k = bd_content media ss dev1 k"
      by blast+
    then show ?thesis using 2(2,4-6) ga validate_length by auto
  qed
qed

theorem gpt_format_fails_witness:
  "formatDisk_gpt sming_ref sparse_ops demo_guid None (sparse_dev 104857600) demo_gpt_table demo_gpt_table null_uuid
     = Some (Ret ((sparse_dev 104857600, demo_gpt_table, demo_gpt_table), NoMem)) \<and>
   bd_ok sparse_media 512 (sparse_dev 104857600)"
proof -
  have f: "formatDisk_gpt sming_ref sparse_ops demo_guid None (sparse_dev 104857600) demo_gpt_table demo_gpt_table null_uuid
      = Some (Ret ((sparse_dev 104857600, demo_gpt_table, demo_gpt_table), NoMem))"
    using formatDisk_gpt_steps [OF sming_ref_laws(1) demo_gpt_nonempty, of sparse_ops demo_guid None]
    by (simp add: sb_new_def)
  show ?thesis
    using f gpt_format_fails [OF sparse_media sparse_dev(1) sming_ref_laws(1,3) refl _ _ f]
    by (simp add: cache_limit_def sparse_gpt_region)
qed

text \<open>C33: \<^verbatim>\<open>formatDisk\<close> returns and succeeds on every GPT table that passes validation, provided that memory
  is available, the medium does not fail and the device has at least 34 sectors.\<close>

theorem gpt_format_succeeds:
  assumes "raw_media ops ss media" "reliable ops" "bd_ok media ss dev" "buffers dev = Some bufs" "size_bits_law L" "uuid_law L"
    and "34 \<le> unat (sectorCount dev)" "unat (sectorCount dev) * 512 \<le> cache_limit ss" "table \<noteq> []"
    and "validate L table 2048 (gpt_region (sectorCount dev)) 512 = Some (Ret (t, Success))"
  shows "\<exists>dev'. formatDisk_gpt L ops gen (Some ws) dev pt table diskGuid = Some (Ret ((dev', t, []), Success))"
  using format_gpt_returns [OF assms] by blast

theorem gpt_format_succeeds_witness:
  "\<exists>dev'. formatDisk_gpt sming_ref sparse_ops demo_guid (Some []) (sparse_dev 104857600) demo_gpt_placed demo_gpt_table demo_guid
     = Some (Ret ((dev', demo_gpt_placed, []), Success))"
proof -
  obtain bufs where b: "buffers (sparse_dev 104857600) = Some bufs" using sparse_dev(3) by auto
  show ?thesis
    using sparse_gpt_region demo_gpt_validate(1)
    by (intro gpt_format_succeeds [OF sparse_media sparse_reliable sparse_dev(1) b sming_ref_laws(1,3) _ _ demo_gpt_nonempty])
      (simp_all add: cache_limit_def)
qed

end
