(* ===== verification/Scanner.thy ===== *)
theory Scanner
  imports Gpt
begin

text \<open>
  \<^verbatim>\<open>Scanner.cpp\<close>, \<^verbatim>\<open>Scanner.h\<close> and \<^verbatim>\<open>Disk.cpp\<close>: recognising FAT and exFAT volumes, verifying a GPT header,
  and the iterator over the partitions of a disk. The device is anything with the framework's
  \<^verbatim>\<open>Device::read\<close>, the parameter \<open>rd\<close>. Memory for the two working buffers is an argument, as before. An
  access outside of a buffer, a failed assertion and a shift by more than the width of its operand
  are \<open>Fault\<close>; \<open>None\<close> is a call that does not return.
\<close>

section \<open>Volumes\<close>

definition MAX_FAT12 :: u64 where "MAX_FAT12 = 0xFF5"

fun getLabel_length :: "u8 list \<Rightarrow> nat \<Rightarrow> nat" where
  "getLabel_length s 0 = 0"
| "getLabel_length s (Suc n) = (if s ! n = 0x20 then getLabel_length s n else Suc n)"

definition getLabel :: "u8 list \<Rightarrow> nat \<Rightarrow> string" where
  "getLabel s n = map (\<lambda>b. char_of (unat b)) (take (getLabel_length s n) s)"

fun unicode_to_oem :: "u16 list \<Rightarrow> string" where
  "unicode_to_oem [] = []"
| "unicode_to_oem (c # cs) = (if c = 0 then [] else char_of (unat (ucast c :: u8)) # unicode_to_oem cs)"

definition fat_total :: "fat_boot_sector \<Rightarrow> u32" where
  "fat_total f = (if fat_sectors f \<noteq> 0 then ucast (fat_sectors f) else total_sect f)"

definition fat_checks :: "fat_boot_sector \<Rightarrow> bool" where
  "fat_checks f \<longleftrightarrow>
     (let w = sector_size f; b = sec_per_clus f in
      w AND (w - 1) = 0 \<and> w \<ge> 512 \<and> w \<le> 4096 \<and> b \<noteq> 0 \<and> b AND (b - 1) = 0 \<and> fat_reserved f \<noteq> 0 \<and>
      int (unat (num_fats f)) - 1 \<le> 1 \<and> dir_entries f \<noteq> 0 \<and>
      (fat_sectors f \<ge> 128 \<or> total_sect f \<ge> 0x10000) \<and> fat_length f \<noteq> 0)"

definition fat_type :: "sming \<Rightarrow> full_type" where
  "fat_type L = \<lparr>ft_type = Type_data L, ft_subtype = SubType_fat L\<rparr>"

definition fat_part :: "sming \<Rightarrow> u8 list \<Rightarrow> u64 \<Rightarrow> fat_boot_sector \<Rightarrow> part_info" where
  "fat_part L label offset f =
     part_info_new (getLabel label MSDOS_NAME) (fat_type L) offset (ucast (fat_total f * ucast (sector_size f)))"

definition identify :: "sming \<Rightarrow> u8 list \<Rightarrow> u64 \<Rightarrow> part_info option run" where
  "identify L buf offset =
     (if length buf < 512 then Fault
      else
        let fat = fat_boot_of_bytes buf;
            exfat = exfat_boot_of_bytes buf;
            b = jmp_boot fat ! 0
        in if ex_signature exfat = MSDOS_MBR_SIGNATURE \<and> ex_fs_type exfat = FSTYPE_EXFAT then
             (if unat (sect_size_bits exfat) \<ge> 64 then Fault
              else Ret (Some ((part_info_new [] (fat_type L) offset
                     (push_bit (unat (sect_size_bits exfat)) (vol_length exfat)))\<lparr>systype := SysExfat\<rparr>)))
           else if b = 0xEB \<or> b = 0xE9 \<or> b = 0xE8 then
             (if fat_signature fat = MSDOS_MBR_SIGNATURE \<and> fat32_fs_type fat = FSTYPE_FAT32 then
                Ret (Some ((fat_part L (fat32_vol_label fat) offset fat)\<lparr>systype := SysFat32\<rparr>))
              else if fat_checks fat then
                let part = fat_part L (fat16_vol_label fat) offset fat;
                    numClusters = p_size part div (ucast (sector_size fat) * ucast (sec_per_clus fat))
                in Ret (Some (part\<lparr>systype := (if numClusters \<le> MAX_FAT12 then SysFat12 else SysFat16)\<rparr>))
              else Ret None)
           else Ret None)"

section \<open>The GPT header\<close>

text \<open>The checksum is taken over \<open>header_size\<close> bytes of the buffer, with the checksum field cleared.\<close>

definition verifyGptHeader :: "sming \<Rightarrow> u8 list \<Rightarrow> bool run" where
  "verifyGptHeader L buf =
     (let gpt = gpt_header_of_bytes L buf in
      if gh_signature gpt \<noteq> GPT_HEADER_SIGNATURE then Ret False
      else if gh_revision gpt \<noteq> GPT_HEADER_REVISION_V1 then Ret False
      else if header_size gpt < GPT_HEADER_SIZE then Ret False
      else if unat (header_size gpt) > length buf then Fault
      else
        let crc32_saved = header_crc32 gpt;
            cleared = patch 0 (gpt_header_bytes L (gpt\<lparr>header_crc32 := 0\<rparr>)) buf;
            bcc = crc32 0 (take (unat (header_size gpt)) cleared)
        in if bcc \<noteq> crc32_saved then Ret False
           else if sizeof_partition_entry gpt \<noteq> 128 then Ret False
           else if num_partition_entries gpt > 128 then Ret False
           else Ret True)"

section \<open>The iterator\<close>

datatype scan_state = St_idle | St_MBR | St_GPT | St_error | St_done

record scanner =
  sc_buffer :: sector_buffer
  entryBuffer :: sector_buffer
  sc_state :: scan_state
  sc_sector :: u64
  mbrEntries :: "gpt_mbr_record list"
  numPartitionEntries :: u16
  partitionIndex :: u16
  mbrPartID :: u16
  sc_sectorSize :: u16
  sc_sectorSizeShift :: u8

definition scanner_new :: scanner where
  "scanner_new = \<lparr>sc_buffer = sb_empty, entryBuffer = sb_empty, sc_state = St_idle, sc_sector = 0, mbrEntries = [],
     numPartitionEntries = 0, partitionIndex = 0, mbrPartID = 0, sc_sectorSize = 0, sc_sectorSizeShift = 0\<rparr>"

definition scanner_isset :: "scanner \<Rightarrow> bool" where
  "scanner_isset sc \<longleftrightarrow> sc_state sc \<noteq> St_error"

definition sb_bytes :: "sector_buffer \<Rightarrow> u8 list" where
  "sb_bytes b = (case sb_data b of None \<Rightarrow> [] | Some m \<Rightarrow> m)"

text \<open>\<^verbatim>\<open>READ_SECTORS\<close> of one sector into a buffer. When reading fails, the code never looks at the buffer
  again before it is read anew; here the buffer is given back only after a success.\<close>

definition read_sector :: "('d \<Rightarrow> u64 \<Rightarrow> nat \<Rightarrow> 'd \<times> u8 list option) \<Rightarrow> nat \<Rightarrow> 'd \<Rightarrow> u64 \<Rightarrow> sector_buffer
    \<Rightarrow> 'd \<times> sector_buffer option" where
  "read_sector rd shift dev sector buf =
     (case rd dev (push_bit shift sector) (push_bit shift 1) of
        (dev', None) \<Rightarrow> (dev', None)
      | (dev', Some bs) \<Rightarrow> (dev', Some (buf\<lparr>sb_data := map_option (patch 0 bs) (sb_data buf)\<rparr>)))"

text \<open>The used records of an MBR are copied to the front of \<open>mbrEntries\<close>.\<close>

fun scan_records :: "u32 \<Rightarrow> gpt_mbr_record list \<Rightarrow> gpt_mbr_record list \<Rightarrow> nat \<Rightarrow> gpt_mbr_record list \<times> nat" where
  "scan_records baseLba [] entries n = (entries, n)"
| "scan_records baseLba (rec # recs) entries n =
     (if starting_lba rec = 0 \<or> size_in_lba rec = 0 then scan_records baseLba recs entries n
      else scan_records baseLba recs (entries[n := rec\<lparr>starting_lba := starting_lba rec + baseLba\<rparr>]) (Suc n))"

definition scanMbrEntries :: "u32 \<Rightarrow> scanner \<Rightarrow> (scanner \<times> nat) run" where
  "scanMbrEntries baseLba sc =
     (if length (sb_bytes (sc_buffer sc)) < 512 then Fault
      else case scan_records baseLba (partition_record (legacy_mbr_of_bytes (sb_bytes (sc_buffer sc)))) (mbrEntries sc) 0 of
        (entries, n) \<Rightarrow> Ret (sc\<lparr>mbrEntries := entries\<rparr>, n))"

text \<open>How a round of the loop ends.\<close>

datatype loop_step = Continue | Return "part_info option"

definition mbr_part :: "sming \<Rightarrow> gpt_mbr_record \<Rightarrow> u16 \<Rightarrow> nat \<Rightarrow> u64 \<Rightarrow> part_info option \<Rightarrow> part_info" where
  "mbr_part L entry partID shift offset found =
     (let part0 = (case found of Some p \<Rightarrow> p
        | None \<Rightarrow> part_info_new [] (fulltype_none L) offset (ucast (push_bit shift (size_in_lba entry))));
          part = part0\<lparr>p_name := ''mbr'' @ num_str L (unat partID), sysind := os_type entry,
            systype := getSysTypeFromIndicator (os_type entry)\<rparr>
      in if p_type part = Type_invalid L \<and> systype part \<in> fatTypes
         then part\<lparr>p_type := Type_data L, p_subtype := SubType_fat L\<rparr> else part)"

definition mbr_step :: "sming \<Rightarrow> ('d \<Rightarrow> u64 \<Rightarrow> nat \<Rightarrow> 'd \<times> u8 list option) \<Rightarrow> 'd \<Rightarrow> scanner \<Rightarrow> ('d \<times> scanner \<times> loop_step) run" where
  "mbr_step L rd dev sc =
     (if length (mbrEntries sc) \<le> unat (partitionIndex sc) then Fault
      else
        let shift = unat (sc_sectorSizeShift sc);
            entry = mbrEntries sc ! unat (partitionIndex sc);
            sc1 = sc\<lparr>partitionIndex := partitionIndex sc + 1\<rparr>
        in case read_sector rd shift dev (ucast (starting_lba entry)) (sc_buffer sc1) of
             (dev1, None) \<Rightarrow> Ret (dev1, sc1, Continue)
           | (dev1, Some buf) \<Rightarrow>
               let sc2 = sc1\<lparr>sc_buffer := buf\<rparr> in
               if os_type entry = OSTYPE_EXTENDED then
                 (case scanMbrEntries (starting_lba entry) sc2 of
                    Fault \<Rightarrow> Fault
                  | Ret (sc3, n) \<Rightarrow> Ret (dev1, sc3\<lparr>numPartitionEntries := of_nat n, partitionIndex := 0\<rparr>, Continue))
               else
                 let sc3 = sc2\<lparr>mbrPartID := mbrPartID sc2 + 1\<rparr>;
                     offset = ucast (push_bit shift (starting_lba entry)) :: u64
                 in (case identify L (sb_bytes buf) offset of
                       Fault \<Rightarrow> Fault
                     | Ret found \<Rightarrow> Ret (dev1, sc3, Return (Some (mbr_part L entry (mbrPartID sc3) shift offset found)))))"

definition gpt_scan_part :: "gpt_entry \<Rightarrow> part_info \<Rightarrow> part_info" where
  "gpt_scan_part entry part =
     part\<lparr>typeGuid := partition_type_guid entry, uniqueGuid := unique_partition_guid entry,
       p_name := unicode_to_oem (partition_name entry)\<rparr>"

text \<open>The entry of the round: its sector is read when it is the first of four.\<close>

definition gpt_fetch :: "('d \<Rightarrow> u64 \<Rightarrow> nat \<Rightarrow> 'd \<times> u8 list option) \<Rightarrow> 'd \<Rightarrow> scanner \<Rightarrow> 'd \<times> scanner option" where
  "gpt_fetch rd dev sc =
     (if partitionIndex sc mod (sc_sectorSize sc div 128) \<noteq> 0 then (dev, Some sc)
      else case read_sector rd (unat (sc_sectorSizeShift sc)) dev (sc_sector sc) (sc_buffer sc) of
             (dev1, None) \<Rightarrow> (dev1, None)
           | (dev1, Some buf) \<Rightarrow> (dev1, Some (sc\<lparr>sc_buffer := buf, sc_sector := sc_sector sc + 1\<rparr>)))"

definition gpt_step :: "sming \<Rightarrow> ('d \<Rightarrow> u64 \<Rightarrow> nat \<Rightarrow> 'd \<times> u8 list option) \<Rightarrow> 'd \<Rightarrow> scanner \<Rightarrow> ('d \<times> scanner \<times> loop_step) run" where
  "gpt_step L rd dev sc =
     (case gpt_fetch rd dev sc of
        (dev1, None) \<Rightarrow> Ret (dev1, sc\<lparr>sc_sector := sc_sector sc + 1, sc_state := St_error\<rparr>, Return None)
      | (dev1, Some sc1) \<Rightarrow>
          let i = unat (partitionIndex sc mod (sc_sectorSize sc div 128));
              shift = unat (sc_sectorSizeShift sc)
          in if length (sb_bytes (sc_buffer sc1)) < (i + 1) * 128 then Fault
             else
               let entry = gpt_entry_of_bytes L (drop (i * 128) (sb_bytes (sc_buffer sc1)));
                   sc2 = sc1\<lparr>partitionIndex := partitionIndex sc1 + 1\<rparr>;
                   offset = push_bit shift (ge_starting_lba entry);
                   sz = push_bit shift (1 + ge_ending_lba entry - ge_starting_lba entry);
                   fulltype = SmingTypeGuid_match L (partition_type_guid entry)
               in if \<not> uuid_isset L (partition_type_guid entry) then Ret (dev1, sc2, Continue)
                  else if fulltype_isset L fulltype then
                    Ret (dev1, sc2, Return (Some (gpt_scan_part entry (part_info_new [] fulltype offset sz))))
                  else
                    (case read_sector rd shift dev1 (ge_starting_lba entry) (entryBuffer sc2) of
                       (dev2, None) \<Rightarrow> Ret (dev2, sc2, Continue)
                     | (dev2, Some buf) \<Rightarrow>
                         (case identify L (sb_bytes buf) offset of
                            Fault \<Rightarrow> Fault
                          | Ret found \<Rightarrow> Ret (dev2, sc2\<lparr>entryBuffer := buf\<rparr>, Return (Some (gpt_scan_part entry
                              (case found of Some p \<Rightarrow> p | None \<Rightarrow> part_info_new [] (fulltype_none L) offset sz)))))))"

definition scan_step :: "sming \<Rightarrow> ('d \<Rightarrow> u64 \<Rightarrow> nat \<Rightarrow> 'd \<times> u8 list option) \<Rightarrow> 'd \<Rightarrow> scanner \<Rightarrow> ('d \<times> scanner \<times> loop_step) run" where
  "scan_step L rd dev sc =
     (if sc_state sc = St_MBR then mbr_step L rd dev sc
      else if sc_state sc = St_GPT then gpt_step L rd dev sc
      else Fault)"

text \<open>The loop of \<^verbatim>\<open>next\<close>.\<close>

partial_function (option) next_loop :: "sming \<Rightarrow> ('d \<Rightarrow> u64 \<Rightarrow> nat \<Rightarrow> 'd \<times> u8 list option) \<Rightarrow> 'd \<Rightarrow> scanner
    \<Rightarrow> ('d \<times> scanner \<times> part_info option) run option" where
  "next_loop L rd dev sc =
     (if \<not> partitionIndex sc < numPartitionEntries sc then Some (Ret (dev, sc\<lparr>sc_state := St_done\<rparr>, None))
      else case scan_step L rd dev sc of
             Fault \<Rightarrow> Some Fault
           | Ret (dev1, sc1, Continue) \<Rightarrow> next_loop L rd dev1 sc1
           | Ret (dev1, sc1, Return r) \<Rightarrow> Some (Ret (dev1, sc1, r)))"

declare next_loop.simps [code]

text \<open>The first call: sector 0, and for GPT the header. \<open>Continue\<close> enters the loop.\<close>

definition scan_gpt_start :: "sming \<Rightarrow> ('d \<Rightarrow> u64 \<Rightarrow> nat \<Rightarrow> 'd \<times> u8 list option) \<Rightarrow> u8 list option \<Rightarrow> 'd \<Rightarrow> scanner
    \<Rightarrow> ('d \<times> scanner \<times> loop_step) run" where
  "scan_gpt_start L rd mem dev sc =
     (case read_sector rd (unat (sc_sectorSizeShift sc)) dev GPT_PRIMARY_PARTITION_TABLE_LBA (sc_buffer sc) of
        (dev1, None) \<Rightarrow> Ret (dev1, sc\<lparr>sc_state := St_error\<rparr>, Return None)
      | (dev1, Some buf) \<Rightarrow>
          let sc1 = sc\<lparr>sc_buffer := buf\<rparr>; gpt = gpt_header_of_bytes L (sb_bytes buf)
          in (case verifyGptHeader L (sb_bytes buf) of
                Fault \<Rightarrow> Fault
              | Ret False \<Rightarrow> Ret (dev1, sc1\<lparr>sc_state := St_error\<rparr>, Return None)
              | Ret True \<Rightarrow>
                  let sc2 = sc1\<lparr>numPartitionEntries := ucast (num_partition_entries gpt),
                        sc_sector := partition_entry_lba gpt, partitionIndex := 0,
                        entryBuffer := sb_new mem (unat (sc_sectorSize sc1)) 1\<rparr>
                  in if \<not> sb_isset (entryBuffer sc2) then Ret (dev1, sc2\<lparr>sc_state := St_error\<rparr>, Return None)
                     else Ret (dev1, sc2\<lparr>sc_state := St_GPT\<rparr>, Continue)))"

definition scan_start :: "sming \<Rightarrow> ('d \<Rightarrow> u64 \<Rightarrow> nat \<Rightarrow> 'd \<times> u8 list option) \<Rightarrow> u8 list option \<Rightarrow> u8 list option
    \<Rightarrow> gpt_mbr_record list \<Rightarrow> 'd \<Rightarrow> scanner \<Rightarrow> ('d \<times> scanner \<times> loop_step) run" where
  "scan_start L rd mem1 mem2 fresh dev sc =
     (let sc0 = sc\<lparr>sc_sectorSize := of_nat DISK_MAX_SECTOR_SIZE,
            sc_sectorSizeShift := of_nat (getSizeBits L DISK_MAX_SECTOR_SIZE),
            sc_buffer := sb_new mem1 DISK_MAX_SECTOR_SIZE 1\<rparr>
      in if \<not> sb_isset (sc_buffer sc0) then Ret (dev, sc0, Return None)
         else case read_sector rd (unat (sc_sectorSizeShift sc0)) dev 0 (sc_buffer sc0) of
           (dev1, None) \<Rightarrow> Ret (dev1, sc0\<lparr>sc_state := St_error\<rparr>, Return None)
         | (dev1, Some buf) \<Rightarrow>
             let sc1 = sc0\<lparr>sc_buffer := buf\<rparr>; mbr = legacy_mbr_of_bytes (sb_bytes buf)
             in (case identify L (sb_bytes buf) 0 of
                   Fault \<Rightarrow> Fault
                 | Ret (Some part) \<Rightarrow> Ret (dev1, sc1\<lparr>sc_state := St_done\<rparr>, Return (Some part))
                 | Ret None \<Rightarrow>
                     if mbr_signature mbr \<noteq> MSDOS_MBR_SIGNATURE then Ret (dev1, sc1, Return None)
                     else if os_type (partition_record mbr ! 0) = EFI_PMBR_OSTYPE_EFI_GPT then scan_gpt_start L rd mem2 dev1 sc1
                     else
                       (case scanMbrEntries 0 (sc1\<lparr>mbrEntries := take 4 (fresh @ replicate 4 no_record)\<rparr>) of
                          Fault \<Rightarrow> Fault
                        | Ret (sc2, n) \<Rightarrow> Ret (dev1, sc2\<lparr>numPartitionEntries := of_nat n, sc_state := St_MBR\<rparr>, Continue))))"

text \<open>\<^verbatim>\<open>Scanner::next\<close>; \<open>fresh\<close> is what \<^verbatim>\<open>new gpt_mbr_record_t[4]\<close> holds.\<close>

definition scanner_next :: "sming \<Rightarrow> ('d \<Rightarrow> u64 \<Rightarrow> nat \<Rightarrow> 'd \<times> u8 list option) \<Rightarrow> u8 list option \<Rightarrow> u8 list option
    \<Rightarrow> gpt_mbr_record list \<Rightarrow> 'd \<Rightarrow> scanner \<Rightarrow> ('d \<times> scanner \<times> part_info option) run option" where
  "scanner_next L rd mem1 mem2 fresh dev sc =
     (if sc_state sc = St_idle then
        (case scan_start L rd mem1 mem2 fresh dev sc of
           Fault \<Rightarrow> Some Fault
         | Ret (dev1, sc1, Return r) \<Rightarrow> Some (Ret (dev1, sc1, r))
         | Ret (dev1, sc1, Continue) \<Rightarrow> next_loop L rd dev1 sc1)
      else next_loop L rd dev sc)"

section \<open>scanPartitions\<close>

definition named :: "sming \<Rightarrow> part_info \<Rightarrow> part_info" where
  "named L part =
     (if length (p_name part) = 0 \<and> uuid_isset L (uniqueGuid part) then part\<lparr>p_name := uuid_str L (uniqueGuid part)\<rparr> else part)"

partial_function (option) scan_loop :: "sming \<Rightarrow> ('d \<Rightarrow> u64 \<Rightarrow> nat \<Rightarrow> 'd \<times> u8 list option) \<Rightarrow> u8 list option \<Rightarrow> u8 list option
    \<Rightarrow> gpt_mbr_record list \<Rightarrow> 'd \<Rightarrow> scanner \<Rightarrow> part_info list \<Rightarrow> ('d \<times> part_info list \<times> bool) run option" where
  "scan_loop L rd mem1 mem2 fresh dev sc pt =
     (case scanner_next L rd mem1 mem2 fresh dev sc of
        None \<Rightarrow> None
      | Some Fault \<Rightarrow> Some Fault
      | Some (Ret (dev1, sc1, None)) \<Rightarrow> Some (Ret (dev1, pt, scanner_isset sc1))
      | Some (Ret (dev1, sc1, Some part)) \<Rightarrow> scan_loop L rd mem1 mem2 fresh dev1 sc1 (pt @ [named L part]))"

declare scan_loop.simps [code]

definition scanPartitions :: "sming \<Rightarrow> ('d \<Rightarrow> u64 \<Rightarrow> nat \<Rightarrow> 'd \<times> u8 list option) \<Rightarrow> u8 list option \<Rightarrow> u8 list option
    \<Rightarrow> gpt_mbr_record list \<Rightarrow> 'd \<Rightarrow> ('d \<times> part_info list \<times> bool) run option" where
  "scanPartitions L rd mem1 mem2 fresh dev = scan_loop L rd mem1 mem2 fresh dev scanner_new []"

end
