(* ===== verification/ScanRun.thy ===== *)
theory ScanRun
  imports Scanner
begin

text \<open>
  How the scanner runs on a disk whose content can be read: the interface \<open>reliable_disk\<close> and the block
  devices that provide it, one round of the loops of \<^verbatim>\<open>next\<close> and \<^verbatim>\<open>scanPartitions\<close>, the invariant rules of both loops, and the
  first sector.
\<close>

section \<open>Disks that can be read\<close>

definition sector_of :: "(nat \<Rightarrow> u8) \<Rightarrow> nat \<Rightarrow> u8 list" where
  "sector_of c k = map c [k * 512..<k * 512 + 512]"

lemma length_sector_of [simp]: "length (sector_of c k) = 512"
  by (simp add: sector_of_def)

text \<open>A readable disk on which reading does not fail within the addressable range.\<close>

locale reliable_disk = readable_disk +
  assumes rd_total: "ok s \<Longrightarrow> unat a + n \<le> lim \<Longrightarrow> \<exists>s' bs. rd s a n = (s', Some bs)"
    and lim_u64: "lim < 2 ^ 64"
begin

lemma read_ok:
  assumes "ok s" "unat a + n \<le> lim"
  shows "\<exists>s'. rd s a n = (s', Some (map (bytes s) [unat a..<unat a + n])) \<and> ok s' \<and> bytes s' = bytes s"
proof -
  obtain s' bs where r: "rd s a n = (s', Some bs)" using rd_total [OF assms] by blast
  then show ?thesis using rd_data [OF assms r] rd_frame [OF assms r] by simp
qed

lemma read_sector_ok:
  assumes "ok s" "(unat sector + 1) * 512 \<le> lim" "length (sb_bytes buf) = 512"
  shows "\<exists>s' buf'. read_sector rd 9 s sector buf = (s', Some buf') \<and> sb_bytes buf' = sector_of (bytes s) (unat sector) \<and>
    ok s' \<and> bytes s' = bytes s"
proof -
  have a: "unat (push_bit 9 sector) = unat sector * 512"
    using unat_push_bit_small [of sector 9] assms(2) lim_u64 by simp
  have fit: "unat (push_bit 9 sector) + push_bit 9 1 \<le> lim" unfolding a using assms(2) by (simp add: push_bit_eq_mult)
  obtain s' where r: "rd s (push_bit 9 sector) (push_bit 9 1) = (s', Some (sector_of (bytes s) (unat sector)))"
    "ok s'" "bytes s' = bytes s"
    using read_ok [OF assms(1) fit] unfolding a by (auto simp: sector_of_def push_bit_eq_mult)
  obtain m where m: "sb_data buf = Some m" "length m = 512"
    using assms(3) by (cases "sb_data buf") (auto simp: sb_bytes_def)
  show ?thesis using r m by (auto simp: read_sector_def sb_bytes_def)
qed

end

text \<open>A block device with buffers over a medium that does not fail is one.\<close>

lemma ready_disk:
  assumes "raw_media ops ss media" "reliable ops" "cache_limit ss < 2 ^ 64"
  shows "reliable_disk (bd_read ops) (ready media ss) (bd_content media ss) (cache_limit ss)"
proof
  fix s a n s' r
  assume s: "ready media ss s" "unat a + n \<le> cache_limit ss" "bd_read ops s a n = (s', r)"
  then have b: "bd_ok media ss s" "buffers s \<noteq> None" by (simp_all add: ready_def)
  have "bd_ok media ss s' \<and> same_shape s s' \<and> bd_content media ss s' = bd_content media ss s"
    using raw_media.bd_read_ok [OF assms(1) b(1) s(2,3)] by (simp add: bd_content_def)
  then show "ready media ss s' \<and> bd_content media ss s' = bd_content media ss s"
    using same_shape_Some b(2) by (auto simp: ready_def)
next
  fix s a n s' bs
  assume s: "ready media ss s" "unat a + n \<le> cache_limit ss" "bd_read ops s a n = (s', Some bs)"
  then show "bs = map (bd_content media ss s) [unat a..<unat a + n]"
    using raw_media.bd_read_ok [OF assms(1) _ s(2,3)] by (simp add: ready_def)
next
  fix s and a :: u64 and n
  assume s: "ready media ss s"
  then obtain bufs where b: "buffers s = Some bufs" and g: "geometry_ok ss s" by (auto simp: ready_def bd_ok_def)
  have "snd (bd_read ops s a n) \<noteq> None" by (rule transfers_reliable [OF assms(2) g b])
  then obtain d bs where "bd_read ops s a n = (d, Some bs)" by (cases "bd_read ops s a n") auto
  then show "\<exists>s' bs. bd_read ops s a n = (s', Some bs)" by blast
next
  show "cache_limit ss < 2 ^ 64" by (rule assms(3))
qed

interpretation sparse_disk: reliable_disk "bd_read sparse_ops" "ready sparse_media 512" "bd_content sparse_media 512" "cache_limit 512"
  by (rule ready_disk [OF sparse_media sparse_reliable]) (simp add: cache_limit_def)

section \<open>Rounds of the scan\<close>

text \<open>\<^verbatim>\<open>scanPartitions\<close> calls \<^verbatim>\<open>next\<close>, which loops: together they take one round after the other.\<close>

lemma scanMbrEntries_state: "scanMbrEntries b sc = Ret (sc', n) \<Longrightarrow> sc_state sc' = sc_state sc"
  by (auto simp: scanMbrEntries_def split: if_splits prod.splits)

lemma mbr_step_state: "mbr_step L rd dev sc = Ret (dev', sc', r) \<Longrightarrow> sc_state sc' = sc_state sc"
  by (auto simp: mbr_step_def Let_def split: if_splits prod.splits option.splits run.splits dest!: scanMbrEntries_state)

lemma gpt_step_state: "gpt_step L rd dev sc = Ret (dev', sc', r) \<Longrightarrow> r \<noteq> Return None \<Longrightarrow> sc_state sc' = sc_state sc"
  by (auto simp: gpt_step_def gpt_fetch_def Let_def split: if_splits prod.splits option.splits run.splits)

lemma scan_step_state: "scan_step L rd dev sc = Ret (dev', sc', r) \<Longrightarrow> r \<noteq> Return None \<Longrightarrow> sc_state sc' = sc_state sc"
  by (auto simp: scan_step_def split: if_splits dest: mbr_step_state gpt_step_state)

lemma scan_loop_round:
  assumes "sc_state sc \<noteq> St_idle"
  shows "scan_loop L rd m1 m2 fresh dev sc pt =
    (if \<not> partitionIndex sc < numPartitionEntries sc then Some (Ret (dev, pt, True))
     else case scan_step L rd dev sc of
            Fault \<Rightarrow> Some Fault
          | Ret (dev1, sc1, Continue) \<Rightarrow> scan_loop L rd m1 m2 fresh dev1 sc1 pt
          | Ret (dev1, sc1, Return None) \<Rightarrow> Some (Ret (dev1, pt, scanner_isset sc1))
          | Ret (dev1, sc1, Return (Some part)) \<Rightarrow> scan_loop L rd m1 m2 fresh dev1 sc1 (pt @ [named L part]))"
proof -
  have nx: "scanner_next L rd m1 m2 fresh dev sc = next_loop L rd dev sc"
    if "sc_state sc \<noteq> St_idle" for dev sc using that by (simp add: scanner_next_def)
  show ?thesis
  proof (cases "partitionIndex sc < numPartitionEntries sc")
    case False
    then show ?thesis using assms
      by (simp add: scan_loop.simps [of L rd m1 m2 fresh dev sc] nx next_loop.simps [of L rd dev sc] scanner_isset_def)
  next
    case True
    note unfold = scan_loop.simps [of L rd m1 m2 fresh dev sc pt] nx [OF assms] next_loop.simps [of L rd dev sc]
    show ?thesis
    proof (cases "scan_step L rd dev sc")
      case Fault
      then show ?thesis using True by (simp add: unfold)
    next
      case (Ret x)
      then obtain dev1 sc1 r where x: "scan_step L rd dev sc = Ret (dev1, sc1, r)" by (cases x) auto
      show ?thesis
      proof (cases r)
        case Continue
        then have "sc_state sc1 \<noteq> St_idle" using scan_step_state [OF x] assms by simp
        then show ?thesis using True x Continue
          by (simp add: unfold nx scan_loop.simps [of L rd m1 m2 fresh dev1 sc1])
      next
        case (Return q)
        then show ?thesis using True x by (cases q) (simp_all add: unfold)
      qed
    qed
  qed
qed

lemma scan_loop_start:
  assumes "sc_state sc = St_idle" "scan_start L rd m1 m2 fresh dev sc = Ret (dev1, sc1, r)"
    and "r = Continue \<Longrightarrow> sc_state sc1 \<noteq> St_idle"
  shows "scan_loop L rd m1 m2 fresh dev sc pt =
    (case r of
       Continue \<Rightarrow> scan_loop L rd m1 m2 fresh dev1 sc1 pt
     | Return None \<Rightarrow> Some (Ret (dev1, pt, scanner_isset sc1))
     | Return (Some part) \<Rightarrow> scan_loop L rd m1 m2 fresh dev1 sc1 (pt @ [named L part]))"
proof (cases r)
  case Continue
  then show ?thesis using assms
    by (simp add: scan_loop.simps [of L rd m1 m2 fresh dev sc] scanner_next_def scan_loop.simps [of L rd m1 m2 fresh dev1 sc1])
next
  case (Return q)
  then show ?thesis using assms
    by (cases q) (simp_all add: scan_loop.simps [of L rd m1 m2 fresh dev sc] scanner_next_def)
qed

section \<open>The first sector\<close>

lemma size_bits_512: "size_bits_law L \<Longrightarrow> getSizeBits L 512 = 9"
  using spec [of "\<lambda>k. k < 32 \<longrightarrow> getSizeBits L (2 ^ k) = k" 9] by (simp add: size_bits_law_def)

lemma sb_new_sector [simp]:
  "sb_isset (sb_new (Some w) n k)" "length (sb_bytes (sb_new (Some w) n k)) = n * k"
  by (simp_all add: sb_isset_def sb_bytes_def sb_new_def)

text \<open>The scanner when sector 0 has been read into \<open>buf\<close>.\<close>

definition primed :: "sector_buffer \<Rightarrow> scanner" where
  "primed buf = \<lparr>sc_buffer = buf, entryBuffer = sb_empty, sc_state = St_idle, sc_sector = 0, mbrEntries = [],
     numPartitionEntries = 0, partitionIndex = 0, mbrPartID = 0, sc_sectorSize = 512, sc_sectorSizeShift = 9\<rparr>"

lemma scan_start_code:
  assumes "size_bits_law L" "read_sector rd 9 dev 0 (sb_new (Some w1) 512 1) = (d, r)"
  shows "scan_start L rd (Some w1) m2 fresh dev scanner_new =
    (case r of
       None \<Rightarrow> Ret (d, (primed (sb_new (Some w1) 512 1))\<lparr>sc_state := St_error\<rparr>, Return None)
     | Some buf \<Rightarrow>
         let mbr = legacy_mbr_of_bytes (sb_bytes buf) in
         (case identify L (sb_bytes buf) 0 of
            Fault \<Rightarrow> Fault
          | Ret (Some part) \<Rightarrow> Ret (d, (primed buf)\<lparr>sc_state := St_done\<rparr>, Return (Some part))
          | Ret None \<Rightarrow>
              if mbr_signature mbr \<noteq> MSDOS_MBR_SIGNATURE then Ret (d, primed buf, Return None)
              else if os_type (partition_record mbr ! 0) = EFI_PMBR_OSTYPE_EFI_GPT then scan_gpt_start L rd m2 d (primed buf)
              else (case scanMbrEntries 0 ((primed buf)\<lparr>mbrEntries := take 4 (fresh @ replicate 4 no_record)\<rparr>) of
                      Fault \<Rightarrow> Fault
                    | Ret (sc2, n) \<Rightarrow> Ret (d, sc2\<lparr>numPartitionEntries := of_nat n, sc_state := St_MBR\<rparr>, Continue))))"
proof -
  have w: "(of_nat 512 :: u16) = 512" "(of_nat 9 :: u8) = 9" "unat (9 :: u8) = 9" by simp_all
  have p: "scanner_new\<lparr>sc_sectorSize := 512, sc_sectorSizeShift := 9, sc_buffer := buf\<rparr> = primed buf" for buf
    by (simp add: scanner_new_def primed_def)
  show ?thesis
    unfolding scan_start_def DISK_MAX_SECTOR_SIZE_def size_bits_512 [OF assms(1)] Let_def w p [symmetric]
    by (simp add: assms(2) del: One_nat_def split: run.split option.split)
qed

lemma scan_start_none: "scan_start L rd None m2 fresh dev scanner_new = Ret (dev, scanner_new
    \<lparr>sc_sectorSize := of_nat DISK_MAX_SECTOR_SIZE, sc_sectorSizeShift := of_nat (getSizeBits L DISK_MAX_SECTOR_SIZE),
     sc_buffer := sb_new None DISK_MAX_SECTOR_SIZE 1\<rparr>, Return None)"
  by (simp add: scan_start_def Let_def sb_isset_def sb_new_def)

section \<open>Invariants of the iterator\<close>

text \<open>A round keeps the invariant \<open>I\<close> of the scanner and reports only partitions with the property \<open>Q\<close>; so do calls of
  \<^verbatim>\<open>next\<close> and the whole scan. \<open>may_fault\<close> says whether bad accesses are excluded as well.\<close>

fun step_keeps :: "(scanner \<Rightarrow> bool) \<Rightarrow> (part_info \<Rightarrow> bool) \<Rightarrow> bool \<Rightarrow> ('d \<times> scanner \<times> loop_step) run \<Rightarrow> bool" where
  "step_keeps I Q may_fault Fault \<longleftrightarrow> may_fault"
| "step_keeps I Q may_fault (Ret (d, sc, Continue)) \<longleftrightarrow> I sc"
| "step_keeps I Q may_fault (Ret (d, sc, Return None)) \<longleftrightarrow> True"
| "step_keeps I Q may_fault (Ret (d, sc, Return (Some p))) \<longleftrightarrow> I sc \<and> Q p"

fun next_keeps :: "(scanner \<Rightarrow> bool) \<Rightarrow> (part_info \<Rightarrow> bool) \<Rightarrow> bool \<Rightarrow> ('d \<times> scanner \<times> part_info option) run \<Rightarrow> bool" where
  "next_keeps I Q may_fault Fault \<longleftrightarrow> may_fault"
| "next_keeps I Q may_fault (Ret (d, sc, None)) \<longleftrightarrow> True"
| "next_keeps I Q may_fault (Ret (d, sc, Some p)) \<longleftrightarrow> I sc \<and> Q p"

lemma step_keeps_RetI:
  assumes "q \<noteq> Return None \<Longrightarrow> I sc" "\<And>p. q = Return (Some p) \<Longrightarrow> Q p"
  shows "step_keeps I Q f (Ret (d, sc, q))"
proof (cases q)
  case (Return p)
  then show ?thesis using assms by (cases p) simp_all
qed (use assms in simp)

lemma step_keepsI:
  "\<exists>d sc q. x = Ret (d, sc, q) \<and> (q \<noteq> Return None \<longrightarrow> I sc) \<Longrightarrow> step_keeps I (\<lambda>_. True) f x"
  by (elim exE conjE ssubst, rule step_keeps_RetI) simp_all

lemma next_loop_rule:
  assumes "next_loop L rd dev sc = Some r" "I sc"
    and step: "\<And>dev sc. I sc \<Longrightarrow> partitionIndex sc < numPartitionEntries sc \<Longrightarrow> step_keeps I Q f (scan_step L rd dev sc)"
  shows "next_keeps I Q f r"
proof -
  have "L' = L \<longrightarrow> rd' = rd \<longrightarrow> I sc \<longrightarrow> next_keeps I Q f r" if "next_loop L' rd' dev sc = Some r" for L' rd' dev sc r
    using _ that
  proof (rule next_loop.raw_induct [where P = "\<lambda>L' rd' dev sc r. L' = L \<longrightarrow> rd' = rd \<longrightarrow> I sc \<longrightarrow> next_keeps I Q f r"])
    fix rec and L' and rd' :: "'a \<Rightarrow> u64 \<Rightarrow> nat \<Rightarrow> 'a \<times> u8 list option" and dev sc r
    assume ih: "\<And>L' rd' dev sc r. rec L' rd' dev sc = Some r \<Longrightarrow> L' = L \<longrightarrow> rd' = rd \<longrightarrow> I sc \<longrightarrow> next_keeps I Q f r"
      and body: "(if \<not> partitionIndex sc < numPartitionEntries sc then Some (Ret (dev, sc\<lparr>sc_state := St_done\<rparr>, None))
        else case scan_step L' rd' dev sc of Ret (dev1, sc1, Continue) \<Rightarrow> rec L' rd' dev1 sc1
          | Ret (dev1, sc1, Return r) \<Rightarrow> Some (Ret (dev1, sc1, r)) | Fault \<Rightarrow> Some Fault) = Some r"
    show "L' = L \<longrightarrow> rd' = rd \<longrightarrow> I sc \<longrightarrow> next_keeps I Q f r"
    proof (intro impI)
      assume s: "L' = L" "rd' = rd" "I sc"
      show "next_keeps I Q f r"
      proof (cases "partitionIndex sc < numPartitionEntries sc")
        case False
        then show ?thesis using body by auto
      next
        case True
        note st = step [OF s(3) True, of dev]
        show ?thesis
        proof (cases "scan_step L rd dev sc")
          case Fault
          then show ?thesis using st body True s(1,2) by auto
        next
          case (Ret x)
          then obtain d sc1 q where x: "scan_step L rd dev sc = Ret (d, sc1, q)" by (cases x) auto
          show ?thesis
          proof (cases q)
            case Continue
            then show ?thesis using x st body True s ih [of L rd d sc1 r] by simp
          next
            case (Return p)
            then show ?thesis using x st body True s(1,2) by (cases p) auto
          qed
        qed
      qed
    qed
  qed
  then show ?thesis using assms(1,2) by blast
qed

lemma scanner_next_rule:
  assumes "scanner_next L rd m1 m2 fresh dev sc = Some r" "I sc \<and> sc_state sc \<noteq> St_idle \<or> sc = scanner_new"
    and step: "\<And>dev sc. I sc \<Longrightarrow> partitionIndex sc < numPartitionEntries sc \<Longrightarrow> step_keeps I Q f (scan_step L rd dev sc)"
    and start: "step_keeps I Q f (scan_start L rd m1 m2 fresh dev scanner_new)"
  shows "next_keeps I Q f r"
proof (cases "sc_state sc = St_idle")
  case False
  then have "next_loop L rd dev sc = Some r" "I sc" using assms(1,2) by (auto simp: scanner_next_def scanner_new_def)
  then show ?thesis using next_loop_rule [OF _ _ step] by blast
next
  case True
  then have sc: "sc = scanner_new" using assms(2) by auto
  show ?thesis
  proof (cases "scan_start L rd m1 m2 fresh dev scanner_new")
    case Fault
    then show ?thesis using assms(1) start by (auto simp: scanner_next_def sc scanner_new_def)
  next
    case (Ret x)
    then obtain d sc1 q where x: "scan_start L rd m1 m2 fresh dev scanner_new = Ret (d, sc1, q)" by (cases x) auto
    have idle: "sc_state scanner_new = St_idle" by (simp add: scanner_new_def)
    show ?thesis
    proof (cases q)
      case Continue
      then have "next_loop L rd d sc1 = Some r" "I sc1" using assms(1) x start idle by (auto simp: scanner_next_def sc)
      then show ?thesis using next_loop_rule [OF _ _ step] by blast
    next
      case (Return p)
      then show ?thesis using assms(1) x start idle by (cases p) (auto simp: scanner_next_def sc)
    qed
  qed
qed

lemma scan_loop_rule:
  assumes "scan_loop L rd m1 m2 fresh dev sc pt = Some r" "I sc \<or> sc = scanner_new" "\<forall>p \<in> set pt. Q' p"
    and step: "\<And>dev sc. I sc \<Longrightarrow> partitionIndex sc < numPartitionEntries sc \<Longrightarrow> step_keeps I Q f (scan_step L rd dev sc)"
    and start: "\<And>dev. step_keeps I Q f (scan_start L rd m1 m2 fresh dev scanner_new)"
    and busy: "\<And>sc. I sc \<Longrightarrow> sc_state sc \<noteq> St_idle" and name: "\<And>p. Q p \<Longrightarrow> Q' (named L p)"
  shows "case r of Fault \<Rightarrow> f | Ret (d, ps, b) \<Rightarrow> \<forall>p \<in> set ps. Q' p"
proof -
  have "L' = L \<longrightarrow> rd' = rd \<longrightarrow> n1 = m1 \<longrightarrow> n2 = m2 \<longrightarrow> fr = fresh \<longrightarrow> I sc \<or> sc = scanner_new \<longrightarrow> (\<forall>p \<in> set pt. Q' p) \<longrightarrow>
      (case r of Fault \<Rightarrow> f | Ret (d, ps, b) \<Rightarrow> \<forall>p \<in> set ps. Q' p)"
    if "scan_loop L' rd' n1 n2 fr dev sc pt = Some r" for L' rd' n1 n2 fr dev sc pt r
    using _ that
  proof (rule scan_loop.raw_induct [where P = "\<lambda>L' rd' n1 n2 fr dev sc pt r. L' = L \<longrightarrow> rd' = rd \<longrightarrow> n1 = m1 \<longrightarrow> n2 = m2 \<longrightarrow>
      fr = fresh \<longrightarrow> I sc \<or> sc = scanner_new \<longrightarrow> (\<forall>p \<in> set pt. Q' p) \<longrightarrow>
      (case r of Fault \<Rightarrow> f | Ret (d, ps, b) \<Rightarrow> \<forall>p \<in> set ps. Q' p)"])
    fix rec and L' and rd' :: "'a \<Rightarrow> u64 \<Rightarrow> nat \<Rightarrow> 'a \<times> u8 list option" and n1 n2 fr dev sc pt r
    assume ih: "\<And>L' rd' n1 n2 fr dev sc pt r. rec L' rd' n1 n2 fr dev sc pt = Some r \<Longrightarrow> L' = L \<longrightarrow> rd' = rd \<longrightarrow>
        n1 = m1 \<longrightarrow> n2 = m2 \<longrightarrow> fr = fresh \<longrightarrow> I sc \<or> sc = scanner_new \<longrightarrow> (\<forall>p \<in> set pt. Q' p) \<longrightarrow>
        (case r of Fault \<Rightarrow> f | Ret (d, ps, b) \<Rightarrow> \<forall>p \<in> set ps. Q' p)"
      and body: "(case scanner_next L' rd' n1 n2 fr dev sc of None \<Rightarrow> None
        | Some (Ret (dev1, sc1, None)) \<Rightarrow> Some (Ret (dev1, pt, scanner_isset sc1))
        | Some (Ret (dev1, sc1, Some part)) \<Rightarrow> rec L' rd' n1 n2 fr dev1 sc1 (pt @ [named L' part])
        | Some Fault \<Rightarrow> Some Fault) = Some r"
    show "L' = L \<longrightarrow> rd' = rd \<longrightarrow> n1 = m1 \<longrightarrow> n2 = m2 \<longrightarrow> fr = fresh \<longrightarrow> I sc \<or> sc = scanner_new \<longrightarrow> (\<forall>p \<in> set pt. Q' p) \<longrightarrow>
      (case r of Fault \<Rightarrow> f | Ret (d, ps, b) \<Rightarrow> \<forall>p \<in> set ps. Q' p)"
    proof (intro impI)
      assume eq: "L' = L" "rd' = rd" "n1 = m1" "n2 = m2" "fr = fresh" and I: "I sc \<or> sc = scanner_new" and pt: "\<forall>p \<in> set pt. Q' p"
      obtain x where x: "scanner_next L rd m1 m2 fresh dev sc = Some x" using body by (cases "scanner_next L rd m1 m2 fresh dev sc") (auto simp: eq)
      have keeps: "next_keeps I Q f x" by (rule scanner_next_rule [OF x _ step start]) (use I busy in blast)
      show "case r of Fault \<Rightarrow> f | Ret (d, ps, b) \<Rightarrow> \<forall>p \<in> set ps. Q' p"
      proof (cases x)
        case Fault
        then show ?thesis using keeps body x by (auto simp: eq)
      next
        case (Ret y)
        then obtain d sc1 q where y: "x = Ret (d, sc1, q)" by (cases y) auto
        show ?thesis
        proof (cases q)
          case None
          then show ?thesis using body x y pt by (auto simp: eq)
        next
          case (Some p)
          then show ?thesis using body x y keeps pt name ih [of L rd m1 m2 fresh d sc1 "pt @ [named L p]" r] by (auto simp: eq)
        qed
      qed
    qed
  qed
  then show ?thesis using assms(1-3) by blast
qed

context reliable_disk begin

lemma scan_sector0:
  assumes "size_bits_law L" "ok s" "512 \<le> lim"
  shows "\<exists>s' buf. ok s' \<and> bytes s' = bytes s \<and> sb_bytes buf = sector_of (bytes s) 0 \<and>
    scan_start L rd (Some w1) m2 fresh s scanner_new =
      (let mbr = legacy_mbr_of_bytes (sector_of (bytes s) 0) in
       case identify L (sector_of (bytes s) 0) 0 of
         Fault \<Rightarrow> Fault
       | Ret (Some part) \<Rightarrow> Ret (s', (primed buf)\<lparr>sc_state := St_done\<rparr>, Return (Some part))
       | Ret None \<Rightarrow>
           if mbr_signature mbr \<noteq> MSDOS_MBR_SIGNATURE then Ret (s', primed buf, Return None)
           else if os_type (partition_record mbr ! 0) = EFI_PMBR_OSTYPE_EFI_GPT then scan_gpt_start L rd m2 s' (primed buf)
           else (case scanMbrEntries 0 ((primed buf)\<lparr>mbrEntries := take 4 (fresh @ replicate 4 no_record)\<rparr>) of
                   Fault \<Rightarrow> Fault
                 | Ret (sc2, n) \<Rightarrow> Ret (s', sc2\<lparr>numPartitionEntries := of_nat n, sc_state := St_MBR\<rparr>, Continue)))"
proof -
  have "(unat (0 :: u64) + 1) * 512 \<le> lim" using assms(3) by simp
  from read_sector_ok [OF assms(2) this, of "sb_new (Some w1) 512 1"]
  obtain s1 buf where r0: "ok s1" "bytes s1 = bytes s" "sb_bytes buf = sector_of (bytes s) 0"
      "read_sector rd 9 s 0 (sb_new (Some w1) 512 1) = (s1, Some buf)" by auto
  show ?thesis using scan_start_code [OF assms(1) r0(4), of m2 fresh] r0(1-3) by auto
qed

end

end
