(* ===== verification/ScanGpt.thy ===== *)
theory ScanGpt
  imports ScanRun
begin

text \<open>
  Scanning a GPT: the reference listing \<open>gpt_listing\<close> of the entry array, and the proof that the rounds of
  the iterator produce it.
\<close>

section \<open>Scanning a GPT\<close>

text \<open>Entry \<open>i\<close> of the array that starts at sector \<open>lba\<close>, and the partition it describes.\<close>

definition gpt_entry_at :: "sming \<Rightarrow> (nat \<Rightarrow> u8) \<Rightarrow> nat \<Rightarrow> nat \<Rightarrow> gpt_entry" where
  "gpt_entry_at L c lba i = gpt_entry_of_bytes L (drop (i mod 4 * 128) (sector_of c (lba + i div 4)))"

definition gpt_volume :: "sming \<Rightarrow> (nat \<Rightarrow> u8) \<Rightarrow> gpt_entry \<Rightarrow> part_info option run" where
  "gpt_volume L c e = identify L (sector_of c (unat (ge_starting_lba e))) (push_bit 9 (ge_starting_lba e))"

definition gpt_found :: "sming \<Rightarrow> (nat \<Rightarrow> u8) \<Rightarrow> gpt_entry \<Rightarrow> part_info" where
  "gpt_found L c e =
     (let offset = push_bit 9 (ge_starting_lba e);
          sz = push_bit 9 (1 + ge_ending_lba e - ge_starting_lba e);
          ft = SmingTypeGuid_match L (partition_type_guid e)
      in gpt_scan_part e (if fulltype_isset L ft then part_info_new [] ft offset sz
           else case gpt_volume L c e of Ret (Some p) \<Rightarrow> p | _ \<Rightarrow> part_info_new [] (fulltype_none L) offset sz))"

definition gpt_listing :: "sming \<Rightarrow> (nat \<Rightarrow> u8) \<Rightarrow> gpt_entry list \<Rightarrow> part_info list" where
  "gpt_listing L c es = map (\<lambda>e. named L (gpt_found L c e)) (filter (\<lambda>e. uuid_isset L (partition_type_guid e)) es)"

text \<open>An entry whose volume has to be looked at lies on the disk, and its boot sector makes sense.\<close>

definition gpt_visible :: "sming \<Rightarrow> nat \<Rightarrow> (nat \<Rightarrow> u8) \<Rightarrow> gpt_entry \<Rightarrow> bool" where
  "gpt_visible L lim c e \<longleftrightarrow>
     (uuid_isset L (partition_type_guid e) \<and> \<not> fulltype_isset L (SmingTypeGuid_match L (partition_type_guid e)) \<longrightarrow>
        (unat (ge_starting_lba e) + 1) * 512 \<le> lim \<and> gpt_volume L c e \<noteq> Fault)"

text \<open>The scanner before round \<open>i\<close> of \<open>n\<close>.\<close>

definition gpt_at :: "nat \<Rightarrow> nat \<Rightarrow> (nat \<Rightarrow> u8) \<Rightarrow> nat \<Rightarrow> scanner \<Rightarrow> bool" where
  "gpt_at lba n c i sc \<longleftrightarrow> sc_state sc = St_GPT \<and> sc_sectorSize sc = 512 \<and> sc_sectorSizeShift sc = 9 \<and>
     n \<le> 128 \<and> i \<le> n \<and> unat (numPartitionEntries sc) = n \<and> unat (partitionIndex sc) = i \<and>
     unat (sc_sector sc) = lba + (i + 3) div 4 \<and>
     length (sb_bytes (sc_buffer sc)) = 512 \<and> length (sb_bytes (entryBuffer sc)) = 512 \<and>
     (i mod 4 \<noteq> 0 \<longrightarrow> sb_bytes (sc_buffer sc) = sector_of c (lba + i div 4))"

lemma gpt_at_index:
  assumes "gpt_at lba n c i sc" "i < n"
  shows "unat (partitionIndex sc mod (sc_sectorSize sc div 128)) = i mod 4" "unat (partitionIndex sc + 1) = Suc i"
    "partitionIndex sc < numPartitionEntries sc"
proof -
  have a: "unat (partitionIndex sc) = i" "i < 128" "sc_sectorSize sc = 512" "unat (numPartitionEntries sc) = n"
    using assms by (auto simp: gpt_at_def)
  have "unat (partitionIndex sc mod 4) = i mod 4" using a(1) by (simp add: unat_mod)
  then show "unat (partitionIndex sc mod (sc_sectorSize sc div 128)) = i mod 4" by (simp add: a(3))
  show "unat (partitionIndex sc + 1) = Suc i"
    using unat_add_lem [of "partitionIndex sc" 1] a(1,2) by simp
  show "partitionIndex sc < numPartitionEntries sc" using a(1,4) assms(2) by (simp add: word_less_nat_alt)
qed

context reliable_disk begin

lemma gpt_fetch_ok:
  assumes "gpt_at lba n (bytes s) i sc" "i < n" "ok s" "(lba + 32) * 512 \<le> lim"
  shows "\<exists>s' buf sec. gpt_fetch rd s sc = (s', Some (sc\<lparr>sc_buffer := buf, sc_sector := sec\<rparr>)) \<and> ok s' \<and> bytes s' = bytes s \<and>
    sb_bytes buf = sector_of (bytes s) (lba + i div 4) \<and> unat sec = lba + i div 4 + 1"
proof (cases "i mod 4 = 0")
  case False
  then have "partitionIndex sc mod (sc_sectorSize sc div 128) \<noteq> 0" using gpt_at_index(1) [OF assms(1,2)] by (metis unsigned_0)
  moreover have "(i + 3) div 4 = i div 4 + 1" using False by presburger
  ultimately show ?thesis using False assms(1,3)
    by (intro exI [of _ s] exI [of _ "sc_buffer sc"] exI [of _ "sc_sector sc"]) (simp add: gpt_fetch_def gpt_at_def)
next
  case True
  have i: "partitionIndex sc mod (sc_sectorSize sc div 128) = 0"
    using gpt_at_index(1) [OF assms(1,2)] True by (simp add: unat_eq_0)
  have sh: "unat (sc_sectorSizeShift sc) = 9" using assms(1) by (simp add: gpt_at_def)
  have "i < 128" using assms(1,2) by (simp add: gpt_at_def)
  then have d: "(i + 3) div 4 = i div 4" "i div 4 < 32" using True by presburger+
  then have sec: "unat (sc_sector sc) = lba + i div 4" using assms(1) by (simp add: gpt_at_def)
  have fit: "(unat (sc_sector sc) + 1) * 512 \<le> lim" unfolding sec using assms(4) d(2) by simp
  have "length (sb_bytes (sc_buffer sc)) = 512" using assms(1) by (simp add: gpt_at_def)
  then obtain s' buf where r: "read_sector rd 9 s (sc_sector sc) (sc_buffer sc) = (s', Some buf)"
      "sb_bytes buf = sector_of (bytes s) (lba + i div 4)" "ok s'" "bytes s' = bytes s"
    using read_sector_ok [OF assms(3) fit] unfolding sec by blast
  have "unat (sc_sector sc) + 1 < 2 ^ LENGTH(64)" using fit lim_u64 by simp
  then have "unat (sc_sector sc + 1) = lba + i div 4 + 1" using unat_add_lem [of "sc_sector sc" 1] sec by simp
  then show ?thesis using r i by (auto simp: gpt_fetch_def sh)
qed

lemma gpt_step_ok:
  assumes "gpt_at lba n (bytes s) i sc" "i < n" "ok s" "(lba + 32) * 512 \<le> lim" "gpt_visible L lim (bytes s) (gpt_entry_at L (bytes s) lba i)"
  defines "e \<equiv> gpt_entry_at L (bytes s) lba i"
  shows "\<exists>s' sc'. scan_step L rd s sc = Ret (s', sc', if uuid_isset L (partition_type_guid e)
      then Return (Some (gpt_found L (bytes s) e)) else Continue) \<and>
    ok s' \<and> bytes s' = bytes s \<and> gpt_at lba n (bytes s) (Suc i) sc'"
proof -
  obtain s1 buf sec where f: "gpt_fetch rd s sc = (s1, Some (sc\<lparr>sc_buffer := buf, sc_sector := sec\<rparr>))" "ok s1" "bytes s1 = bytes s"
      "sb_bytes buf = sector_of (bytes s) (lba + i div 4)" "unat sec = lba + i div 4 + 1"
    using gpt_fetch_ok [OF assms(1-4)] by blast
  note idx = gpt_at_index [OF assms(1,2)]
  have st: "sc_state sc = St_GPT" "unat (sc_sectorSizeShift sc) = 9" using assms(1) by (simp_all add: gpt_at_def)
  have e: "gpt_entry_of_bytes L (drop (i mod 4 * 128) (sb_bytes buf)) = e" by (simp add: e_def gpt_entry_at_def f(4))
  have fits: "\<not> length (sb_bytes buf) < (i mod 4 + 1) * 128" unfolding f(4) by simp
  let ?sc = "\<lambda>eb. sc\<lparr>sc_buffer := buf, sc_sector := sec, partitionIndex := partitionIndex sc + 1, entryBuffer := eb\<rparr>"
  have at: "gpt_at lba n (bytes s) (Suc i) (?sc eb)" if "length (sb_bytes eb) = 512" for eb
  proof -
    have "(Suc i + 3) div 4 = i div 4 + 1" by presburger
    moreover have "Suc i mod 4 \<noteq> 0 \<Longrightarrow> Suc i div 4 = i div 4" by presburger
    ultimately show ?thesis using assms(1,2) that idx(2) f(4,5) unfolding gpt_at_def by simp
  qed
  have eb: "length (sb_bytes (entryBuffer sc)) = 512" using assms(1) by (simp add: gpt_at_def)
  note step = scan_step_def gpt_step_def st f(1) idx(1) e Let_def
  show ?thesis
  proof (cases "uuid_isset L (partition_type_guid e) \<and> \<not> fulltype_isset L (SmingTypeGuid_match L (partition_type_guid e))")
    case False
    then show ?thesis using at [OF eb] f(2,3) fits
      by (intro exI [of _ s1] exI [of _ "?sc (entryBuffer sc)"]) (auto simp: step gpt_found_def)
  next
    case True
    then have v: "(unat (ge_starting_lba e) + 1) * 512 \<le> lim" "gpt_volume L (bytes s) e \<noteq> Fault"
      using assms(5) by (simp_all add: gpt_visible_def e_def)
    obtain s2 eb' where r: "read_sector rd 9 s1 (ge_starting_lba e) (entryBuffer sc) = (s2, Some eb')" "ok s2" "bytes s2 = bytes s"
        "sb_bytes eb' = sector_of (bytes s) (unat (ge_starting_lba e))"
      using read_sector_ok [OF f(2) v(1) eb] unfolding f(3) by metis
    obtain q where q: "gpt_volume L (bytes s) e = Ret q" using v(2) by (cases "gpt_volume L (bytes s) e") auto
    have at2: "gpt_at lba n (bytes s) (Suc i) (?sc eb')" by (rule at) (simp add: r(4))
    show ?thesis
      using True at2 r(1-3) fits q
      by (intro exI [of _ s2] exI [of _ "?sc eb'"])
        (auto simp: step gpt_found_def gpt_volume_def r(4) split: option.split)
  qed
qed

lemma gpt_scan_loop:
  assumes "gpt_at lba n (bytes s) i sc" "ok s" "(lba + 32) * 512 \<le> lim"
    and "\<forall>j < n. gpt_visible L lim (bytes s) (gpt_entry_at L (bytes s) lba j)"
  shows "\<exists>s'. scan_loop L rd m1 m2 fresh s sc pt
      = Some (Ret (s', pt @ gpt_listing L (bytes s) (map (gpt_entry_at L (bytes s) lba) [i..<n]), True)) \<and>
    ok s' \<and> bytes s' = bytes s"
  using assms
proof (induction "n - i" arbitrary: i s sc pt)
  case 0
  then have "i = n" by (simp add: gpt_at_def)
  then show ?case using 0(2,3) by (simp add: scan_loop_round gpt_at_def gpt_listing_def word_less_nat_alt)
next
  case (Suc k)
  then have i: "i < n" by simp
  let ?e = "gpt_entry_at L (bytes s) lba i" and ?es = "map (gpt_entry_at L (bytes s) lba) [Suc i..<n]"
  have st: "sc_state sc \<noteq> St_idle" using Suc.prems(1) by (simp add: gpt_at_def)
  obtain s1 sc1 where r: "scan_step L rd s sc = Ret (s1, sc1, if uuid_isset L (partition_type_guid ?e)
      then Return (Some (gpt_found L (bytes s) ?e)) else Continue)" and s1: "ok s1" "bytes s1 = bytes s"
    and at: "gpt_at lba n (bytes s) (Suc i) sc1"
    using gpt_step_ok [OF Suc.prems(1) i Suc.prems(2,3)] Suc.prems(4) i by blast
  have k: "k = n - Suc i" using Suc.hyps(2) by simp
  note ih = Suc.hyps(1) [OF k at [folded s1(2)] s1(1) Suc.prems(3) Suc.prems(4) [folded s1(2)], unfolded s1(2)]
  have l: "gpt_listing L (bytes s) (map (gpt_entry_at L (bytes s) lba) [i..<n])
      = (if uuid_isset L (partition_type_guid ?e) then [named L (gpt_found L (bytes s) ?e)] else []) @ gpt_listing L (bytes s) ?es"
    using i by (simp add: upt_conv_Cons gpt_listing_def)
  show ?case
    using ih [of pt] ih [of "pt @ [named L (gpt_found L (bytes s) ?e)]"]
    by (cases "uuid_isset L (partition_type_guid ?e)") (simp_all add: scan_loop_round [OF st] gpt_at_index(3) [OF Suc.prems(1) i] r l)
qed

end

text \<open>A disk that starts with a protective MBR and a good header.\<close>

definition gpt_disk :: "sming \<Rightarrow> nat \<Rightarrow> (nat \<Rightarrow> u8) \<Rightarrow> gpt_header \<Rightarrow> bool" where
  "gpt_disk L lim c h \<longleftrightarrow>
     identify L (sector_of c 0) 0 = Ret None \<and>
     mbr_signature (legacy_mbr_of_bytes (sector_of c 0)) = MSDOS_MBR_SIGNATURE \<and>
     os_type (partition_record (legacy_mbr_of_bytes (sector_of c 0)) ! 0) = EFI_PMBR_OSTYPE_EFI_GPT \<and>
     h = gpt_header_of_bytes L (sector_of c 1) \<and> verifyGptHeader L (sector_of c 1) = Ret True \<and>
     (unat (partition_entry_lba h) + 32) * 512 \<le> lim \<and>
     (\<forall>j < unat (num_partition_entries h). gpt_visible L lim c (gpt_entry_at L c (unat (partition_entry_lba h)) j))"

definition gpt_disk_parts :: "sming \<Rightarrow> (nat \<Rightarrow> u8) \<Rightarrow> gpt_header \<Rightarrow> part_info list" where
  "gpt_disk_parts L c h =
     gpt_listing L c (map (gpt_entry_at L c (unat (partition_entry_lba h))) [0..<unat (num_partition_entries h)])"

lemma verify_num: "verifyGptHeader L buf = Ret True \<Longrightarrow> num_partition_entries (gpt_header_of_bytes L buf) \<le> 128"
  by (auto simp: verifyGptHeader_def Let_def not_less split: if_splits)

context reliable_disk begin

lemma scan_gpt_starts:
  assumes "size_bits_law L" "ok s" "gpt_disk L lim (bytes s) h"
  shows "\<exists>s' sc'. scan_start L rd (Some w1) (Some w2) fresh s scanner_new = Ret (s', sc', Continue) \<and>
    ok s' \<and> bytes s' = bytes s \<and> gpt_at (unat (partition_entry_lba h)) (unat (num_partition_entries h)) (bytes s) 0 sc'"
proof -
  let ?c = "bytes s"
  have g: "identify L (sector_of ?c 0) 0 = Ret None"
    "mbr_signature (legacy_mbr_of_bytes (sector_of ?c 0)) = MSDOS_MBR_SIGNATURE"
    "os_type (partition_record (legacy_mbr_of_bytes (sector_of ?c 0)) ! 0) = EFI_PMBR_OSTYPE_EFI_GPT"
    "gpt_header_of_bytes L (sector_of ?c 1) = h" "verifyGptHeader L (sector_of ?c 1) = Ret True"
    "(unat (partition_entry_lba h) + 32) * 512 \<le> lim"
    using assms(3) unfolding gpt_disk_def by blast+
  have "512 \<le> lim" using g(6) by simp
  from scan_sector0 [OF assms(1,2) this, of w1 "Some w2" fresh]
  obtain s1 buf where s1: "ok s1" "bytes s1 = ?c" and buf: "sb_bytes buf = sector_of ?c 0"
    and start: "scan_start L rd (Some w1) (Some w2) fresh s scanner_new = scan_gpt_start L rd (Some w2) s1 (primed buf)"
    using g(1-3) by (auto simp: Let_def)
  have one: "unat (GPT_PRIMARY_PARTITION_TABLE_LBA) = 1" by (simp add: GPT_PRIMARY_PARTITION_TABLE_LBA_def)
  have "(unat GPT_PRIMARY_PARTITION_TABLE_LBA + 1) * 512 \<le> lim" unfolding one using g(6) by simp
  then obtain s2 buf1 where r1: "ok s2" "bytes s2 = ?c" "sb_bytes buf1 = sector_of ?c 1"
      "read_sector rd 9 s1 GPT_PRIMARY_PARTITION_TABLE_LBA buf = (s2, Some buf1)"
    using read_sector_ok [OF s1(1), of GPT_PRIMARY_PARTITION_TABLE_LBA buf] s1(2) buf one by auto
  have num: "num_partition_entries h \<le> 128" using verify_num [OF g(5)] g(4) by simp
  then have n: "unat (num_partition_entries h) \<le> 128" by (simp add: word_le_nat_alt)
  then have n16: "unat (ucast (num_partition_entries h) :: u16) = unat (num_partition_entries h)"
    by (simp add: unsigned_ucast_eq take_bit_nat_eq_self)
  let ?sc = "(primed buf)\<lparr>sc_buffer := buf1, numPartitionEntries := ucast (num_partition_entries h),
    sc_sector := partition_entry_lba h, entryBuffer := sb_new (Some w2) 512 1, sc_state := St_GPT\<rparr>"
  have "scan_gpt_start L rd (Some w2) s1 (primed buf) = Ret (s2, ?sc, Continue)"
    using r1(3,4) g(4,5) by (simp add: scan_gpt_start_def primed_def Let_def del: One_nat_def)
  then show ?thesis using start r1(1-3) n n16
    by (intro exI [of _ s2] exI [of _ ?sc]) (simp add: gpt_at_def primed_def)
qed

lemma scan_gpt_disk:
  assumes "size_bits_law L" "ok s" "gpt_disk L lim (bytes s) h"
  shows "\<exists>s'. scanPartitions L rd (Some w1) (Some w2) fresh s = Some (Ret (s', gpt_disk_parts L (bytes s) h, True)) \<and>
    ok s' \<and> bytes s' = bytes s"
proof -
  obtain s1 sc1 where st: "scan_start L rd (Some w1) (Some w2) fresh s scanner_new = Ret (s1, sc1, Continue)"
    and s1: "ok s1" "bytes s1 = bytes s"
    and at: "gpt_at (unat (partition_entry_lba h)) (unat (num_partition_entries h)) (bytes s) 0 sc1"
    using scan_gpt_starts [OF assms] by blast
  have idle: "sc_state scanner_new = St_idle" "sc_state sc1 \<noteq> St_idle" using at by (simp_all add: scanner_new_def gpt_at_def)
  have d: "(unat (partition_entry_lba h) + 32) * 512 \<le> lim"
    "\<forall>j < unat (num_partition_entries h). gpt_visible L lim (bytes s1) (gpt_entry_at L (bytes s1) (unat (partition_entry_lba h)) j)"
    using assms(3) unfolding gpt_disk_def s1(2) by blast+
  show ?thesis
    using gpt_scan_loop [OF at [folded s1(2)] s1(1) d, of "Some w1" "Some w2" fresh "[]"] s1(2)
    by (simp add: scanPartitions_def scan_loop_start [OF idle(1) st idle(2)] gpt_disk_parts_def)
qed

end

context uuid_layout begin

text \<open>A header that was signed passes the verification.\<close>

lemma verify_signed:
  assumes "gh_signature h = GPT_HEADER_SIGNATURE" "gh_revision h = GPT_HEADER_REVISION_V1"
    and "header_size h = GPT_HEADER_SIZE" "header_crc32 h = 0" "sizeof_partition_entry h = 128" "num_partition_entries h \<le> 128"
  shows "verifyGptHeader L (gpt_header_bytes L (gpt_sign L h) @ tail) = Ret True"
proof -
  have d: "gpt_header_of_bytes L (gpt_header_bytes L (gpt_sign L h) @ tail) = gpt_sign L h"
    by (rule gpt_header.dec_enc) simp
  have z: "(gpt_sign L h)\<lparr>header_crc32 := 0\<rparr> = h" using assms(4) by (simp add: gpt_sign_def)
  have s: "unat GPT_HEADER_SIZE = 92" by (simp add: GPT_HEADER_SIZE_def)
  have c: "header_crc32 (gpt_sign L h) = crc32 0 (gpt_header_bytes L h)" by (simp add: gpt_sign_def s)
  show ?thesis using assms z c
    by (simp add: verifyGptHeader_def d Let_def patch_start s) (simp add: gpt_sign_def s not_less)
qed

end

end
