(* ===== verification/ScanMbr.thy ===== *)
theory ScanMbr
  imports ScanGpt
begin

text \<open>
  Scanning an MBR: the reference listing \<open>mbr_listing\<close> with its chains of extended partitions, the proof
  that the iterator produces it, first sectors without a table, and chains that never end.
\<close>

section \<open>Scanning an MBR\<close>

text \<open>The used entries of a table found at sector \<open>base\<close>.\<close>

definition relocated :: "u32 \<Rightarrow> gpt_mbr_record list \<Rightarrow> gpt_mbr_record list" where
  "relocated base recs = map (\<lambda>r. r\<lparr>starting_lba := starting_lba r + base\<rparr>)
     (filter (\<lambda>r. starting_lba r \<noteq> 0 \<and> size_in_lba r \<noteq> 0) recs)"

definition mbr_records :: "(nat \<Rightarrow> u8) \<Rightarrow> nat \<Rightarrow> gpt_mbr_record list" where
  "mbr_records c lba = partition_record (legacy_mbr_of_bytes (sector_of c lba))"

lemma length_mbr_records [simp]: "length (mbr_records c lba) = 4"
  by (simp add: mbr_records_def legacy_mbr_of_bytes_def)

lemma length_relocated: "length (relocated base recs) \<le> length recs"
  by (simp add: relocated_def)

text \<open>The partitions found when the entries \<open>es\<close> are left and \<open>k\<close> have been numbered, on a disk of \<open>n\<close>
  sectors: an entry for an extended partition is replaced, with all that follow it, by the entries of
  the table it points to. The first argument bounds the number of rounds.\<close>

fun mbr_listing :: "nat \<Rightarrow> sming \<Rightarrow> nat \<Rightarrow> (nat \<Rightarrow> u8) \<Rightarrow> nat \<Rightarrow> gpt_mbr_record list \<Rightarrow> part_info list option" where
  "mbr_listing 0 L n c k es = None"
| "mbr_listing (Suc f) L n c k [] = Some []"
| "mbr_listing (Suc f) L n c k (rec # es) =
     (let lba = starting_lba rec; offset = ucast (push_bit 9 lba) :: u64 in
      if \<not> unat lba < n then None
      else if os_type rec = OSTYPE_EXTENDED then mbr_listing f L n c k (relocated lba (mbr_records c (unat lba)))
      else case identify L (sector_of c (unat lba)) offset of
             Fault \<Rightarrow> None
           | Ret found \<Rightarrow> map_option (Cons (mbr_part L rec (of_nat (Suc k)) 9 offset found)) (mbr_listing f L n c (Suc k) es))"

text \<open>The scanner with the entries \<open>es\<close> left.\<close>

definition mbr_at :: "nat \<Rightarrow> gpt_mbr_record list \<Rightarrow> scanner \<Rightarrow> bool" where
  "mbr_at k es sc \<longleftrightarrow> sc_state sc = St_MBR \<and> sc_sectorSizeShift sc = 9 \<and> length (mbrEntries sc) = 4 \<and>
     length (sb_bytes (sc_buffer sc)) = 512 \<and> mbrPartID sc = of_nat k \<and> unat (numPartitionEntries sc) \<le> 4 \<and>
     unat (partitionIndex sc) \<le> unat (numPartitionEntries sc) \<and>
     es = drop (unat (partitionIndex sc)) (take (unat (numPartitionEntries sc)) (mbrEntries sc))"

lemma scan_records_relocated:
  "n + length recs \<le> length es \<Longrightarrow> scan_records base recs es n
     = (take n es @ relocated base recs @ drop (n + length (relocated base recs)) es, n + length (relocated base recs))"
proof (induction recs arbitrary: es n)
  case Nil
  then show ?case by (simp add: relocated_def)
next
  case (Cons r recs)
  let ?r = "r\<lparr>starting_lba := starting_lba r + base\<rparr>"
  have n: "n < length es" using Cons.prems by simp
  then have "take (Suc n) (es[n := ?r]) = take n es @ [?r]" "drop (Suc n + m) (es[n := ?r]) = drop (Suc n + m) es" for m
    by (simp_all add: take_Suc_conv_app_nth)
  then show ?case using Cons.IH [of "Suc n" "es[n := ?r]"] Cons.IH [of n es] Cons.prems by (simp add: relocated_def)
qed

lemma scanMbrEntries_ok:
  assumes "sb_bytes (sc_buffer sc) = sector_of c lba" "length (mbrEntries sc) = 4"
  shows "\<exists>es. scanMbrEntries base sc = Ret (sc\<lparr>mbrEntries := es\<rparr>, length (relocated base (mbr_records c lba))) \<and>
    length es = 4 \<and> take (length (relocated base (mbr_records c lba))) es = relocated base (mbr_records c lba)"
proof -
  let ?R = "relocated base (mbr_records c lba)"
  have "length ?R \<le> 4" using length_relocated [of base "mbr_records c lba"] by simp
  then have "scan_records base (mbr_records c lba) (mbrEntries sc) 0 = (?R @ drop (length ?R) (mbrEntries sc), length ?R)"
    using scan_records_relocated [of 0 "mbr_records c lba" "mbrEntries sc" base] assms(2) by simp
  then show ?thesis using assms \<open>length ?R \<le> 4\<close>
    by (intro exI [of _ "?R @ drop (length ?R) (mbrEntries sc)"]) (simp add: scanMbrEntries_def mbr_records_def)
qed

lemma mbr_at_Cons:
  assumes "mbr_at k (rec # es) sc"
  shows "partitionIndex sc < numPartitionEntries sc" "unat (partitionIndex sc) < 4"
    "mbrEntries sc ! unat (partitionIndex sc) = rec" "unat (partitionIndex sc + 1) = Suc (unat (partitionIndex sc))"
    "es = drop (Suc (unat (partitionIndex sc))) (take (unat (numPartitionEntries sc)) (mbrEntries sc))"
proof -
  let ?i = "unat (partitionIndex sc)" and ?n = "unat (numPartitionEntries sc)"
  have a: "rec # es = drop ?i (take ?n (mbrEntries sc))" "?n \<le> 4" "length (mbrEntries sc) = 4"
    using assms by (simp_all add: mbr_at_def)
  have i: "?i < ?n" using arg_cong [OF a(1), of length] a(2,3) by (simp add: min_def)
  then show "partitionIndex sc < numPartitionEntries sc" "?i < 4" using a(2) by (simp_all add: word_less_nat_alt)
  have "drop ?i (take ?n (mbrEntries sc)) = mbrEntries sc ! ?i # drop (Suc ?i) (take ?n (mbrEntries sc))"
    using i a(2,3) by (simp add: Cons_nth_drop_Suc [symmetric])
  then show "mbrEntries sc ! ?i = rec" "es = drop (Suc ?i) (take ?n (mbrEntries sc))" using a(1) by simp_all
  show "unat (partitionIndex sc + 1) = Suc ?i" using unat_add_lem [of "partitionIndex sc" 1] i a(2) by simp
qed

lemma mbr_at_Nil: "mbr_at k [] sc \<Longrightarrow> \<not> partitionIndex sc < numPartitionEntries sc"
  by (auto simp: mbr_at_def word_less_nat_alt)

lemma named_mbr [simp]: "named L (mbr_part L rec i sh off found) = mbr_part L rec i sh off found"
  by (simp add: named_def mbr_part_def Let_def)

context reliable_disk begin

text \<open>One round: a partition is reported, or the table is replaced.\<close>

lemma mbr_step_ok:
  assumes "mbr_at k (rec # es) sc" "ok s" "(unat (starting_lba rec) + 1) * 512 \<le> lim"
  defines "lba \<equiv> starting_lba rec" and "offset \<equiv> ucast (push_bit 9 (starting_lba rec)) :: u64"
  shows "\<exists>s'. ok s' \<and> bytes s' = bytes s \<and>
    (if os_type rec = OSTYPE_EXTENDED then
       \<exists>sc'. scan_step L rd s sc = Ret (s', sc', Continue) \<and> mbr_at k (relocated lba (mbr_records (bytes s) (unat lba))) sc'
     else case identify L (sector_of (bytes s) (unat lba)) offset of
       Fault \<Rightarrow> scan_step L rd s sc = Fault
     | Ret found \<Rightarrow> \<exists>sc'. scan_step L rd s sc = Ret (s', sc', Return (Some (mbr_part L rec (of_nat (Suc k)) 9 offset found))) \<and>
         mbr_at (Suc k) es sc')"
proof -
  note c = mbr_at_Cons [OF assms(1)]
  have a: "sc_state sc = St_MBR" "unat (sc_sectorSizeShift sc) = 9" "length (mbrEntries sc) = 4" "mbrPartID sc = of_nat k"
    "unat (numPartitionEntries sc) \<le> 4" "length (sb_bytes (sc_buffer sc)) = 512" "sc_sectorSizeShift sc = 9"
    using assms(1) by (simp_all add: mbr_at_def)
  have up: "unat (ucast lba :: u64) = unat lba" by (rule unat_ucast_up) simp
  have "(unat (ucast lba :: u64) + 1) * 512 \<le> lim" unfolding up using assms(3) by (simp add: lba_def)
  from read_sector_ok [OF assms(2) this a(6)]
  obtain s' buf where r: "read_sector rd 9 s (ucast lba) (sc_buffer sc) = (s', Some buf)" "ok s'" "bytes s' = bytes s"
    "sb_bytes buf = sector_of (bytes s) (unat lba)" unfolding up by blast
  have off: "ucast (push_bit 9 lba) = offset" by (simp add: offset_def lba_def)
  have i: "\<not> length (mbrEntries sc) \<le> unat (partitionIndex sc)" using c(2) a(3) by simp
  note step = scan_step_def mbr_step_def a(1,2) Let_def c(3) lba_def [symmetric] off r(1,4)
  show ?thesis
  proof (cases "os_type rec = OSTYPE_EXTENDED")
    case True
    let ?sc = "sc\<lparr>partitionIndex := partitionIndex sc + 1, sc_buffer := buf\<rparr>" and ?R = "relocated lba (mbr_records (bytes s) (unat lba))"
    have "sb_bytes (sc_buffer ?sc) = sector_of (bytes s) (unat lba)" "length (mbrEntries ?sc) = 4" using a(3) r(4) by simp_all
    from scanMbrEntries_ok [OF this, of lba] obtain es' where es': "length es' = 4" "take (length ?R) es' = ?R"
      "scanMbrEntries lba ?sc = Ret (?sc\<lparr>mbrEntries := es'\<rparr>, length ?R)" by blast
    have l: "length ?R \<le> 4" using length_relocated [of lba "mbr_records (bytes s) (unat lba)"] by simp
    then have u: "unat (of_nat (length ?R) :: u16) = length ?R" by (intro unat_of_nat_word) simp
    let ?sc' = "?sc\<lparr>mbrEntries := es', numPartitionEntries := of_nat (length ?R), partitionIndex := 0\<rparr>"
    have "scan_step L rd s sc = Ret (s', ?sc', Continue)" using i True es'(3) by (simp add: step)
    moreover have "mbr_at k ?R ?sc'" using a es'(1,2) u l r(4) by (simp add: mbr_at_def)
    ultimately show ?thesis using True r(2,3) by auto
  next
    case False
    show ?thesis
    proof (cases "identify L (sector_of (bytes s) (unat lba)) offset")
      case Fault
      then have "scan_step L rd s sc = Fault" using i False by (simp add: step)
      then show ?thesis using False r(2,3) Fault by auto
    next
      case (Ret found)
      let ?sc' = "sc\<lparr>partitionIndex := partitionIndex sc + 1, sc_buffer := buf, mbrPartID := mbrPartID sc + 1\<rparr>"
      have k: "mbrPartID sc + 1 = of_nat (Suc k)" using a(4) by (simp add: add.commute)
      have "scan_step L rd s sc = Ret (s', ?sc', Return (Some (mbr_part L rec (of_nat (Suc k)) 9 offset found)))"
        using i False Ret k by (simp add: step add.commute)
      moreover have "unat (partitionIndex sc) < unat (numPartitionEntries sc)" using c(1) by (simp add: word_less_nat_alt)
      then have "mbr_at (Suc k) es ?sc'" using a c(4,5) k r(4) by (simp add: mbr_at_def)
      ultimately show ?thesis using False r(2,3) Ret by auto
    qed
  qed
qed

lemma mbr_scan_loop:
  assumes "n * 512 \<le> lim"
  shows "mbr_listing f L n (bytes s) k es = Some ps \<Longrightarrow> mbr_at k es sc \<Longrightarrow> ok s \<Longrightarrow>
    \<exists>s'. scan_loop L rd m1 m2 fresh s sc pt = Some (Ret (s', pt @ ps, True)) \<and> ok s' \<and> bytes s' = bytes s"
proof (induction f arbitrary: k es s sc pt ps)
  case 0
  then show ?case by simp
next
  case (Suc f)
  have st: "sc_state sc \<noteq> St_idle" using Suc.prems(2) by (simp add: mbr_at_def)
  show ?case
  proof (cases es)
    case Nil
    then show ?thesis using Suc.prems mbr_at_Nil by (auto simp: scan_loop_round [OF st])
  next
    case (Cons rec es')
    let ?lba = "starting_lba rec"
    have at: "mbr_at k (rec # es') sc" using Suc.prems(2) Cons by simp
    have lba: "unat ?lba < n" using Suc.prems(1) Cons by (auto simp: Let_def split: if_splits)
    then have "(unat ?lba + 1) * 512 \<le> n * 512" by (intro mult_le_mono1) simp
    then have fit: "(unat ?lba + 1) * 512 \<le> lim" using assms by linarith
    note step = mbr_step_ok [OF at Suc.prems(3) fit, of L]
    note round = scan_loop_round [OF st, of L rd m1 m2 fresh s pt]
    show ?thesis
    proof (cases "os_type rec = OSTYPE_EXTENDED")
      case True
      then have l: "mbr_listing f L n (bytes s) k (relocated ?lba (mbr_records (bytes s) (unat ?lba))) = Some ps"
        using Suc.prems(1) Cons lba by (simp add: Let_def)
      obtain s1 sc1 where s1: "ok s1" "bytes s1 = bytes s" and r: "scan_step L rd s sc = Ret (s1, sc1, Continue)"
        and at1: "mbr_at k (relocated ?lba (mbr_records (bytes s) (unat ?lba))) sc1" using step True by auto
      show ?thesis using Suc.IH [OF l [folded s1(2)] at1 [folded s1(2)] s1(1), of pt] r s1(2) mbr_at_Cons(1) [OF at]
        by (simp add: round)
    next
      case False
      obtain found ps' where id: "identify L (sector_of (bytes s) (unat ?lba)) (ucast (push_bit 9 ?lba)) = Ret found"
        and l: "mbr_listing f L n (bytes s) (Suc k) es' = Some ps'"
        and ps: "ps = mbr_part L rec (of_nat (Suc k)) 9 (ucast (push_bit 9 ?lba)) found # ps'"
        using Suc.prems(1) Cons lba False by (auto simp: Let_def split: run.splits)
      obtain s1 sc1 where s1: "ok s1" "bytes s1 = bytes s" and at1: "mbr_at (Suc k) es' sc1"
        and r: "scan_step L rd s sc = Ret (s1, sc1, Return (Some (mbr_part L rec (of_nat (Suc k)) 9 (ucast (push_bit 9 ?lba)) found)))"
        using step False id by auto
      show ?thesis using Suc.IH [OF l [folded s1(2)] at1 s1(1), of "pt @ [mbr_part L rec (of_nat (Suc k)) 9 (ucast (push_bit 9 ?lba)) found]"]
          r s1(2) mbr_at_Cons(1) [OF at] by (simp add: round ps)
    qed
  qed
qed

end

text \<open>What the first sector of an MBR disk looks like.\<close>

definition mbr_disk :: "sming \<Rightarrow> (nat \<Rightarrow> u8) \<Rightarrow> bool" where
  "mbr_disk L c \<longleftrightarrow> identify L (sector_of c 0) 0 = Ret None \<and>
     mbr_signature (legacy_mbr_of_bytes (sector_of c 0)) = MSDOS_MBR_SIGNATURE \<and>
     os_type (mbr_records c 0 ! 0) \<noteq> EFI_PMBR_OSTYPE_EFI_GPT"

context reliable_disk begin

lemma scan_mbr_starts:
  assumes "size_bits_law L" "ok s" "512 \<le> lim" "mbr_disk L (bytes s)"
  shows "\<exists>s' sc'. scan_start L rd (Some w1) m2 fresh s scanner_new = Ret (s', sc', Continue) \<and>
    ok s' \<and> bytes s' = bytes s \<and> mbr_at 0 (relocated 0 (mbr_records (bytes s) 0)) sc'"
proof -
  let ?c = "bytes s" and ?R = "relocated 0 (mbr_records (bytes s) 0)" and ?f = "take 4 (fresh @ replicate 4 no_record)"
  from scan_sector0 [OF assms(1-3), of w1 m2 fresh]
  obtain s1 buf where s1: "ok s1" "bytes s1 = ?c" and buf: "sb_bytes buf = sector_of ?c 0"
    and start: "scan_start L rd (Some w1) m2 fresh s scanner_new =
      (case scanMbrEntries 0 ((primed buf)\<lparr>mbrEntries := ?f\<rparr>) of Fault \<Rightarrow> Fault
       | Ret (sc2, n) \<Rightarrow> Ret (s1, sc2\<lparr>numPartitionEntries := of_nat n, sc_state := St_MBR\<rparr>, Continue))"
    using assms(4) by (auto simp: mbr_disk_def mbr_records_def Let_def)
  let ?sc0 = "(primed buf)\<lparr>mbrEntries := ?f\<rparr>"
  have "sb_bytes (sc_buffer ?sc0) = sector_of ?c 0" "length (mbrEntries ?sc0) = 4" using buf by (simp_all add: primed_def)
  from scanMbrEntries_ok [OF this, of 0] obtain es where es: "length es = 4" "take (length ?R) es = ?R"
    "scanMbrEntries 0 ?sc0 = Ret (?sc0\<lparr>mbrEntries := es\<rparr>, length ?R)" by blast
  let ?sc = "?sc0\<lparr>mbrEntries := es, numPartitionEntries := of_nat (length ?R), sc_state := St_MBR\<rparr>"
  have l: "length ?R \<le> 4" using length_relocated [of 0 "mbr_records ?c 0"] by simp
  then have u: "unat (of_nat (length ?R) :: u16) = length ?R" by (intro unat_of_nat_word) simp
  have "scan_start L rd (Some w1) m2 fresh s scanner_new = Ret (s1, ?sc, Continue)" using es(3) by (simp add: start)
  moreover have "mbr_at 0 ?R ?sc" using es(1,2) u l buf by (simp add: mbr_at_def primed_def)
  ultimately show ?thesis using s1 by blast
qed

lemma scan_mbr_disk:
  assumes "size_bits_law L" "ok s" "512 \<le> lim" "mbr_disk L (bytes s)" "n * 512 \<le> lim"
    and "mbr_listing f L n (bytes s) 0 (relocated 0 (mbr_records (bytes s) 0)) = Some ps"
  shows "\<exists>s'. scanPartitions L rd (Some w1) m2 fresh s = Some (Ret (s', ps, True)) \<and> ok s' \<and> bytes s' = bytes s"
proof -
  obtain s1 sc1 where st: "scan_start L rd (Some w1) m2 fresh s scanner_new = Ret (s1, sc1, Continue)"
    and s1: "ok s1" "bytes s1 = bytes s" and at: "mbr_at 0 (relocated 0 (mbr_records (bytes s) 0)) sc1"
    using scan_mbr_starts [OF assms(1-4)] by blast
  have idle: "sc_state scanner_new = St_idle" "sc_state sc1 \<noteq> St_idle" using at by (simp_all add: scanner_new_def mbr_at_def)
  show ?thesis
    using mbr_scan_loop [OF assms(5) assms(6) [folded s1(2)] at [folded s1(2)] s1(1), of "Some w1" m2 fresh "[]"] s1(2)
    by (simp add: scanPartitions_def scan_loop_start [OF idle(1) st idle(2)])
qed

text \<open>First sectors that lead to no table.\<close>

lemma scan_no_table:
  assumes "size_bits_law L" "ok s" "1024 \<le> lim"
  defines "mbr \<equiv> legacy_mbr_of_bytes (sector_of (bytes s) 0)"
  shows "\<exists>s'. (case identify L (sector_of (bytes s) 0) 0 of
      Fault \<Rightarrow> scanPartitions L rd (Some w1) m2 fresh s = Some Fault
    | Ret (Some p) \<Rightarrow> scanPartitions L rd (Some w1) m2 fresh s = Some (Ret (s', [named L p], True))
    | Ret None \<Rightarrow>
        (mbr_signature mbr \<noteq> MSDOS_MBR_SIGNATURE \<longrightarrow> scanPartitions L rd (Some w1) m2 fresh s = Some (Ret (s', [], True))) \<and>
        (mbr_signature mbr = MSDOS_MBR_SIGNATURE \<and> os_type (partition_record mbr ! 0) = EFI_PMBR_OSTYPE_EFI_GPT \<longrightarrow>
           (verifyGptHeader L (sector_of (bytes s) 1) = Ret False \<longrightarrow>
              scanPartitions L rd (Some w1) m2 fresh s = Some (Ret (s', [], False))) \<and>
           (verifyGptHeader L (sector_of (bytes s) 1) = Fault \<longrightarrow>
              scanPartitions L rd (Some w1) m2 fresh s = Some Fault)))"
proof -
  have "512 \<le> lim" using assms(3) by simp
  from scan_sector0 [OF assms(1,2) this, of w1 m2 fresh]
  obtain s1 buf where s1: "ok s1" "bytes s1 = bytes s" "sb_bytes buf = sector_of (bytes s) 0"
    and start: "scan_start L rd (Some w1) m2 fresh s scanner_new =
      (case identify L (sector_of (bytes s) 0) 0 of
         Fault \<Rightarrow> Fault
       | Ret (Some part) \<Rightarrow> Ret (s1, (primed buf)\<lparr>sc_state := St_done\<rparr>, Return (Some part))
       | Ret None \<Rightarrow>
           if mbr_signature mbr \<noteq> MSDOS_MBR_SIGNATURE then Ret (s1, primed buf, Return None)
           else if os_type (partition_record mbr ! 0) = EFI_PMBR_OSTYPE_EFI_GPT then scan_gpt_start L rd m2 s1 (primed buf)
           else (case scanMbrEntries 0 ((primed buf)\<lparr>mbrEntries := take 4 (fresh @ replicate 4 no_record)\<rparr>) of
                   Fault \<Rightarrow> Fault
                 | Ret (sc2, n) \<Rightarrow> Ret (s1, sc2\<lparr>numPartitionEntries := of_nat n, sc_state := St_MBR\<rparr>, Continue)))"
    unfolding mbr_def Let_def by blast
  have idle: "sc_state scanner_new = St_idle" by (simp add: scanner_new_def)
  have fault: "scanPartitions L rd (Some w1) m2 fresh s = Some Fault"
    if "scan_start L rd (Some w1) m2 fresh s scanner_new = Fault"
    using that idle by (simp add: scanPartitions_def scan_loop.simps [of L rd "Some w1" m2 fresh s] scanner_next_def)
  have loop: "scan_loop L rd (Some w1) m2 fresh s1 ((primed buf)\<lparr>sc_state := St_done\<rparr>) pt = Some (Ret (s1, pt, True))" for pt
    by (subst scan_loop_round) (simp_all add: primed_def)
  have one: "unat (GPT_PRIMARY_PARTITION_TABLE_LBA) = 1" by (simp add: GPT_PRIMARY_PARTITION_TABLE_LBA_def)
  have "(unat GPT_PRIMARY_PARTITION_TABLE_LBA + 1) * 512 \<le> lim" unfolding one using assms(3) by simp
  then obtain s2 buf1 where r1: "sb_bytes buf1 = sector_of (bytes s) 1"
      "read_sector rd 9 s1 GPT_PRIMARY_PARTITION_TABLE_LBA buf = (s2, Some buf1)"
    using read_sector_ok [OF s1(1), of GPT_PRIMARY_PARTITION_TABLE_LBA buf] s1(2,3) one by auto
  have gpt: "scan_gpt_start L rd m2 s1 (primed buf) = (case verifyGptHeader L (sector_of (bytes s) 1) of Fault \<Rightarrow> Fault
    | Ret False \<Rightarrow> Ret (s2, (primed buf)\<lparr>sc_buffer := buf1, sc_state := St_error\<rparr>, Return None) | Ret True \<Rightarrow> scan_gpt_start L rd m2 s1 (primed buf))"
    using r1 by (auto simp: scan_gpt_start_def primed_def Let_def split: run.split bool.split)
  note res = scanPartitions_def scan_loop_start [OF idle] scanner_isset_def
  show ?thesis
  proof (cases "identify L (sector_of (bytes s) 0) 0")
    case Fault
    then show ?thesis using fault start by simp
  next
    case (Ret q)
    show ?thesis
    proof (cases q)
      case (Some p)
      then show ?thesis using Ret start loop by (intro exI [of _ s1]) (simp add: res)
    next
      case None
      show ?thesis
      proof (cases "mbr_signature mbr = MSDOS_MBR_SIGNATURE")
        case False
        have st: "scan_start L rd (Some w1) m2 fresh s scanner_new = Ret (s1, primed buf, Return None)"
          using Ret None False start by simp
        show ?thesis using Ret None False scan_loop_start [OF idle st, of "[]"]
          by (intro exI [of _ s1]) (simp add: scanPartitions_def scanner_isset_def primed_def)
      next
        case True
        then show ?thesis
          using Ret None start gpt fault
          by (intro exI [of _ s2]) (auto simp: res)
      qed
    qed
  qed
qed

end

section \<open>Scans that do not end\<close>

lemma next_loop_diverges:
  assumes "\<And>s sc. I s sc \<Longrightarrow> partitionIndex sc < numPartitionEntries sc \<and>
      (\<exists>s' sc'. scan_step L rd s sc = Ret (s', sc', Continue) \<and> I s' sc')"
    and "I s sc"
  shows "next_loop L rd s sc = None"
proof (rule ccontr)
  assume "next_loop L rd s sc \<noteq> None"
  then obtain r where r: "next_loop L rd s sc = Some r" by blast
  have "L = L \<longrightarrow> rd = rd \<longrightarrow> \<not> I s sc"
    using _ r
  proof (rule next_loop.raw_induct [where P = "\<lambda>L' rd' s sc r. L' = L \<longrightarrow> rd' = rd \<longrightarrow> \<not> I s sc"])
    fix rec :: "sming \<Rightarrow> ('a \<Rightarrow> u64 \<Rightarrow> nat \<Rightarrow> 'a \<times> u8 list option) \<Rightarrow> 'a \<Rightarrow> scanner \<Rightarrow> ('a \<times> scanner \<times> part_info option) run option"
      and L' rd' s sc r
    assume ih: "\<And>L' rd' s sc r. rec L' rd' s sc = Some r \<Longrightarrow> L' = L \<longrightarrow> rd' = rd \<longrightarrow> \<not> I s sc"
      and body: "(if \<not> partitionIndex sc < numPartitionEntries sc then Some (Ret (s, sc\<lparr>sc_state := St_done\<rparr>, None))
        else case scan_step L' rd' s sc of Ret (dev1, sc1, Continue) \<Rightarrow> rec L' rd' dev1 sc1
          | Ret (dev1, sc1, Return r) \<Rightarrow> Some (Ret (dev1, sc1, r)) | Fault \<Rightarrow> Some Fault) = Some r"
    show "L' = L \<longrightarrow> rd' = rd \<longrightarrow> \<not> I s sc"
      using body ih assms(1) [of s sc] by fastforce
  qed
  then show False using assms(2) by simp
qed

text \<open>A set of tables, each of which begins with a pointer to another of them.\<close>

definition extended_cycle :: "nat \<Rightarrow> (nat \<Rightarrow> u8) \<Rightarrow> u32 set \<Rightarrow> bool" where
  "extended_cycle n c A \<longleftrightarrow> (\<forall>a \<in> A. unat a < n \<and>
     (\<exists>rec es. relocated a (mbr_records c (unat a)) = rec # es \<and> os_type rec = OSTYPE_EXTENDED \<and> starting_lba rec \<in> A))"

context reliable_disk begin

lemma extended_cycle_diverges:
  assumes "extended_cycle n c A" "n * 512 \<le> lim" "ok s" "bytes s = c" "mbr_at k (rec # es) sc"
    and "os_type rec = OSTYPE_EXTENDED" "starting_lba rec \<in> A"
  shows "next_loop L rd s sc = None"
proof (rule next_loop_diverges [where I = "\<lambda>s sc. ok s \<and> bytes s = c \<and>
    (\<exists>k rec es. mbr_at k (rec # es) sc \<and> os_type rec = OSTYPE_EXTENDED \<and> starting_lba rec \<in> A)"])
  fix s sc
  assume "ok s \<and> bytes s = c \<and> (\<exists>k rec es. mbr_at k (rec # es) sc \<and> os_type rec = OSTYPE_EXTENDED \<and> starting_lba rec \<in> A)"
  then obtain k rec es where s: "ok s" "bytes s = c" and at: "mbr_at k (rec # es) sc"
    and e: "os_type rec = OSTYPE_EXTENDED" "starting_lba rec \<in> A" by blast
  obtain rec' es' where n: "unat (starting_lba rec) < n" and r: "os_type rec' = OSTYPE_EXTENDED" "starting_lba rec' \<in> A"
    and R: "relocated (starting_lba rec) (mbr_records c (unat (starting_lba rec))) = rec' # es'"
    using assms(1) e(2) unfolding extended_cycle_def by blast
  have "(unat (starting_lba rec) + 1) * 512 \<le> n * 512" using n by (intro mult_le_mono1) simp
  then have "(unat (starting_lba rec) + 1) * 512 \<le> lim" using assms(2) by linarith
  from mbr_step_ok [OF at s(1) this, of L] e(1) R s(2)
  obtain s' sc' where "ok s'" "bytes s' = c" "scan_step L rd s sc = Ret (s', sc', Continue)" "mbr_at k (rec' # es') sc'" by auto
  then show "partitionIndex sc < numPartitionEntries sc \<and> (\<exists>s' sc'. scan_step L rd s sc = Ret (s', sc', Continue) \<and>
      ok s' \<and> bytes s' = c \<and> (\<exists>k rec es. mbr_at k (rec # es) sc' \<and> os_type rec = OSTYPE_EXTENDED \<and> starting_lba rec \<in> A))"
    using mbr_at_Cons(1) [OF at] r by blast
next
  show "ok s \<and> bytes s = c \<and> (\<exists>k rec es. mbr_at k (rec # es) sc \<and> os_type rec = OSTYPE_EXTENDED \<and> starting_lba rec \<in> A)"
    using assms(3-7) by blast
qed

lemma scan_cycle_diverges:
  assumes "size_bits_law L" "ok s" "512 \<le> lim" "n * 512 \<le> lim" "mbr_disk L (bytes s)" "extended_cycle n (bytes s) A"
    and "relocated 0 (mbr_records (bytes s) 0) = rec # es" "os_type rec = OSTYPE_EXTENDED" "starting_lba rec \<in> A"
  shows "scanPartitions L rd (Some w1) m2 fresh s = None"
proof -
  obtain s1 sc1 where st: "scan_start L rd (Some w1) m2 fresh s scanner_new = Ret (s1, sc1, Continue)"
    and s1: "ok s1" "bytes s1 = bytes s" and at: "mbr_at 0 (rec # es) sc1"
    using scan_mbr_starts [OF assms(1-3,5), of w1 m2 fresh] assms(7) by auto
  have idle: "sc_state scanner_new = St_idle" "sc_state sc1 \<noteq> St_idle" using at by (simp_all add: scanner_new_def mbr_at_def)
  have "next_loop L rd s1 sc1 = None"
    by (rule extended_cycle_diverges [OF assms(6,4) s1 at assms(8,9)])
  then show ?thesis using idle
    by (simp add: scanPartitions_def scan_loop_start [OF idle(1) st idle(2)] scan_loop.simps [of L rd "Some w1" m2 fresh s1 sc1]
        scanner_next_def)
qed

end


end
