(* ===== verification/ScanSafe.thy ===== *)
theory ScanSafe
  imports ScanMbr
begin

text \<open>
  Scanning any disk, whichever reads fail: when no chain of extended partitions closes to a circle the scan ends, and on
  sane sectors no access leaves a buffer.
\<close>

section \<open>Scans that end\<close>

text \<open>The sectors of the extended partitions in a table that was found at sector \<open>base\<close>.\<close>

definition ext_links :: "u32 \<Rightarrow> u8 list \<Rightarrow> u32 set" where
  "ext_links base bs =
     starting_lba ` {r \<in> set (relocated base (partition_record (legacy_mbr_of_bytes bs))). os_type r = OSTYPE_EXTENDED}"

text \<open>Every table among the sectors \<open>A\<close> only links to tables in \<open>A\<close> of a smaller rank, whatever a read of a device in
  one of the states \<open>D\<close> delivers.\<close>

definition links_ranked :: "('d \<Rightarrow> u64 \<Rightarrow> nat \<Rightarrow> 'd \<times> u8 list option) \<Rightarrow> ('d \<Rightarrow> bool) \<Rightarrow> u32 set \<Rightarrow> (u32 \<Rightarrow> nat) \<Rightarrow> bool" where
  "links_ranked rd D A rank \<longleftrightarrow>
     (\<forall>d d1 r a n. D d \<longrightarrow> rd d a n = (d1, r) \<longrightarrow> D d1) \<and>
     (\<forall>d d1 bs. \<forall>lba \<in> A. D d \<longrightarrow> rd d (push_bit 9 (ucast lba)) 512 = (d1, Some bs) \<longrightarrow>
        length bs = 512 \<and> (\<forall>l \<in> ext_links lba bs. l \<in> A \<and> rank l < rank lba))"

text \<open>The extended partitions among the entries left lead to tables of a rank below \<open>k\<close>.\<close>

definition ranked_below :: "u32 set \<Rightarrow> (u32 \<Rightarrow> nat) \<Rightarrow> nat \<Rightarrow> scanner \<Rightarrow> bool" where
  "ranked_below A rank k sc \<longleftrightarrow> (sc_state sc = St_MBR \<longrightarrow>
     unat (sc_sectorSizeShift sc) = 9 \<and> length (mbrEntries sc) = 4 \<and>
     (\<forall>r \<in> set (take (unat (numPartitionEntries sc)) (mbrEntries sc)). os_type r = OSTYPE_EXTENDED \<longrightarrow>
        starting_lba r \<in> A \<and> rank (starting_lba r) < k))"

text \<open>Every round uses up one entry, or replaces the entries by those of a table of a smaller rank.\<close>

definition rounds_left :: "scanner \<Rightarrow> nat" where
  "rounds_left sc = unat (numPartitionEntries sc) - unat (partitionIndex sc)"

lemma rounds_left_bound: "rounds_left sc < 65536"
  using unsigned_less [of "numPartitionEntries sc", where 'a = nat] by (simp add: rounds_left_def)

lemma rounds_left_next:
  assumes "partitionIndex sc < numPartitionEntries sc" "numPartitionEntries sc' = numPartitionEntries sc"
    and "partitionIndex sc' = partitionIndex sc + 1"
  shows "rounds_left sc' < rounds_left sc"
proof -
  have lt: "unat (partitionIndex sc) < unat (numPartitionEntries sc)" using assms(1) by (simp add: word_less_nat_alt)
  have "unat (numPartitionEntries sc) < 2 ^ LENGTH(16)" by (rule unsigned_less)
  then have "unat (partitionIndex sc + 1) = unat (partitionIndex sc) + 1"
    using unat_add_lem [of "partitionIndex sc" 1] lt by simp
  then show ?thesis using lt assms(2,3) by (simp add: rounds_left_def)
qed

lemma mbr_of_bytes_tail: "length bs = 512 \<Longrightarrow> legacy_mbr_of_bytes (bs @ tail) = legacy_mbr_of_bytes bs"
  by (metis mbr.dec_enc mbr.enc_dec mbr.dec_wf order_refl take_all)

text \<open>The entries after a table was read: those of the table, moved by its place.\<close>

lemma scanMbrEntries_links:
  assumes "scanMbrEntries base sc = Ret (sc', n)" "length (mbrEntries sc) = 4" "sb_bytes (sc_buffer sc) = bs @ tail" "length bs = 512"
  shows "length (mbrEntries sc') = 4" "sc' = sc\<lparr>mbrEntries := mbrEntries sc'\<rparr>" "n \<le> 4"
    "\<forall>r \<in> set (take n (mbrEntries sc')). os_type r = OSTYPE_EXTENDED \<longrightarrow> starting_lba r \<in> ext_links base bs"
proof -
  let ?recs = "partition_record (legacy_mbr_of_bytes bs)"
  let ?R = "relocated base ?recs"
  have l: "length ?recs = 4" by (simp add: legacy_mbr_of_bytes_def)
  have "scan_records base ?recs (mbrEntries sc) 0 = (?R @ drop (length ?R) (mbrEntries sc), length ?R)"
    using scan_records_relocated [of 0 ?recs "mbrEntries sc" base] assms(2) l by simp
  moreover have "legacy_mbr_of_bytes (sb_bytes (sc_buffer sc)) = legacy_mbr_of_bytes bs"
    unfolding assms(3) by (rule mbr_of_bytes_tail [OF assms(4)])
  ultimately have e: "sc' = sc\<lparr>mbrEntries := ?R @ drop (length ?R) (mbrEntries sc)\<rparr>" "n = length ?R"
    using assms(1) by (auto simp: scanMbrEntries_def split: if_splits)
  show "n \<le> 4" using length_relocated [of base ?recs] l by (simp add: e)
  then show "length (mbrEntries sc') = 4" using assms(2) by (simp add: e)
  show "sc' = sc\<lparr>mbrEntries := mbrEntries sc'\<rparr>" by (simp add: e)
  show "\<forall>r \<in> set (take n (mbrEntries sc')). os_type r = OSTYPE_EXTENDED \<longrightarrow> starting_lba r \<in> ext_links base bs"
    by (auto simp: e ext_links_def)
qed

lemma gpt_step_advances:
  "gpt_step L rd dev sc = Ret (dev', sc', r) \<Longrightarrow> r \<noteq> Return None \<Longrightarrow>
     numPartitionEntries sc' = numPartitionEntries sc \<and> partitionIndex sc' = partitionIndex sc + 1"
  by (auto simp: gpt_step_def gpt_fetch_def Let_def split: if_splits prod.splits option.splits run.splits)

lemma read_sector_keeps:
  assumes "links_ranked rd D A rank" "D d" "read_sector rd sh d a buf = (d', b)"
  shows "D d'"
proof -
  have "D d1" if "rd d x n = (d1, r)" for x n d1 r using assms(1,2) that unfolding links_ranked_def by blast
  then show ?thesis using assms(3) by (auto simp: read_sector_def split: prod.splits option.splits)
qed

lemma scan_step_keeps:
  assumes "links_ranked rd D A rank" "D dev" "scan_step L rd dev sc = Ret (dev', sc', r)"
  shows "D dev'"
proof -
  have rd: "D d'" if "D d" "read_sector rd sh d a buf = (d', b)" for d d' sh a buf b
    by (rule read_sector_keeps [OF assms(1) that])
  have fetch: "D d'" if "gpt_fetch rd dev sc = (d', b)" for d' b
    using that assms(2) rd by (auto simp: gpt_fetch_def split: if_splits prod.splits option.splits)
  show ?thesis using assms(2,3) rd fetch
    by (auto simp: scan_step_def mbr_step_def gpt_step_def Let_def split: if_splits prod.splits option.splits run.splits)
qed

lemma mbr_step_ranked:
  assumes "links_ranked rd D A rank" "ranked_below A rank k sc" "sc_state sc = St_MBR" "D dev"
    and "mbr_step L rd dev sc = Ret (dev', sc', r)" "partitionIndex sc < numPartitionEntries sc"
  shows "\<exists>k'. ranked_below A rank k' sc' \<and> (k' = k \<and> numPartitionEntries sc' = numPartitionEntries sc \<and>
    partitionIndex sc' = partitionIndex sc + 1 \<or> k' < k)"
proof -
  let ?i = "unat (partitionIndex sc)"
  let ?e = "mbrEntries sc ! ?i"
  have inv: "unat (sc_sectorSizeShift sc) = 9" "length (mbrEntries sc) = 4"
    "\<forall>r \<in> set (take (unat (numPartitionEntries sc)) (mbrEntries sc)). os_type r = OSTYPE_EXTENDED \<longrightarrow>
        starting_lba r \<in> A \<and> rank (starting_lba r) < k"
    using assms(2,3) by (simp_all add: ranked_below_def)
  have i: "?i < length (mbrEntries sc)" using assms(5) by (auto simp: mbr_step_def not_le split: if_splits)
  then have "?e \<in> set (take (unat (numPartitionEntries sc)) (mbrEntries sc))"
    using assms(6) by (auto simp: word_less_nat_alt in_set_conv_nth intro!: exI [of _ ?i])
  then have e: "os_type ?e = OSTYPE_EXTENDED \<longrightarrow> starting_lba ?e \<in> A \<and> rank (starting_lba ?e) < k" using inv(3) by blast
  obtain d b where rd: "read_sector rd 9 dev (ucast (starting_lba ?e)) (sc_buffer sc) = (d, b)"
    by (cases "read_sector rd 9 dev (ucast (starting_lba ?e)) (sc_buffer sc)")
  show ?thesis
  proof (cases "os_type ?e = OSTYPE_EXTENDED \<and> b \<noteq> None")
    case False
    then have "ranked_below A rank k sc' \<and> numPartitionEntries sc' = numPartitionEntries sc \<and> partitionIndex sc' = partitionIndex sc + 1"
      using assms(2,5) inv(1) i rd
      by (auto simp: mbr_step_def Let_def ranked_below_def split: option.splits run.splits if_splits)
    then show ?thesis by blast
  next
    case True
    then obtain buf where b: "b = Some buf" by auto
    let ?sc = "sc\<lparr>partitionIndex := partitionIndex sc + 1, sc_buffer := buf\<rparr>"
    obtain sc3 n where s: "scanMbrEntries (starting_lba ?e) ?sc = Ret (sc3, n)"
      and sc': "sc' = sc3\<lparr>numPartitionEntries := of_nat n, partitionIndex := 0\<rparr>"
      using assms(5) inv(1) i rd b True by (auto simp: mbr_step_def Let_def split: run.splits)
    obtain bs where bs: "rd dev (push_bit 9 (ucast (starting_lba ?e))) 512 = (d, Some bs)"
      and buf: "buf = (sc_buffer sc)\<lparr>sb_data := map_option (patch 0 bs) (sb_data (sc_buffer sc))\<rparr>"
      using rd b by (auto simp: read_sector_def push_bit_eq_mult split: prod.splits option.splits)
    have A: "starting_lba ?e \<in> A" "rank (starting_lba ?e) < k" using e True by simp_all
    then have l: "length bs = 512" "\<forall>l \<in> ext_links (starting_lba ?e) bs. l \<in> A \<and> rank l < rank (starting_lba ?e)"
      using assms(1,4) bs unfolding links_ranked_def by blast+
    have "sb_data (sc_buffer sc) \<noteq> None"
    proof
      assume "sb_data (sc_buffer sc) = None"
      then show False using s by (simp add: scanMbrEntries_def buf sb_bytes_def)
    qed
    then obtain tail where "sb_bytes (sc_buffer ?sc) = bs @ tail" by (auto simp: buf sb_bytes_def patch_def)
    note links = scanMbrEntries_links [OF s _ this l(1), simplified, OF inv(2)]
    have "unat (of_nat n :: u16) = n" using links(3) by (intro unat_of_nat_word) simp
    moreover have "sc_sectorSizeShift sc3 = sc_sectorSizeShift sc" by (subst links(2)) simp
    ultimately have "ranked_below A rank (rank (starting_lba ?e)) sc'"
      using links(1,4) l(2) inv(1) by (simp add: ranked_below_def sc')
    then show ?thesis using A(2) by blast
  qed
qed

lemma scan_step_ranked:
  assumes "links_ranked rd D A rank" "ranked_below A rank k sc" "D dev" "partitionIndex sc < numPartitionEntries sc"
    and "scan_step L rd dev sc = Ret (dev', sc', r)" "r \<noteq> Return None"
  shows "\<exists>k'. ranked_below A rank k' sc' \<and> k' * 65536 + rounds_left sc' < k * 65536 + rounds_left sc"
proof (cases "sc_state sc = St_MBR")
  case True
  then have m: "mbr_step L rd dev sc = Ret (dev', sc', r)" using assms(5) by (simp add: scan_step_def)
  obtain k' where k: "ranked_below A rank k' sc'" and d: "k' = k \<and> numPartitionEntries sc' = numPartitionEntries sc \<and>
      partitionIndex sc' = partitionIndex sc + 1 \<or> k' < k" using mbr_step_ranked [OF assms(1,2) True assms(3) m assms(4)] by blast
  have "k' * 65536 + rounds_left sc' < k * 65536 + rounds_left sc"
    using d rounds_left_next [OF assms(4), of sc'] rounds_left_bound [of sc'] by auto
  then show ?thesis using k by blast
next
  case False
  then have g: "gpt_step L rd dev sc = Ret (dev', sc', r)" using assms(5) by (auto simp: scan_step_def split: if_splits)
  have "sc_state sc' \<noteq> St_MBR" using scan_step_state [OF assms(5,6)] False by simp
  then show ?thesis using rounds_left_next [OF assms(4)] gpt_step_advances [OF g assms(6)]
    by (intro exI [of _ k]) (simp add: ranked_below_def)
qed

lemma scan_loop_returns:
  assumes "links_ranked rd D A rank" "ranked_below A rank k sc" "sc_state sc \<noteq> St_idle" "D dev"
  shows "scan_loop L rd m1 m2 fresh dev sc pt \<noteq> None"
  using assms(2-4)
proof (induction "k * 65536 + rounds_left sc" arbitrary: k dev sc pt rule: less_induct)
  case less
  note round = scan_loop_round [OF less.prems(2)]
  show ?case
  proof (cases "partitionIndex sc < numPartitionEntries sc")
    case False
    then show ?thesis by (simp add: round)
  next
    case True
    show ?thesis
    proof (cases "scan_step L rd dev sc")
      case Fault
      then show ?thesis using True by (simp add: round)
    next
      case (Ret x)
      then obtain dev1 sc1 r where x: "scan_step L rd dev sc = Ret (dev1, sc1, r)" by (cases x) auto
      have "scan_loop L rd m1 m2 fresh dev1 sc1 pt' \<noteq> None" if "r \<noteq> Return None" for pt'
        using scan_step_ranked [OF assms(1) less.prems(1,3) True x that] less.hyps less.prems(2) scan_step_state [OF x that]
          scan_step_keeps [OF assms(1) less.prems(3) x] by metis
      then show ?thesis using True x by (cases r) (simp_all add: round split: option.split)
    qed
  qed
qed

lemma scan_start_ranked:
  assumes "size_bits_law L" "scan_start L rd m1 m2 fresh dev scanner_new = Ret (dev1, sc1, r)" "r \<noteq> Return None"
    and "\<And>dev1 bs. rd dev 0 512 = (dev1, Some bs) \<Longrightarrow> length bs = 512 \<and> (\<forall>l \<in> ext_links 0 bs. l \<in> A \<and> rank l < k)"
  shows "ranked_below A rank k sc1 \<and> sc_state sc1 \<noteq> St_idle"
proof (cases m1)
  case None
  then show ?thesis using assms(2,3) by (simp add: scan_start_none)
next
  case m1: (Some w1)
  obtain d r0 where rd: "read_sector rd 9 dev 0 (sb_new (Some w1) 512 1) = (d, r0)"
    by (cases "read_sector rd 9 dev 0 (sb_new (Some w1) 512 1)")
  note code = assms(2) [unfolded m1 scan_start_code [OF assms(1) rd]]
  show ?thesis
  proof (cases "sc_state sc1 = St_MBR")
    case False
    then show ?thesis using code assms(3)
      by (auto simp: ranked_below_def scan_gpt_start_def Let_def split: if_splits prod.splits option.splits run.splits bool.splits)
  next
    case True
    then obtain buf where r0: "r0 = Some buf" using code assms(3) by (cases r0) auto
    then obtain bs where bs: "rd dev 0 512 = (d, Some bs)" "buf = (sb_new (Some w1) 512 1)\<lparr>sb_data := map_option (patch 0 bs) (sb_data (sb_new (Some w1) 512 1))\<rparr>"
      using rd by (auto simp: read_sector_def push_bit_eq_mult split: prod.splits option.splits)
    note l = assms(4) [OF bs(1)]
    then have buf: "sb_bytes buf = bs @ []" by (simp add: bs(2) sb_bytes_def sb_new_def)
    let ?sc = "(primed buf)\<lparr>mbrEntries := take 4 (fresh @ replicate 4 no_record)\<rparr>"
    obtain sc2 n where s: "scanMbrEntries 0 ?sc = Ret (sc2, n)"
      and sc1: "sc1 = sc2\<lparr>numPartitionEntries := of_nat n, sc_state := St_MBR\<rparr>"
      using code assms(3) True
      by (auto simp: r0 scan_gpt_start_def Let_def primed_def split: if_splits prod.splits option.splits run.splits bool.splits)
    have "sb_bytes (sc_buffer ?sc) = bs @ []" by (simp add: primed_def buf)
    moreover have "length (mbrEntries ?sc) = 4" by simp
    ultimately have links: "length (mbrEntries sc2) = 4" "sc2 = ?sc\<lparr>mbrEntries := mbrEntries sc2\<rparr>" "n \<le> 4"
      "\<forall>r \<in> set (take n (mbrEntries sc2)). os_type r = OSTYPE_EXTENDED \<longrightarrow> starting_lba r \<in> ext_links 0 bs"
      using scanMbrEntries_links [OF s, of bs "[]"] l by blast+
    have "unat (of_nat n :: u16) = n" using links(3) by (intro unat_of_nat_word) simp
    moreover have "unat (sc_sectorSizeShift sc2) = 9" by (subst links(2)) (simp add: primed_def)
    ultimately show ?thesis using links l by (auto simp: ranked_below_def sc1)
  qed
qed

lemma scan_start_keeps:
  assumes "links_ranked rd D A rank" "D dev" "scan_start L rd m1 m2 fresh dev sc = Ret (dev', sc', r)"
  shows "D dev'"
proof -
  have rd: "D d'" if "D d" "read_sector rd sh d a buf = (d', b)" for d d' sh a buf b
    by (rule read_sector_keeps [OF assms(1) that])
  show ?thesis using assms(2,3)
    by (auto simp: scan_start_def scan_gpt_start_def Let_def split: if_splits prod.splits option.splits run.splits bool.splits)
      (metis rd)+
qed

text \<open>The scan returns when the tables that can be reached through links are ranked.\<close>

lemma scan_returns:
  assumes "size_bits_law L" "links_ranked rd D A rank" "D dev"
    and "\<And>dev1 bs. rd dev 0 512 = (dev1, Some bs) \<Longrightarrow> length bs = 512 \<and> ext_links 0 bs \<subseteq> A"
  shows "scanPartitions L rd m1 m2 fresh dev \<noteq> None"
proof (cases "scan_start L rd m1 m2 fresh dev scanner_new")
  case Fault
  then show ?thesis
    by (simp add: scanPartitions_def scan_loop.simps [of L rd m1 m2 fresh dev] scanner_next_def scanner_new_def)
next
  case (Ret x)
  then obtain dev1 sc1 r where x: "scan_start L rd m1 m2 fresh dev scanner_new = Ret (dev1, sc1, r)" by (cases x) auto
  obtain k where k: "\<forall>l. rank l < k" using finite_nat_set_iff_bounded [of "range rank"] by auto
  have q: "ranked_below A rank k sc1 \<and> sc_state sc1 \<noteq> St_idle" if "r \<noteq> Return None"
    by (rule scan_start_ranked [OF assms(1) x that]) (use assms(4) k in blast)
  have idle: "sc_state scanner_new = St_idle" by (simp add: scanner_new_def)
  have "D dev1" by (rule scan_start_keeps [OF assms(2,3) x])
  then have "scan_loop L rd m1 m2 fresh dev1 sc1 pt \<noteq> None" if "r \<noteq> Return None" for pt
    using q [OF that] scan_loop_returns [OF assms(2)] by blast
  then show ?thesis using scan_loop_start [OF idle x, of "[]"] q
    by (cases r) (auto simp: scanPartitions_def split: option.split)
qed

section \<open>Accesses stay inside the buffers\<close>

text \<open>A sector that the code can look at: if it is a GPT header, its stated size lies within the sector, and if it is an
  exFAT boot sector, its sector size is a power of two that fits 64 bits.\<close>

definition sane_sector :: "sming \<Rightarrow> u8 list \<Rightarrow> bool" where
  "sane_sector L bs \<longleftrightarrow> length bs = 512 \<and>
     (gh_signature (gpt_header_of_bytes L bs) = GPT_HEADER_SIGNATURE \<longrightarrow> unat (header_size (gpt_header_of_bytes L bs)) \<le> 512) \<and>
     (ex_signature (exfat_boot_of_bytes bs) = MSDOS_MBR_SIGNATURE \<and> ex_fs_type (exfat_boot_of_bytes bs) = FSTYPE_EXFAT \<longrightarrow>
        unat (sect_size_bits (exfat_boot_of_bytes bs)) < 64)"

definition sane_reads :: "sming \<Rightarrow> ('d \<Rightarrow> u64 \<Rightarrow> nat \<Rightarrow> 'd \<times> u8 list option) \<Rightarrow> bool" where
  "sane_reads L rd \<longleftrightarrow> (\<forall>d a d' bs. rd d a 512 = (d', Some bs) \<longrightarrow> sane_sector L bs)"

lemma identify_sane: "sane_sector L bs \<Longrightarrow> identify L bs offset \<noteq> Fault"
  by (auto simp: identify_def sane_sector_def Let_def split: if_splits)

lemma verify_sane: "sane_sector L bs \<Longrightarrow> verifyGptHeader L bs \<noteq> Fault"
  by (auto simp: verifyGptHeader_def sane_sector_def Let_def)

lemma read_sane:
  assumes "sane_reads L rd" "length (sb_bytes buf) = 512" "read_sector rd 9 d sector buf = (d', Some buf')"
  shows "length (sb_bytes buf') = 512" "sane_sector L (sb_bytes buf')"
proof -
  obtain m where m: "sb_data buf = Some m" "length m = 512"
    using assms(2) by (cases "sb_data buf") (auto simp: sb_bytes_def)
  obtain bs where "rd d (push_bit 9 sector) 512 = (d', Some bs)" "buf' = buf\<lparr>sb_data := map_option (patch 0 bs) (sb_data buf)\<rparr>"
    using assms(3) by (auto simp: read_sector_def push_bit_eq_mult split: prod.splits option.splits)
  moreover from this have "sane_sector L bs" using assms(1) unfolding sane_reads_def by blast
  ultimately show "length (sb_bytes buf') = 512" "sane_sector L (sb_bytes buf')"
    using m by (auto simp: sb_bytes_def sane_sector_def)
qed

definition scanner_safe :: "scanner \<Rightarrow> bool" where
  "scanner_safe sc \<longleftrightarrow> sc_sectorSizeShift sc = 9 \<and> sc_sectorSize sc = 512 \<and> length (sb_bytes (sc_buffer sc)) = 512 \<and>
     (case sc_state sc of
        St_MBR \<Rightarrow> length (mbrEntries sc) = 4 \<and> unat (numPartitionEntries sc) \<le> 4
      | St_GPT \<Rightarrow> length (sb_bytes (entryBuffer sc)) = 512
      | St_done \<Rightarrow> \<not> partitionIndex sc < numPartitionEntries sc
      | _ \<Rightarrow> False)"

lemma mbr_step_safe:
  assumes "sane_reads L rd" "scanner_safe sc" "sc_state sc = St_MBR" "partitionIndex sc < numPartitionEntries sc"
  shows "\<exists>d sc' r. mbr_step L rd dev sc = Ret (d, sc', r) \<and> scanner_safe sc'"
proof -
  have a: "unat (sc_sectorSizeShift sc) = 9" "length (mbrEntries sc) = 4" "unat (numPartitionEntries sc) \<le> 4"
    "length (sb_bytes (sc_buffer sc)) = 512" using assms(2,3) by (simp_all add: scanner_safe_def)
  have i: "\<not> length (mbrEntries sc) \<le> unat (partitionIndex sc)"
    using assms(4) a(2,3) by (simp add: word_less_nat_alt)
  let ?e = "mbrEntries sc ! unat (partitionIndex sc)"
  let ?sc1 = "sc\<lparr>partitionIndex := partitionIndex sc + 1\<rparr>"
  obtain d r where rd: "read_sector rd 9 dev (ucast (starting_lba ?e)) (sc_buffer sc) = (d, r)"
    by (cases "read_sector rd 9 dev (ucast (starting_lba ?e)) (sc_buffer sc)")
  show ?thesis
  proof (cases r)
    case None
    then show ?thesis using i assms(2,3) rd by (simp add: mbr_step_def Let_def a(1) scanner_safe_def)
  next
    case (Some buf)
    note b = read_sane [OF assms(1) a(4) rd [unfolded Some]]
    let ?sc2 = "?sc1\<lparr>sc_buffer := buf\<rparr>" and ?recs = "partition_record (legacy_mbr_of_bytes (sb_bytes buf))"
    show ?thesis
    proof (cases "os_type ?e = OSTYPE_EXTENDED")
      case False
      then show ?thesis using i assms(2,3) rd Some b identify_sane [OF b(2)]
        by (auto simp: mbr_step_def Let_def a(1) scanner_safe_def split: run.split)
    next
      case True
      let ?R = "relocated (starting_lba ?e) ?recs"
      have l: "length ?R \<le> 4" using length_relocated [of "starting_lba ?e" ?recs] by (simp add: legacy_mbr_of_bytes_def)
      have u: "unat (of_nat (length ?R) :: u16) \<le> 4" using l unat_of_nat_word [of "length ?R", where 'a = 16] by simp
      have "scan_records (starting_lba ?e) ?recs (mbrEntries sc) 0 = (?R @ drop (length ?R) (mbrEntries sc), length ?R)"
        using scan_records_relocated [of 0 ?recs "mbrEntries sc" "starting_lba ?e"] a(2) by (simp add: legacy_mbr_of_bytes_def)
      then have "scanMbrEntries (starting_lba ?e) ?sc2 = Ret (?sc2\<lparr>mbrEntries := ?R @ drop (length ?R) (mbrEntries sc)\<rparr>, length ?R)"
        using b(1) by (simp add: scanMbrEntries_def)
      then show ?thesis using i True assms(2,3) rd Some b(1) l u a(2)
        by (simp add: mbr_step_def Let_def a(1) scanner_safe_def)
    qed
  qed
qed

lemma gpt_step_safe:
  assumes "sane_reads L rd" "scanner_safe sc" "sc_state sc = St_GPT"
  shows "\<exists>d sc' r. gpt_step L rd dev sc = Ret (d, sc', r) \<and> (r \<noteq> Return None \<longrightarrow> scanner_safe sc')"
proof -
  have a: "unat (sc_sectorSizeShift sc) = 9" "sc_sectorSize sc = 512" "length (sb_bytes (sc_buffer sc)) = 512"
    "length (sb_bytes (entryBuffer sc)) = 512" using assms(2,3) by (simp_all add: scanner_safe_def)
  let ?i = "unat (partitionIndex sc mod (sc_sectorSize sc div 128))"
  have "unat (partitionIndex sc mod 4) = unat (partitionIndex sc) mod 4" by (simp add: unat_mod)
  then have i: "(?i + 1) * 128 \<le> 512" using mod_less_divisor [of 4 "unat (partitionIndex sc)"] by (simp add: a(2))
  obtain d r where f: "gpt_fetch rd dev sc = (d, r)" by (cases "gpt_fetch rd dev sc")
  show ?thesis
  proof (cases r)
    case None
    then show ?thesis using f by (simp add: gpt_step_def)
  next
    case (Some sc1)
    have sc1: "sc_sectorSizeShift sc1 = sc_sectorSizeShift sc" "sc_sectorSize sc1 = sc_sectorSize sc" "sc_state sc1 = St_GPT"
      "entryBuffer sc1 = entryBuffer sc" "length (sb_bytes (sc_buffer sc1)) = 512"
      using f Some assms(3) a(1,3) read_sane(1) [OF assms(1) a(3)]
      by (auto simp: gpt_fetch_def split: if_splits prod.splits option.splits)
    let ?e = "gpt_entry_of_bytes L (drop (?i * 128) (sb_bytes (sc_buffer sc1)))"
    obtain d2 r2 where rd: "read_sector rd 9 d (ge_starting_lba ?e) (entryBuffer sc) = (d2, r2)"
      by (cases "read_sector rd 9 d (ge_starting_lba ?e) (entryBuffer sc)")
    have b: "length (sb_bytes buf) = 512" "identify L (sb_bytes buf) off \<noteq> Fault" if "r2 = Some buf" for buf off
      using read_sane [OF assms(1) a(4) rd [unfolded that]] identify_sane by auto
    have fits: "\<not> length (sb_bytes (sc_buffer sc1)) < (?i + 1) * 128" using i sc1(5) by simp
    show ?thesis
      using f Some fits sc1 rd b assms(2,3)
      by (auto simp: gpt_step_def Let_def a(1) scanner_safe_def split: option.split run.split)
  qed
qed

lemma scan_step_safe:
  assumes "sane_reads L rd" "scanner_safe sc" "partitionIndex sc < numPartitionEntries sc"
  shows "\<exists>d sc' r. scan_step L rd dev sc = Ret (d, sc', r) \<and> (r \<noteq> Return None \<longrightarrow> scanner_safe sc')"
proof (cases "sc_state sc")
  case St_MBR
  then show ?thesis using mbr_step_safe [OF assms(1,2) _ assms(3), of dev] by (auto simp: scan_step_def)
next
  case St_GPT
  then show ?thesis using gpt_step_safe [OF assms(1,2), of dev] by (auto simp: scan_step_def)
qed (use assms(2,3) in \<open>auto simp: scanner_safe_def\<close>)

lemma scan_gpt_start_safe:
  assumes "sane_reads L rd" "sc_sectorSizeShift sc = 9" "sc_sectorSize sc = 512" "length (sb_bytes (sc_buffer sc)) = 512"
  shows "\<exists>d sc' r. scan_gpt_start L rd mem dev sc = Ret (d, sc', r) \<and> (r \<noteq> Return None \<longrightarrow> scanner_safe sc')"
proof -
  have sh: "unat (sc_sectorSizeShift sc) = 9" using assms(2) by simp
  obtain d r where rd: "read_sector rd 9 dev GPT_PRIMARY_PARTITION_TABLE_LBA (sc_buffer sc) = (d, r)"
    by (cases "read_sector rd 9 dev GPT_PRIMARY_PARTITION_TABLE_LBA (sc_buffer sc)")
  show ?thesis
  proof (cases r)
    case None
    then show ?thesis using rd by (simp add: scan_gpt_start_def sh)
  next
    case (Some buf)
    note b = read_sane [OF assms(1,4) rd [unfolded Some]]
    show ?thesis
      using rd Some b(1) verify_sane [OF b(2)] assms(2,3)
      by (cases mem) (auto simp: scan_gpt_start_def sh Let_def scanner_safe_def sb_isset_def sb_new_def sb_bytes_def
          split: run.split bool.split)
  qed
qed

lemma scan_start_safe:
  assumes "sane_reads L rd" "size_bits_law L"
  shows "\<exists>d sc' r. scan_start L rd m1 m2 fresh dev scanner_new = Ret (d, sc', r) \<and> (r \<noteq> Return None \<longrightarrow> scanner_safe sc')"
proof (cases m1)
  case None
  then show ?thesis by (simp add: scan_start_none)
next
  case m1: (Some w1)
  obtain d r where rd: "read_sector rd 9 dev 0 (sb_new (Some w1) 512 1) = (d, r)"
    by (cases "read_sector rd 9 dev 0 (sb_new (Some w1) 512 1)")
  note start = scan_start_code [OF assms(2) rd, of m2 fresh]
  show ?thesis
  proof (cases r)
    case None
    then show ?thesis by (simp add: m1 start)
  next
    case (Some buf)
    have new: "length (sb_bytes (sb_new (Some w1) 512 1)) = 512" by simp
    note b = read_sane [OF assms(1) new rd [unfolded Some]]
    let ?sc = "primed buf" and ?recs = "partition_record (legacy_mbr_of_bytes (sb_bytes buf))" and ?es = "take 4 (fresh @ replicate 4 no_record)"
    let ?R = "relocated 0 ?recs"
    have l: "length ?R \<le> 4" using length_relocated [of 0 ?recs] by (simp add: legacy_mbr_of_bytes_def)
    have u: "unat (of_nat (length ?R) :: u16) \<le> 4" using l unat_of_nat_word [of "length ?R", where 'a = 16] by simp
    have "scan_records 0 ?recs ?es 0 = (?R @ drop (length ?R) ?es, length ?R)"
      using scan_records_relocated [of 0 ?recs ?es 0] by (simp add: legacy_mbr_of_bytes_def)
    then have mbr: "scanMbrEntries 0 (?sc\<lparr>mbrEntries := ?es\<rparr>) = Ret (?sc\<lparr>mbrEntries := ?R @ drop (length ?R) ?es\<rparr>, length ?R)"
      using b(1) by (simp add: scanMbrEntries_def primed_def)
    obtain d2 sc2 r2 where g: "scan_gpt_start L rd m2 d ?sc = Ret (d2, sc2, r2)" "r2 \<noteq> Return None \<longrightarrow> scanner_safe sc2"
      using scan_gpt_start_safe [OF assms(1), of ?sc m2 d] b(1) by (auto simp: primed_def)
    show ?thesis
      using identify_sane [OF b(2), of 0] g mbr l u b(1)
      by (auto simp: m1 start Some Let_def scanner_safe_def primed_def split: run.split option.split)
  qed
qed

text \<open>Every call of \<^verbatim>\<open>next\<close> that reports a partition leaves the scanner well formed (buffers of one sector, at most
  four MBR entries, the state MBR, GPT or done), in the form that the rules take.\<close>

lemma scanner_keeps_safe:
  assumes "sane_reads L rd"
  shows "scanner_safe sc \<Longrightarrow> partitionIndex sc < numPartitionEntries sc \<Longrightarrow>
      step_keeps scanner_safe (\<lambda>_. True) False (scan_step L rd dev sc)"
    and "size_bits_law L \<Longrightarrow> step_keeps scanner_safe (\<lambda>_. True) False (scan_start L rd m1 m2 fresh dev scanner_new)"
    and "scanner_safe sc \<Longrightarrow> sc_state sc \<noteq> St_idle"
  using scan_step_safe [OF assms] scan_start_safe [OF assms] by (blast intro: step_keepsI, blast intro: step_keepsI, auto simp: scanner_safe_def)

lemma next_safe:
  assumes "sane_reads L rd" "size_bits_law L" "scanner_safe sc \<or> sc = scanner_new"
  shows "scanner_next L rd m1 m2 fresh dev sc \<noteq> Some Fault"
    and "scanner_next L rd m1 m2 fresh dev sc = Some (Ret (dev', sc', Some p)) \<Longrightarrow> scanner_safe sc'"
proof -
  note keeps = scanner_keeps_safe [OF assms(1)]
  have "next_keeps scanner_safe (\<lambda>_. True) False r" if "scanner_next L rd m1 m2 fresh dev sc = Some r" for r
    by (rule scanner_next_rule [OF that _ keeps(1) keeps(2) [OF assms(2)]]) (use assms(3) keeps(3) in blast)+
  then show "scanner_next L rd m1 m2 fresh dev sc \<noteq> Some Fault"
    and "scanner_next L rd m1 m2 fresh dev sc = Some (Ret (dev', sc', Some p)) \<Longrightarrow> scanner_safe sc'" by fastforce+
qed

lemma scan_safe:
  assumes "sane_reads L rd" "size_bits_law L"
  shows "scanPartitions L rd m1 m2 fresh dev \<noteq> Some Fault"
proof
  note keeps = scanner_keeps_safe [OF assms(1)]
  assume "scanPartitions L rd m1 m2 fresh dev = Some Fault"
  then have "scan_loop L rd m1 m2 fresh dev scanner_new [] = Some Fault" by (simp add: scanPartitions_def)
  from scan_loop_rule [OF this _ _ keeps(1) keeps(2) [OF assms(2)] keeps(3), of "\<lambda>_. True"] show False by simp
qed

end
