(* ===== verification/Roundtrip.thy ===== *)
theory Roundtrip
  imports ScanSafe
begin

text \<open>
  What the partition writers leave on a disk is what the scanner finds: the entries of a formatted GPT, the
  entries of a formatted MBR, and the scans of both.
\<close>

section \<open>Entries of a formatted GPT\<close>

lemma drop_seg: "a + k \<le> m \<Longrightarrow> drop a (seg b m xs) = seg (b + a) k xs @ drop k (drop a (seg b m xs))"
proof -
  assume "a + k \<le> m"
  then have "take k (drop a (seg b m xs)) = seg (b + a) k xs"
    by (simp add: seg_def drop_take min_def add.commute)
  then show ?thesis by (metis append_take_drop_id)
qed

lemma seg_map_upt: "a + n \<le> m \<Longrightarrow> seg a n (map c [b..<b + m]) = map c [b + a..<b + a + n]"
  by (simp add: seg_def take_map drop_map min_def add.commute)

context uuid_layout begin

lemma gpt_array_chunk: "i < 4 * n \<Longrightarrow> seg (i * 128) 128 (gpt_array L n parts) = gpt_chunk L (drop i parts)"
proof (induction n arbitrary: i parts)
  case 0
  then show ?case by simp
next
  case (Suc n)
  show ?case
  proof (cases "i < 4")
    case True
    then consider "i = 0" | "i = 1" | "i = 2" | "i = 3" by linarith
    then show ?thesis by cases (simp_all add: gpt_sector_def)
  next
    case False
    then have i: "i * 128 - 512 = (i - 4) * 128" "i - 4 < 4 * n" "512 \<le> i * 128" "drop (i - 4) (drop 4 parts) = drop i parts"
      using Suc.prems by simp_all
    have "seg (i * 128) 128 (gpt_array L (Suc n) parts) = seg (i * 128 - 512) 128 (gpt_array L n (drop 4 parts))"
      using i(3) by simp
    also have "\<dots> = gpt_chunk L (drop i parts)" unfolding i(1) using Suc.IH [OF i(2), of "drop 4 parts"] unfolding i(4) .
    finally show ?thesis .
  qed
qed

lemma gpt_chunk_entry:
  "gpt_entry_of_bytes L (gpt_chunk L (p # ps) @ tail) = gpt_entry_of_part 9 p"
  by (simp add: gpt_chunk_def gpt_entry.dec_enc)

lemma gpt_chunk_empty: "partition_type_guid (gpt_entry_of_bytes L (gpt_chunk L [] @ tail)) = null_uuid"
proof -
  have "uuid_of_bytes L (replicate 16 0) = null_uuid"
    by (metis uuid_bytes_laws(2) uuid_law uuid_law_def)
  then show ?thesis by (simp add: gpt_chunk_def gpt_entry_of_bytes_def)
qed

lemma formatted_entry:
  assumes "map c [1024..<1024 + 16384] = gpt_array L 32 t" "i < 128"
  shows "\<exists>tail. gpt_entry_at L c 2 i = gpt_entry_of_bytes L (gpt_chunk L (drop i t) @ tail)"
proof -
  let ?q = "i div 4" and ?r = "i mod 4"
  have "a * 512 + b * 128 = (a * 4 + b) * (128 :: nat)" for a b by simp
  then have q3: "?q * 512 + ?r * 128 = i * 128" by (simp only: div_mult_mod_eq)
  have q1: "?q < 32" and q2: "?r < 4" using assms(2) by simp_all
  have "seg (?q * 512) 512 (map c [1024..<1024 + 16384]) = map c [1024 + ?q * 512..<1024 + ?q * 512 + 512]"
    by (rule seg_map_upt) (use q1 in simp)
  moreover have "(2 + ?q) * 512 = 1024 + ?q * 512" by simp
  ultimately have "sector_of c (2 + ?q) = seg (?q * 512) 512 (map c [1024..<1024 + 16384])" by (simp only: sector_of_def)
  then have s: "sector_of c (2 + ?q) = seg (?q * 512) 512 (gpt_array L 32 t)" by (simp only: assms(1))
  have "drop (?r * 128) (sector_of c (2 + ?q)) = seg (?q * 512 + ?r * 128) 128 (gpt_array L 32 t)
      @ drop 128 (drop (?r * 128) (sector_of c (2 + ?q)))"
    unfolding s by (rule drop_seg) (use q2 in simp)
  also have "seg (?q * 512 + ?r * 128) 128 (gpt_array L 32 t) = gpt_chunk L (drop i t)"
    unfolding q3 by (rule gpt_array_chunk) (use assms(2) in simp)
  finally show ?thesis by (metis gpt_entry_at_def)
qed

lemma gpt_header_back: "gpt_header_of_bytes L (gpt_header_bytes L h @ tail) = h"
  by (rule gpt_header.dec_enc) simp

lemma formatted_entry_lo:
  assumes "map c [1024..<1024 + 16384] = gpt_array L 32 t" "i < 128" "i < length t"
  shows "gpt_entry_at L c 2 i = gpt_entry_of_part 9 (t ! i)"
  using formatted_entry [OF assms(1,2)] assms(3) gpt_chunk_entry by (auto simp flip: Cons_nth_drop_Suc)

lemma formatted_entry_hi:
  assumes "map c [1024..<1024 + 16384] = gpt_array L 32 t" "i < 128" "\<not> i < length t"
  shows "partition_type_guid (gpt_entry_at L c 2 i) = null_uuid"
  using formatted_entry [OF assms(1,2)] assms(3) gpt_chunk_empty by auto

lemma formatted_listing:
  assumes "map c [1024..<1024 + 16384] = gpt_array L 32 t"
  shows "gpt_listing L c (map (gpt_entry_at L c 2) [0..<128])
    = gpt_listing L c (map (gpt_entry_of_part 9) (take 128 t))"
proof -
  define m where "m = min (length t) 128"
  have m: "m \<le> 128" "m \<le> length t" "length (take 128 t) = m" by (simp_all add: m_def)
  have lo: "gpt_entry_at L c 2 i = gpt_entry_of_part 9 (take 128 t ! i)" if "i < m" for i
    using formatted_entry_lo [OF assms] that m by simp
  have hi: "partition_type_guid (gpt_entry_at L c 2 i) = null_uuid" if "m \<le> i" "i < 128" for i
    using formatted_entry_hi [OF assms that(2)] that by (simp add: m_def)
  have null: "\<not> uuid_isset L null_uuid" using uuid_law by (simp add: uuid_law_def)
  have split: "[0..<128] = [0..<m] @ [m..<128]" using upt_add_eq_append [of 0 m "128 - m"] m(1) by simp
  have "map (gpt_entry_at L c 2) [0..<m] = map (gpt_entry_of_part 9) (take 128 t)"
    using lo m(3) by (intro nth_equalityI) simp_all
  moreover have "filter (\<lambda>e. uuid_isset L (partition_type_guid e)) (map (gpt_entry_at L c 2) [m..<128]) = []"
    using hi null by (auto simp: filter_empty_conv)
  ultimately show ?thesis by (simp add: gpt_listing_def split)
qed

end

section \<open>Partitions that survive\<close>

text \<open>A partition of one of the framework's own types, in whole sectors, with a name that fits its field.\<close>

definition rescannable :: "sming \<Rightarrow> part_info \<Rightarrow> bool" where
  "rescannable L p \<longleftrightarrow> typeGuid p = SmingTypeGuid \<lparr>ft_type = p_type p, ft_subtype = p_subtype p\<rparr> \<and>
     p_type p \<noteq> Type_invalid L \<and> systype p = SysUnknown \<and> sysind p = 0 \<and>
     512 dvd unat (p_offset p) \<and> 512 dvd unat (p_size p) \<and> unat (p_offset p) + unat (p_size p) < 2 ^ 64 \<and>
     length (p_name p) \<le> 36 \<and> CHR 0x00 \<notin> set (p_name p) \<and> (p_name p \<noteq> [] \<or> \<not> uuid_isset L (uniqueGuid p))"

text \<open>A partition of any type as it is found again. What the scanner makes of the type depends on the type GUID: for one of
  the framework's own it is the type, otherwise it is that of the volume in the partition, whose size it takes over.\<close>

definition gpt_oem_name :: "string \<Rightarrow> string" where
  "gpt_oem_name nm = take 36 (takeWhile (\<lambda>ch. ch \<noteq> CHR 0x00) nm)"

definition gpt_rescanned :: "sming \<Rightarrow> (nat \<Rightarrow> u8) \<Rightarrow> part_info \<Rightarrow> part_info" where
  "gpt_rescanned L c p =
     (let ft = SmingTypeGuid_match L (typeGuid p);
          found = (if fulltype_isset L ft then part_info_new [] ft (p_offset p) (p_size p)
            else case identify L (sector_of c (unat (p_offset p) div 512)) (p_offset p) of
                   Ret (Some v) \<Rightarrow> v
                 | _ \<Rightarrow> part_info_new [] (fulltype_none L) (p_offset p) (p_size p))
      in named L (found\<lparr>typeGuid := typeGuid p, uniqueGuid := uniqueGuid p, p_name := gpt_oem_name (p_name p)\<rparr>))"

text \<open>In whole sectors, with a type GUID, and with a readable first sector where the scanner looks at it.\<close>

definition gpt_findable :: "sming \<Rightarrow> nat \<Rightarrow> (nat \<Rightarrow> u8) \<Rightarrow> part_info \<Rightarrow> bool" where
  "gpt_findable L lim c p \<longleftrightarrow> uuid_isset L (typeGuid p) \<and>
     512 dvd unat (p_offset p) \<and> 512 dvd unat (p_size p) \<and> unat (p_offset p) + unat (p_size p) < 2 ^ 64 \<and>
     (\<not> fulltype_isset L (SmingTypeGuid_match L (typeGuid p)) \<longrightarrow> unat (p_offset p) + 512 \<le> lim \<and>
        identify L (sector_of c (unat (p_offset p) div 512)) (p_offset p) \<noteq> Fault)"

lemma widen_char_back: "char_of (unat (ucast (widen_char ch) :: u8)) = ch"
proof -
  have "ucast (scast w :: u16) = w" for w :: u8
    by (rule bit_word_eqI) (auto simp: bit_simps)
  moreover have "unat (of_char ch :: u8) = of_char ch"
  proof -
    have "(of_char ch :: u8) = of_nat (of_char ch)" by (rule of_nat_of_char [symmetric])
    moreover have "(of_char ch :: nat) < 2 ^ LENGTH(8)" using mod_less_divisor [of 256 "of_char ch :: nat"] by simp
    ultimately show ?thesis by (simp only: unat_of_nat_word)
  qed
  ultimately show ?thesis by (simp add: widen_char_def)
qed

lemma widen_char_zero: "widen_char ch = 0 \<longleftrightarrow> ch = CHR 0x00"
proof
  assume "widen_char ch = 0"
  then have "char_of (0 :: nat) = ch" using widen_char_back [of ch] by simp
  then show "ch = CHR 0x00" by (simp add: char_of_def)
qed (simp add: widen_char_def)

lemma unicode_to_oem_name: "unicode_to_oem (gpt_name nm) = gpt_oem_name nm"
proof -
  have "unicode_to_oem (map widen_char xs @ replicate k 0) = xs" if "CHR 0x00 \<notin> set xs" for xs k
    using that by (induction xs) (cases k, auto simp: widen_char_zero widen_char_back)
  moreover have "CHR 0x00 \<notin> set (take 36 (takeWhile (\<lambda>c. c \<noteq> CHR 0x00) nm))"
    by (auto dest!: in_set_takeD set_takeWhileD)
  ultimately show ?thesis by (simp only: gpt_name_def gpt_oem_name_def Let_def)
qed

lemma gpt_oem_name_id:
  assumes "length nm \<le> 36" "CHR 0x00 \<notin> set nm"
  shows "gpt_oem_name nm = nm"
proof -
  have "takeWhile (\<lambda>c. c \<noteq> CHR 0x00) nm = nm" using assms(2) by (intro takeWhile_eq_all_conv [THEN iffD2]) auto
  then show ?thesis using assms(1) by (simp only: gpt_oem_name_def take_all)
qed

lemma unat_drop_9: "unat (drop_bit 9 (x :: u64)) = unat x div 512"
  using trans [OF unat_drop_bit_eq drop_bit_eq_div, of 9 x] by simp

lemma push_drop_9: "512 dvd unat x \<Longrightarrow> push_bit 9 (drop_bit 9 x) = (x :: u64)"
  using unat_push_drop [of 9 x] by (simp add: word_unat_eq_iff)

lemma gpt_entry_of_part_fields:
  "partition_type_guid (gpt_entry_of_part 9 p) = typeGuid p" "unique_partition_guid (gpt_entry_of_part 9 p) = uniqueGuid p"
  "partition_name (gpt_entry_of_part 9 p) = gpt_name (p_name p)"
  "ge_starting_lba (gpt_entry_of_part 9 p) = drop_bit 9 (p_offset p)"
  "ge_ending_lba (gpt_entry_of_part 9 p) = drop_bit 9 (p_offset p + p_size p) - 1"
  by (simp_all add: gpt_entry_of_part_def diskpart_def disk_part.truncate_def)

text \<open>The position and the size of an entry are those of the partition.\<close>

lemma gpt_entry_extent:
  assumes "512 dvd unat (p_offset p)" "512 dvd unat (p_size p)" "unat (p_offset p) + unat (p_size p) < 2 ^ 64"
  defines "e \<equiv> gpt_entry_of_part 9 p"
  shows "push_bit 9 (ge_starting_lba e) = p_offset p" "push_bit 9 (1 + ge_ending_lba e - ge_starting_lba e) = p_size p"
    "unat (ge_starting_lba e) = unat (p_offset p) div 512"
proof -
  show "push_bit 9 (ge_starting_lba e) = p_offset p" "unat (ge_starting_lba e) = unat (p_offset p) div 512"
    unfolding e_def gpt_entry_of_part_fields by (rule push_drop_9 [OF assms(1)], rule unat_drop_9)
  have s: "unat (p_offset p + p_size p) = unat (p_offset p) + unat (p_size p)"
    using unat_add_lem [of "p_offset p" "p_size p"] assms(3) by simp
  have "unat (drop_bit 9 (p_offset p + p_size p)) = unat (drop_bit 9 (p_offset p)) + unat (drop_bit 9 (p_size p))"
    unfolding unat_drop_9 s by (rule div_plus_div_distrib_dvd_left [OF assms(1)])
  then have "drop_bit 9 (p_offset p + p_size p) = drop_bit 9 (p_offset p) + drop_bit 9 (p_size p)"
    using unat_add_lem [of "drop_bit 9 (p_offset p)" "drop_bit 9 (p_size p)"]
    by (metis unsigned_less word_unat_eq_iff)
  then have "1 + ge_ending_lba e - ge_starting_lba e = drop_bit 9 (p_size p)"
    unfolding e_def gpt_entry_of_part_fields by simp
  then show "push_bit 9 (1 + ge_ending_lba e - ge_starting_lba e) = p_size p" using push_drop_9 [OF assms(2)] by simp
qed

lemma gpt_found_rescanned:
  assumes "gpt_findable L lim c p"
  shows "named L (gpt_found L c (gpt_entry_of_part 9 p)) = gpt_rescanned L c p"
proof -
  have d: "512 dvd unat (p_offset p)" "512 dvd unat (p_size p)" "unat (p_offset p) + unat (p_size p) < 2 ^ 64"
    using assms by (simp_all add: gpt_findable_def)
  show ?thesis
    unfolding gpt_found_def gpt_rescanned_def gpt_volume_def Let_def gpt_scan_part_def gpt_entry_extent [OF d]
    unfolding gpt_entry_of_part_fields unicode_to_oem_name ..
qed

text \<open>A partition of the framework's own types survives as it is.\<close>

lemma rescannable_same:
  assumes "rescannable L p" "fulltype_law L"
  shows "gpt_rescanned L c p = p"
proof -
  let ?ft = "\<lparr>ft_type = p_type p, ft_subtype = p_subtype p\<rparr>"
  have r: "typeGuid p = SmingTypeGuid ?ft" "p_type p \<noteq> Type_invalid L" "systype p = SysUnknown" "sysind p = 0"
    "p_name p \<noteq> [] \<or> \<not> uuid_isset L (uniqueGuid p)" and nm: "gpt_oem_name (p_name p) = p_name p"
    using assms(1) gpt_oem_name_id by (simp_all add: rescannable_def)
  have m: "SmingTypeGuid_match L (typeGuid p) = ?ft"
    by (simp add: r(1) SmingTypeGuid_match_def SmingTypeGuid_def sming_baseguid_def)
  have "fulltype_isset L ?ft" using assms(2) r(2) by (simp add: fulltype_law_def)
  then have "gpt_rescanned L c p = named L p"
    unfolding gpt_rescanned_def Let_def m nm using r(3,4) by (cases p) (simp add: part_info_new_def)
  then show ?thesis using r(5) by (auto simp: named_def)
qed

lemma rescannable_findable:
  assumes "rescannable L p" "uuid_law L" "fulltype_law L"
  shows "gpt_findable L lim c p"
proof -
  let ?ft = "\<lparr>ft_type = p_type p, ft_subtype = p_subtype p\<rparr>"
  have r: "typeGuid p = SmingTypeGuid ?ft" "p_type p \<noteq> Type_invalid L" using assms(1) by (simp_all add: rescannable_def)
  have "SmingTypeGuid_match L (typeGuid p) = ?ft"
    by (simp add: r(1) SmingTypeGuid_match_def SmingTypeGuid_def sming_baseguid_def)
  moreover have "fulltype_isset L ?ft" using assms(3) r(2) by (simp add: fulltype_law_def)
  moreover have "uuid_isset L (typeGuid p)"
    using assms(2) by (simp add: r(1) uuid_law_def SmingTypeGuid_def sming_baseguid_def mk_uuid_def null_uuid_def)
  ultimately show ?thesis using assms(1) by (simp add: gpt_findable_def rescannable_def)
qed

section \<open>Formatted disks are recognised\<close>

text \<open>A sector without boot code is no volume.\<close>

lemma identify_no_boot:
  assumes "length buf = 512" "take 11 buf = replicate 11 0"
  shows "identify L buf offset = Ret None"
proof -
  have b: "buf = replicate 11 0 @ drop 11 buf" using assms(2) by (metis append_take_drop_id)
  have "seg 0 3 buf = replicate 3 0" by (subst b) simp
  then have j: "jmp_boot (fat_boot_of_bytes buf) ! 0 = 0" by (simp add: fat_boot_of_bytes_def)
  have "seg 3 8 buf = replicate 8 0" by (subst b) simp
  then have "ex_fs_type (exfat_boot_of_bytes buf) = 0"
    using at_zeros(4) [of 0 8] by (simp add: exfat_boot_of_bytes_def u64_at_def)
  then show ?thesis using j assms(1) by (simp add: identify_def Let_def FSTYPE_EXFAT_def)
qed

lemma identify_mbr:
  assumes "legacy_mbr_wf m" "mbr_boot_code m = replicate 440 0"
  shows "identify L (legacy_mbr_bytes m) offset = Ret None"
  by (rule identify_no_boot) (use mbr.enc_length [OF assms(1)] assms(2) in \<open>simp_all add: legacy_mbr_bytes_def\<close>)

lemma identify_zeros: "identify L (replicate 512 0) offset = Ret None"
  by (rule identify_no_boot) (simp_all only: length_replicate take_replicate min_def, simp)

lemma sector_of_split:
  assumes "m \<le> 512"
  shows "sector_of c k = map c [k * 512..<k * 512 + m] @ map c [k * 512 + m..<k * 512 + 512]"
proof -
  have "[k * 512..<k * 512 + m + (512 - m)] = [k * 512..<k * 512 + m] @ [k * 512 + m..<k * 512 + m + (512 - m)]"
    by (rule upt_add_eq_append) simp
  then show ?thesis using assms by (simp add: sector_of_def flip: map_append)
qed

lemma formatted_gpt_disk:
  assumes "uuid_law L" and c0: "map c [0..<512] = legacy_mbr_bytes (protective_mbr n)"
    and c1: "map c [512..<512 + 92] = gpt_header_bytes L h"
    and h: "h = gpt_sign L (gpt_primary_header n 32 b bcc g)"
    and c2: "map c [1024..<1024 + 16384] = gpt_array L 32 t" and lim: "34 * 512 \<le> lim"
    and vis: "\<forall>p \<in> set (take 128 t). gpt_visible L lim c (gpt_entry_of_part 9 p)"
  shows "gpt_disk L lim c h" "gpt_disk_parts L c h = gpt_listing L c (map (gpt_entry_of_part 9) (take 128 t))"
proof -
  have ul: "uuid_layout L" by unfold_locales (rule assms(1))
  have s0: "sector_of c 0 = legacy_mbr_bytes (protective_mbr n)" by (simp only: sector_of_def mult_0 add_0 c0)
  have s1: "sector_of c 1 = gpt_header_bytes L h @ map c [512 + 92..<512 + 512]"
  proof -
    have "(92 :: nat) \<le> 512" by simp
    from sector_of_split [OF this, of c 1] show ?thesis by (simp only: mult_1 c1)
  qed
  have hdr: "gpt_header_of_bytes L (sector_of c 1) = h"
    unfolding s1 by (rule uuid_layout.gpt_header_back [OF ul])
  have ver: "verifyGptHeader L (sector_of c 1) = Ret True"
    unfolding s1 h by (rule uuid_layout.verify_signed [OF ul]) (simp_all add: gpt_primary_header_def GPT_ITEMS_def)
  have hl: "unat (partition_entry_lba h) = 2" "unat (num_partition_entries h) = 128"
    by (simp_all add: h gpt_sign_def gpt_primary_header_def GPT_ITEMS_def)
  have m: "legacy_mbr_of_bytes (sector_of c 0) = protective_mbr n"
    unfolding s0 by (rule mbr.dec_enc_exact [OF protective_mbr_wf])
  have id0: "identify L (sector_of c 0) 0 = Ret None"
    unfolding s0 by (rule identify_mbr [OF protective_mbr_wf]) (simp add: protective_mbr_def)
  have v: "gpt_visible L lim c (gpt_entry_at L c 2 j)" if "j < 128" for j
  proof (cases "j < length t")
    case True
    then have "t ! j \<in> set (take 128 t)" using that by (auto simp: in_set_conv_nth intro!: exI [of _ j])
    then show ?thesis using vis uuid_layout.formatted_entry_lo [OF ul c2 that True] by simp
  next
    case False
    then show ?thesis using uuid_layout.formatted_entry_hi [OF ul c2 that] assms(1) by (simp add: gpt_visible_def uuid_law_def)
  qed
  show "gpt_disk L lim c h"
    using id0 m hdr ver v lim by (simp add: gpt_disk_def hl protective_mbr_def del: One_nat_def)
  show "gpt_disk_parts L c h = gpt_listing L c (map (gpt_entry_of_part 9) (take 128 t))"
    using uuid_layout.formatted_listing [OF ul c2] by (simp add: gpt_disk_parts_def hl)
qed

lemma findable_visible:
  assumes "gpt_findable L lim c p"
  shows "gpt_visible L lim c (gpt_entry_of_part 9 p)"
proof -
  have d: "512 dvd unat (p_offset p)" "512 dvd unat (p_size p)" "unat (p_offset p) + unat (p_size p) < 2 ^ 64"
    using assms by (simp_all add: gpt_findable_def)
  have "(unat (p_offset p) div 512 + 1) * 512 = unat (p_offset p) + 512" using d(1) by simp
  then show ?thesis using assms
    unfolding gpt_visible_def gpt_volume_def gpt_entry_extent [OF d]
    unfolding gpt_entry_of_part_fields gpt_findable_def by (simp add: add.commute)
qed

lemma findable_listing:
  assumes "\<forall>p \<in> set t. gpt_findable L lim c p"
  shows "gpt_listing L c (map (gpt_entry_of_part 9) t) = map (gpt_rescanned L c) t"
proof -
  have "filter (\<lambda>p. uuid_isset L (typeGuid p)) t = t" using assms by (simp add: filter_id_conv gpt_findable_def)
  moreover have "map (\<lambda>p. named L (gpt_found L c (gpt_entry_of_part 9 p))) t = map (gpt_rescanned L c) t"
    using assms gpt_found_rescanned by (intro map_cong) blast+
  ultimately show ?thesis by (simp add: gpt_listing_def filter_map comp_def gpt_entry_of_part_fields)
qed

text \<open>Scanning a disk that was formatted.\<close>

lemma gpt_formatted_disk:
  assumes "raw_media ops ss media" "reliable ops" "ready media ss dev" "size_bits_law L" "uuid_law L"
    and "67 \<le> unat (sectorCount dev)" "unat (sectorCount dev) * 512 \<le> cache_limit ss"
    and "formatDisk_gpt L ops gen (Some ws) dev pt table diskGuid = Some (Ret ((dev', pt', table'), Success))"
    and "\<forall>p \<in> set (take 128 pt'). gpt_findable L (cache_limit ss) (bd_content media ss dev') p"
  shows "ready media ss dev'" "content ss (media (raw dev')) = bd_content media ss dev'"
    "\<exists>h. gpt_disk L (cache_limit ss) (bd_content media ss dev') h \<and>
       gpt_disk_parts L (bd_content media ss dev') h = map (gpt_rescanned L (bd_content media ss dev')) (take 128 pt')"
proof -
  let ?n = "sectorCount dev" and ?c = "bd_content media ss dev'"
  obtain bufs where ok: "bd_ok media ss dev" and b: "buffers dev = Some bufs" using assms(3) by (auto simp: ready_def)
  have tb: "table \<noteq> []" using assms(8) by (auto simp: formatDisk_gpt_def)
  have n34: "34 \<le> unat ?n" using assms(6) by simp
  have lim: "34 * 512 \<le> cache_limit ss" using assms(6,7) by simp
  define h where "h = gpt_sign L (gpt_primary_header ?n 32 (?n - 33) (crc32 0 (gpt_array L 32 pt'))
      (if uuid_isset L diskGuid then diskGuid else gen))"
  note fc = formatDisk_gpt_content [OF assms(1) ok assms(4,5) refl assms(6-8)]
  have val: "validate L table 2048 (gpt_region ?n) 512 = Some (Ret (pt', Success))"
    and content: "map ?c [0..<512] = legacy_mbr_bytes (protective_mbr ?n)" "map ?c [512..<512 + 92] = gpt_header_bytes L h"
      "map ?c [1024..<1024 + 16384] = gpt_array L 32 pt'"
    using fc unfolding h_def Let_def by blast+
  show "content ss (media (raw dev')) = ?c" using fc by blast
  show "ready media ss dev'"
    using format_gpt_returns [OF assms(1,2) ok b assms(4,5) n34 assms(7) tb val, of gen ws pt diskGuid] assms(8) by auto
  have "\<forall>p \<in> set (take 128 pt'). gpt_visible L (cache_limit ss) ?c (gpt_entry_of_part 9 p)"
    using assms(9) findable_visible by blast
  note disk = formatted_gpt_disk [OF assms(5) content(1,2) h_def content(3) lim this]
  then show "\<exists>h. gpt_disk L (cache_limit ss) ?c h \<and> gpt_disk_parts L ?c h = map (gpt_rescanned L ?c) (take 128 pt')"
    using findable_listing [OF assms(9)] by auto
qed

text \<open>Any device with that content is scanned the same way.\<close>

lemma scan_gpt_content:
  assumes "raw_media ops ss media" "reliable ops" "ready media ss dev" "size_bits_law L"
    and "\<exists>h. gpt_disk L (cache_limit ss) (bd_content media ss dev) h \<and> gpt_disk_parts L (bd_content media ss dev) h = ps"
  shows "\<exists>dev'. scanPartitions L (bd_read ops) (Some w1) (Some w2) fresh dev = Some (Ret (dev', ps, True)) \<and>
    bd_content media ss dev' = bd_content media ss dev"
proof -
  have u64: "cache_limit ss < 2 ^ 64" using assms(3) cache_limit_u64 by (auto simp: ready_def bd_ok_def)
  obtain h where h: "gpt_disk L (cache_limit ss) (bd_content media ss dev) h" "gpt_disk_parts L (bd_content media ss dev) h = ps"
    using assms(5) by blast
  show ?thesis
    using reliable_disk.scan_gpt_disk [OF ready_disk [OF assms(1,2) u64] assms(4,3) h(1), of w1 w2 fresh] h(2) by auto
qed

lemma gpt_format_scan:
  assumes "raw_media ops ss media" "reliable ops" "ready media ss dev" "size_bits_law L" "uuid_law L"
    and "67 \<le> unat (sectorCount dev)" "unat (sectorCount dev) * 512 \<le> cache_limit ss"
    and "formatDisk_gpt L ops gen (Some ws) dev pt table diskGuid = Some (Ret ((dev', pt', table'), Success))"
    and "\<forall>p \<in> set (take 128 pt'). gpt_findable L (cache_limit ss) (bd_content media ss dev') p"
  shows "\<exists>dev''. scanPartitions L (bd_read ops) (Some w1) (Some w2) fresh dev'
      = Some (Ret (dev'', map (gpt_rescanned L (bd_content media ss dev')) (take 128 pt'), True)) \<and>
    bd_content media ss dev'' = bd_content media ss dev'"
  by (rule scan_gpt_content [OF assms(1,2) gpt_formatted_disk(1) [OF assms] assms(4) gpt_formatted_disk(3) [OF assms]])

section \<open>MBR\<close>

text \<open>A partition as it is found again: its name and volume type come from its place and its indicator; when it holds a
  volume, the size is that of the volume.\<close>

definition mbr_rescanned :: "sming \<Rightarrow> (nat \<Rightarrow> u8) \<Rightarrow> nat \<Rightarrow> part_info \<Rightarrow> part_info" where
  "mbr_rescanned L c i p =
     (let st = getSysTypeFromIndicator (sysind p); nm = ''mbr'' @ num_str L i in
      case identify L (sector_of c (unat (p_offset p) div 512)) (p_offset p) of
        Ret (Some v) \<Rightarrow> v\<lparr>p_name := nm, systype := st, sysind := sysind p\<rparr>
      | _ \<Rightarrow> \<lparr>typeGuid = null_uuid, uniqueGuid = null_uuid, systype = st, sysind = sysind p, p_name = nm,
              p_type = (if st \<in> fatTypes then Type_data L else Type_invalid L),
              p_subtype = (if st \<in> fatTypes then SubType_fat L else ft_subtype (fulltype_none L)),
              p_offset = p_offset p, p_size = p_size p\<rparr>)"

text \<open>What is recognised as a volume is FAT data at the given place.\<close>

lemma identify_volume:
  assumes "identify L buf offset = Ret (Some v)"
  shows "p_type v = Type_data L" "p_subtype v = SubType_fat L" "p_offset v = offset" "sysind v = 0" "systype v \<in> fatTypes"
    "typeGuid v = null_uuid" "uniqueGuid v = null_uuid"
  using assms by (auto simp: identify_def Let_def fat_part_def part_info_new_def fat_type_def fatTypes_def split: if_splits)

text \<open>In whole sectors, within the first 4 GiB, and not an extended partition.\<close>

definition mbr_findable :: "sming \<Rightarrow> (nat \<Rightarrow> u8) \<Rightarrow> part_info \<Rightarrow> bool" where
  "mbr_findable L c p \<longleftrightarrow> 512 dvd unat (p_offset p) \<and> 512 dvd unat (p_size p) \<and> p_offset p \<noteq> 0 \<and> p_size p \<noteq> 0 \<and>
     unat (p_offset p) < 2 ^ 32 \<and> unat (p_size p) < 2 ^ 32 \<and> sysind p \<noteq> OSTYPE_EXTENDED \<and>
     identify L (sector_of c (unat (p_offset p) div 512)) (p_offset p) \<noteq> Fault"

lemma unat_lba32: "unat x < 2 ^ 32 \<Longrightarrow> unat (ucast (drop_bit 9 (x :: u64)) :: u32) = unat x div 512"
proof -
  assume x: "unat x < 2 ^ 32"
  then have "unat x div 512 < 2 ^ 32" by simp
  then show ?thesis by (simp add: unsigned_ucast_eq unat_drop_9 take_bit_nat_eq_self)
qed

lemma push_drop_32:
  assumes "512 dvd unat x" "unat x < 2 ^ 32"
  shows "ucast (push_bit 9 (ucast (drop_bit 9 x) :: u32)) = (x :: u64)"
proof -
  have "unat x div 512 * 512 = unat x" using assms(1) by simp
  then have "unat (push_bit 9 (ucast (drop_bit 9 x) :: u32)) = unat x"
    unfolding unsigned_push_bit_eq unat_lba32 [OF assms(2)] using assms(2)
    by (simp add: push_bit_eq_mult take_bit_nat_eq_self)
  then show ?thesis by (simp add: word_unat_eq_iff unat_ucast_up)
qed

lemma mbr_entry_fields:
  "starting_lba (mbr_entry 9 h p) = ucast (drop_bit 9 (p_offset p))" "size_in_lba (mbr_entry 9 h p) = ucast (drop_bit 9 (p_size p))"
  "os_type (mbr_entry 9 h p) = sysind p"
  by (simp_all add: mbr_entry_def Let_def diskpart_def disk_part.truncate_def)

lemma mbr_part_rescanned:
  assumes "mbr_findable L c p" "fulltype_law L" "i < 2 ^ 16"
    and "identify L (sector_of c (unat (p_offset p) div 512)) (p_offset p) = Ret found"
  shows "mbr_part L (mbr_entry 9 h p) (of_nat i) 9 (p_offset p) found = mbr_rescanned L c i p"
proof -
  have i: "unat (of_nat i :: u16) = i" using assms(3) by (intro unat_of_nat_word) simp
  have sz: "ucast (push_bit 9 (size_in_lba (mbr_entry 9 h p))) = p_size p"
    unfolding mbr_entry_fields by (rule push_drop_32) (use assms(1) in \<open>simp_all add: mbr_findable_def\<close>)
  show ?thesis
  proof (cases found)
    case None
    then show ?thesis using assms(2,4) i sz
      by (simp add: mbr_part_def mbr_rescanned_def part_info_new_def mbr_entry_fields fulltype_law_def Let_def)
  next
    case (Some v)
    then have "p_type v \<noteq> Type_invalid L" using identify_volume [of L _ _ v] assms(2,4) by (simp add: fulltype_law_def)
    then show ?thesis using Some assms(4) i
      by (cases v) (simp add: mbr_part_def mbr_rescanned_def mbr_entry_fields Let_def)
  qed
qed

lemma mbr_listing_formatted:
  assumes "\<forall>p \<in> set t. mbr_findable L c p" "fulltype_law L" "k + length t < 2 ^ 16" "2 ^ 23 \<le> n"
  shows "mbr_listing (Suc (length t)) L n c k (map (mbr_entry 9 h) t)
    = Some (map (\<lambda>(i, p). mbr_rescanned L c i p) (enumerate (Suc k) t))"
  using assms(1,3)
proof (induction t arbitrary: k)
  case Nil
  then show ?case by simp
next
  case (Cons p t)
  have p: "mbr_findable L c p" using Cons.prems(1) by simp
  let ?lba = "starting_lba (mbr_entry 9 h p)"
  have lba: "unat ?lba = unat (p_offset p) div 512"
    unfolding mbr_entry_fields by (rule unat_lba32) (use p in \<open>simp add: mbr_findable_def\<close>)
  moreover have "unat (p_offset p) div 512 < 2 ^ 23"
    by (rule less_mult_imp_div_less) (use p in \<open>simp add: mbr_findable_def\<close>)
  ultimately have lt: "unat ?lba < n" using assms(4) by linarith
  have off: "ucast (push_bit 9 ?lba) = p_offset p"
    unfolding mbr_entry_fields by (rule push_drop_32) (use p in \<open>simp_all add: mbr_findable_def\<close>)
  obtain found where fnd: "identify L (sector_of c (unat (p_offset p) div 512)) (p_offset p) = Ret found"
    using p by (cases "identify L (sector_of c (unat (p_offset p) div 512)) (p_offset p)") (auto simp: mbr_findable_def)
  have id: "identify L (sector_of c (unat ?lba)) (p_offset p) = Ret found" unfolding lba by (rule fnd)
  have ext: "os_type (mbr_entry 9 h p) \<noteq> OSTYPE_EXTENDED" using p by (simp add: mbr_entry_fields mbr_findable_def)
  have "Suc k < 2 ^ 16" using Cons.prems(2) by simp
  note part = mbr_part_rescanned [OF p assms(2) this fnd, of h]
  have ih: "mbr_listing (Suc (length t)) L n c (Suc k) (map (mbr_entry 9 h) t)
      = Some (map (\<lambda>(i, p). mbr_rescanned L c i p) (enumerate (Suc (Suc k)) t))"
    by (rule Cons.IH) (use Cons.prems in simp_all)
  show ?case
    using lt ext id ih part by (simp add: Let_def off del: of_nat_Suc)
qed

lemma relocated_formatted:
  assumes "\<forall>p \<in> set t. mbr_findable L c p"
  shows "relocated 0 (map (mbr_entry 9 h) t @ replicate m no_record) = map (mbr_entry 9 h) t"
proof -
  have nz: "starting_lba (mbr_entry 9 h p) \<noteq> 0 \<and> size_in_lba (mbr_entry 9 h p) \<noteq> 0" if "p \<in> set t" for p
  proof -
    have f: "512 dvd unat (p_offset p)" "512 dvd unat (p_size p)" "p_offset p \<noteq> 0" "p_size p \<noteq> 0"
      "unat (p_offset p) < 2 ^ 32" "unat (p_size p) < 2 ^ 32" using assms that by (simp_all add: mbr_findable_def)
    have "unat (p_offset p) \<noteq> 0" "unat (p_size p) \<noteq> 0" using f(3,4) by (simp_all add: unat_eq_0)
    then have "unat (p_offset p) div 512 \<noteq> 0" "unat (p_size p) div 512 \<noteq> 0"
      using dvd_div_eq_0_iff [OF f(1)] dvd_div_eq_0_iff [OF f(2)] by simp_all
    then show ?thesis unfolding mbr_entry_fields using unat_lba32 [OF f(5)] unat_lba32 [OF f(6)] by fastforce
  qed
  have "filter (\<lambda>r. starting_lba r \<noteq> 0 \<and> size_in_lba r \<noteq> 0) (map (mbr_entry 9 h) t) = map (mbr_entry 9 h) t"
    using nz by (auto simp: filter_id_conv)
  then show ?thesis by (simp add: relocated_def no_record_def)
qed

lemma format_mbr_ready:
  assumes "raw_media ops ss media" "reliable ops" "ready media ss dev" "size_bits_law L" "512 \<le> cache_limit ss"
    and "formatDisk_mbr L ops mem dev pt table = Some (Ret ((dev', pt', table'), Success))"
  shows "ready media ss dev'"
proof -
  have tb: "table \<noteq> []" "length table \<le> 4" using assms(6) by (auto simp: formatDisk_mbr_def split: if_splits)
  note st = formatDisk_mbr_steps [OF assms(4) tb, of ops mem dev pt, unfolded assms(6)]
  obtain t dev1 where t: "validate L table 2048 (mbr_region (sectorCount dev)) 512 = Some (Ret (t, Success))"
    and w: "bd_write ops dev 0 (legacy_mbr_bytes (mbr_of 9 (numHeads_for (ucast (sectorCount dev))) t)) = (dev1, True)"
    and s: "bd_sync ops dev1 = (dev', True)"
    using st by (auto split: option.splits run.splits prod.splits if_splits bool.splits)
  let ?m = "legacy_mbr_bytes (mbr_of 9 (numHeads_for (ucast (sectorCount dev))) t)"
  have "length t \<le> 4" using validate_length [OF t] tb(2) by simp
  then have len: "length ?m = 512" by (intro mbr.enc_length mbr_of_wf)
  have "unat (0 :: u64) + length ?m \<le> cache_limit ss" using len assms(5) by simp
  from ready_write [OF assms(1-3) this] w have "ready media ss dev1" by auto
  from ready_sync [OF assms(1,2) this] s show ?thesis by auto
qed

lemma sector_of_overwrite:
  assumes "length bs = 512" "1 \<le> k"
  shows "sector_of (overwrite 0 bs c) k = sector_of c k"
proof -
  have "512 \<le> k * 512" using assms(2) by simp
  then show ?thesis using assms(1) by (auto simp: sector_of_def overwrite_def)
qed

text \<open>The first sector of a formatted disk.\<close>

lemma mbr_formatted_sector:
  assumes "length t \<le> 4" "c' = overwrite 0 (legacy_mbr_bytes (mbr_of 9 h t)) c"
  shows "identify L (sector_of c' 0) 0 = Ret None" "legacy_mbr_of_bytes (sector_of c' 0) = mbr_of 9 h t"
    "mbr_records c' 0 = map (mbr_entry 9 h) t @ replicate (4 - length t) no_record"
    "length (legacy_mbr_bytes (mbr_of 9 h t)) = 512"
proof -
  note wf = mbr_of_wf [OF assms(1)]
  show ml: "length (legacy_mbr_bytes (mbr_of 9 h t)) = 512" by (rule mbr.enc_length [OF wf])
  have s0: "sector_of c' 0 = legacy_mbr_bytes (mbr_of 9 h t)"
    unfolding assms(2) sector_of_def mult_0 add_0 using map_overwrite [OF ml [symmetric], of 0 c] by (simp only: add_0)
  show m: "legacy_mbr_of_bytes (sector_of c' 0) = mbr_of 9 h t" unfolding s0 by (rule mbr.dec_enc_exact [OF wf])
  show "mbr_records c' 0 = map (mbr_entry 9 h) t @ replicate (4 - length t) no_record"
    by (simp add: mbr_records_def m mbr_of_def)
  show "identify L (sector_of c' 0) 0 = Ret None" unfolding s0 by (rule identify_mbr [OF wf]) (simp add: mbr_of_def)
qed

lemma mbr_formatted_disk:
  assumes "raw_media ops ss media" "reliable ops" "ready media ss dev" "size_bits_law L" "fulltype_law L" "2 ^ 32 \<le> cache_limit ss"
    and "formatDisk_mbr L ops mem dev pt table = Some (Ret ((dev', pt', table'), Success))"
    and "\<forall>p \<in> set pt'. mbr_findable L (bd_content media ss dev) p" "sysind (hd pt') \<noteq> EFI_PMBR_OSTYPE_EFI_GPT"
  shows "ready media ss dev'" "content ss (media (raw dev')) = bd_content media ss dev'" "mbr_disk L (bd_content media ss dev')"
    "mbr_listing (Suc (length pt')) L (2 ^ 23) (bd_content media ss dev') 0 (relocated 0 (mbr_records (bd_content media ss dev') 0))
      = Some (map (\<lambda>(i, p). mbr_rescanned L (bd_content media ss dev) i p) (enumerate 1 pt'))"
proof -
  let ?c = "bd_content media ss dev" and ?c' = "bd_content media ss dev'" and ?h = "numHeads_for (ucast (sectorCount dev))"
  have ok: "bd_ok media ss dev" using assms(3) by (auto simp: ready_def)
  have lim: "512 \<le> cache_limit ss" using assms(6) by simp
  have tb: "table \<noteq> []" "length table \<le> 4" using assms(7) by (auto simp: formatDisk_mbr_def split: if_splits)
  have val: "validate L table 2048 (mbr_region (sectorCount dev)) 512 = Some (Ret (pt', Success))"
    and c': "?c' = overwrite 0 (legacy_mbr_bytes (mbr_of 9 ?h pt')) ?c"
    using formatDisk_mbr_content [OF assms(1) ok lim assms(4,7)] by blast+
  show "ready media ss dev'" by (rule format_mbr_ready [OF assms(1-4) lim assms(7)])
  show "content ss (media (raw dev')) = ?c'" using formatDisk_mbr_content [OF assms(1) ok lim assms(4,7)] by blast
  have len: "length pt' \<le> 4" "pt' \<noteq> []" using validate_length [OF val] tb by auto
  note disk = mbr_formatted_sector [OF len(1) c']
  have "mbr_records ?c' 0 ! 0 = mbr_entry 9 ?h (hd pt')" using len(2) by (cases pt') (simp_all add: disk(3))
  then show "mbr_disk L ?c'" using disk(1,2) assms(9) by (simp add: mbr_disk_def mbr_of_def mbr_entry_fields)
  have same: "sector_of ?c' (unat (p_offset p) div 512) = sector_of ?c (unat (p_offset p) div 512)" if "p \<in> set pt'" for p
  proof -
    have "512 dvd unat (p_offset p)" "unat (p_offset p) \<noteq> 0"
      using assms(8) that by (simp_all add: mbr_findable_def unat_eq_0)
    then have "unat (p_offset p) div 512 \<noteq> 0" using dvd_div_eq_0_iff [of 512 "unat (p_offset p)"] by simp
    then have one: "1 \<le> unat (p_offset p) div 512" by linarith
    show ?thesis unfolding c' by (rule sector_of_overwrite [OF disk(4) one])
  qed
  then have find: "\<forall>p \<in> set pt'. mbr_findable L ?c' p" using assms(8) by (simp add: mbr_findable_def)
  have "map (\<lambda>(i, p). mbr_rescanned L ?c' i p) (enumerate 1 pt') = map (\<lambda>(i, p). mbr_rescanned L ?c i p) (enumerate 1 pt')"
    using same by (auto simp: mbr_rescanned_def in_set_enumerate_eq)
  then show "mbr_listing (Suc (length pt')) L (2 ^ 23) ?c' 0 (relocated 0 (mbr_records ?c' 0))
      = Some (map (\<lambda>(i, p). mbr_rescanned L ?c i p) (enumerate 1 pt'))"
    unfolding disk(3) relocated_formatted [OF find] using mbr_listing_formatted [OF find assms(5), of 0 "2 ^ 23" ?h] len(1) by simp
qed

lemma scan_mbr_content:
  assumes "raw_media ops ss media" "reliable ops" "ready media ss dev" "size_bits_law L" "2 ^ 32 \<le> cache_limit ss"
    and "mbr_disk L (bd_content media ss dev)"
    and "mbr_listing f L (2 ^ 23) (bd_content media ss dev) 0 (relocated 0 (mbr_records (bd_content media ss dev) 0)) = Some ps"
  shows "\<exists>dev'. scanPartitions L (bd_read ops) (Some w1) m2 fresh dev = Some (Ret (dev', ps, True)) \<and>
    bd_content media ss dev' = bd_content media ss dev"
proof -
  have u64: "cache_limit ss < 2 ^ 64" using assms(3) cache_limit_u64 by (auto simp: ready_def bd_ok_def)
  have lim: "512 \<le> cache_limit ss" "2 ^ 23 * 512 \<le> cache_limit ss" using assms(5) by simp_all
  show ?thesis
    using reliable_disk.scan_mbr_disk [OF ready_disk [OF assms(1,2) u64] assms(4,3) lim(1) assms(6) lim(2) assms(7), of w1 m2 fresh]
    by auto
qed

lemma mbr_format_scan:
  assumes "raw_media ops ss media" "reliable ops" "ready media ss dev" "size_bits_law L" "fulltype_law L" "2 ^ 32 \<le> cache_limit ss"
    and "formatDisk_mbr L ops mem dev pt table = Some (Ret ((dev', pt', table'), Success))"
    and "\<forall>p \<in> set pt'. mbr_findable L (bd_content media ss dev) p" "sysind (hd pt') \<noteq> EFI_PMBR_OSTYPE_EFI_GPT"
  shows "\<exists>dev''. scanPartitions L (bd_read ops) (Some w1) m2 fresh dev'
      = Some (Ret (dev'', map (\<lambda>(i, p). mbr_rescanned L (bd_content media ss dev) i p) (enumerate 1 pt'), True)) \<and>
    bd_content media ss dev'' = bd_content media ss dev'"
  by (rule scan_mbr_content [OF assms(1,2) mbr_formatted_disk(1) [OF assms] assms(4,6) mbr_formatted_disk(3,4) [OF assms]])

end
