(* ===== verification/ScanProps.thy ===== *)
theory ScanProps
  imports Roundtrip
begin

text \<open>
  The properties of the scanner, of the pair of writer and scanner, and of the structures on disk. Their
  witnesses run on disks in memory (\<open>disk_image\<close>) and on the sparse file of \<open>DeviceProps\<close>.
\<close>

section \<open>Disks in memory\<close>

definition disk_image :: "u8 list list \<Rightarrow> nat \<Rightarrow> u8" where
  "disk_image secs k = (if k div 512 < length secs then secs ! (k div 512) ! (k mod 512) else 0)"

definition image_read :: "(nat \<Rightarrow> u8) \<Rightarrow> u64 \<Rightarrow> nat \<Rightarrow> (nat \<Rightarrow> u8) \<times> u8 list option" where
  "image_read c a n = (c, Some (map c [unat a..<unat a + n]))"

interpretation image_disk: reliable_disk image_read "\<lambda>_. True" "\<lambda>c. c" "2 ^ 63"
  by unfold_locales (auto simp: image_read_def)

lemma sector_of_image:
  assumes "k < length secs" "length (secs ! k) = 512"
  shows "sector_of (disk_image secs) k = secs ! k"
proof (rule nth_equalityI)
  fix i assume "i < length (sector_of (disk_image secs) k)"
  then have i: "i < 512" by simp
  then have "(k * 512 + i) div 512 = k" "(k * 512 + i) mod 512 = i" by simp_all
  then show "sector_of (disk_image secs) k ! i = secs ! k ! i" using i assms(1) by (simp add: sector_of_def disk_image_def)
qed (simp add: assms(2))

lemma sector_of_image_beyond: "length secs \<le> k \<Longrightarrow> sector_of (disk_image secs) k = replicate 512 0"
  by (rule nth_equalityI) (auto simp: sector_of_def disk_image_def div_add1_eq)

text \<open>Sectors with a partition table.\<close>

definition img_rec :: "u8 \<Rightarrow> u32 \<Rightarrow> gpt_mbr_record" where
  "img_rec os lba = no_record\<lparr>os_type := os, starting_lba := lba, size_in_lba := 1\<rparr>"

definition img_mbr :: "gpt_mbr_record list \<Rightarrow> legacy_mbr" where
  "img_mbr recs = \<lparr>mbr_boot_code = replicate 440 0, unique_mbr_signature = 0, mbr_unknown = 0,
     partition_record = take 4 (recs @ replicate 4 no_record), mbr_signature = MSDOS_MBR_SIGNATURE\<rparr>"

definition img_disk :: "gpt_mbr_record list list \<Rightarrow> nat \<Rightarrow> u8" where
  "img_disk tables = disk_image (map (\<lambda>t. legacy_mbr_bytes (img_mbr t)) tables)"

lemma img_mbr_wf: "legacy_mbr_wf (img_mbr recs)"
  by (simp add: legacy_mbr_wf_def img_mbr_def)

lemma img_disk_sector:
  assumes "k < length tables"
  shows "sector_of (img_disk tables) k = legacy_mbr_bytes (img_mbr (tables ! k))"
    "legacy_mbr_of_bytes (sector_of (img_disk tables) k) = img_mbr (tables ! k)"
    "mbr_records (img_disk tables) k = take 4 (tables ! k @ replicate 4 no_record)"
    "identify L (sector_of (img_disk tables) k) offset = Ret None"
proof -
  show s: "sector_of (img_disk tables) k = legacy_mbr_bytes (img_mbr (tables ! k))"
    unfolding img_disk_def using assms mbr.enc_length [OF img_mbr_wf] by (subst sector_of_image) simp_all
  show m: "legacy_mbr_of_bytes (sector_of (img_disk tables) k) = img_mbr (tables ! k)"
    unfolding s by (rule mbr.dec_enc_exact [OF img_mbr_wf])
  show "mbr_records (img_disk tables) k = take 4 (tables ! k @ replicate 4 no_record)"
    by (simp add: mbr_records_def m) (simp add: img_mbr_def)
  show "identify L (sector_of (img_disk tables) k) offset = Ret None"
    unfolding s by (rule identify_mbr [OF img_mbr_wf]) (simp add: img_mbr_def)
qed

lemma img_disk_beyond: "length tables \<le> k \<Longrightarrow> identify L (sector_of (img_disk tables) k) offset = Ret None"
  by (simp add: img_disk_def sector_of_image_beyond identify_zeros)

lemma img_disk_mbr:
  assumes "tables \<noteq> []" "os_type (mbr_records (img_disk tables) 0 ! 0) \<noteq> EFI_PMBR_OSTYPE_EFI_GPT"
  shows "mbr_disk L (img_disk tables)"
  using assms img_disk_sector [of 0 tables] by (simp add: mbr_disk_def) (simp add: img_mbr_def)

text \<open>A primary partition, an extended one with a logical partition in it, and a primary partition after it.\<close>

definition demo_extended :: "gpt_mbr_record list list" where
  "demo_extended = [[img_rec 0x01 3, img_rec 0x05 1, img_rec 0x01 4], [img_rec 0x06 1]]"


text \<open>An exFAT boot sector.\<close>

definition demo_exfat :: exfat_boot_sector where
  "demo_exfat = \<lparr>ex_jmp_boot = [0, 0, 0], ex_fs_type = FSTYPE_EXFAT, must_be_zero = replicate 53 0, partition_offset = 0,
     vol_length = 100, ex_fat_offset = 0, ex_fat_length = 0, clu_offset = 0, clu_count = 0, root_cluster = 0, vol_serial = 0,
     fs_revision = 0, vol_flags = 0, sect_size_bits = 9, sect_per_clus_bits = 0, ex_num_fats = 1, drv_sel = 0,
     percent_in_use = 0, ex_reserved = replicate 7 0, ex_boot_code = replicate 390 0, ex_signature = MSDOS_MBR_SIGNATURE\<rparr>"

definition exfat_read :: "unit \<Rightarrow> u64 \<Rightarrow> nat \<Rightarrow> unit \<times> u8 list option" where
  "exfat_read d a n = (d, Some (exfat_boot_bytes demo_exfat))"

lemma demo_exfat:
  "exfat_boot_of_bytes (exfat_boot_bytes demo_exfat) = demo_exfat" "length (exfat_boot_bytes demo_exfat) = 512"
  "sane_reads L exfat_read"
proof -
  have wf: "exfat_boot_wf demo_exfat" by (simp add: exfat_boot_wf_def demo_exfat_def)
  show b: "exfat_boot_of_bytes (exfat_boot_bytes demo_exfat) = demo_exfat" by (rule exfat_boot.dec_enc_exact [OF wf])
  show l: "length (exfat_boot_bytes demo_exfat) = 512" by (rule exfat_boot.enc_length [OF wf])
  have "exfat_boot_bytes demo_exfat ! 0 = 0" by (simp add: exfat_boot_bytes_def demo_exfat_def)
  then have "\<not> bit (u64_at 0 (exfat_boot_bytes demo_exfat)) 0" using l by (simp add: u64_at_def bit_le_word)
  moreover have "bit GPT_HEADER_SIGNATURE 0" by (simp add: GPT_HEADER_SIGNATURE_def)
  ultimately have "gh_signature (gpt_header_of_bytes L (exfat_boot_bytes demo_exfat)) \<noteq> GPT_HEADER_SIGNATURE"
    by (auto simp: gpt_header_of_bytes_def)
  then show "sane_reads L exfat_read" using b l by (simp add: sane_reads_def sane_sector_def exfat_read_def demo_exfat_def)
qed

lemma demo_exfat_identified:
  "identify sming_ref (exfat_boot_bytes demo_exfat) offset
      = Ret (Some ((part_info_new [] (fat_type sming_ref) offset 51200)\<lparr>systype := SysExfat\<rparr>))"
proof -
  have f: "ex_signature demo_exfat = MSDOS_MBR_SIGNATURE" "ex_fs_type demo_exfat = FSTYPE_EXFAT" "sect_size_bits demo_exfat = 9"
    "vol_length demo_exfat = 100" by (simp_all add: demo_exfat_def)
  show ?thesis using demo_exfat(1,2) f by (simp add: identify_def Let_def)
qed

section \<open>Damaged headers\<close>

lemma header_cleared:
  assumes "92 \<le> length buf" "uuid_law L"
  shows "patch 0 (gpt_header_bytes L ((gpt_header_of_bytes L buf)\<lparr>header_crc32 := 0\<rparr>)) buf
    = take 16 buf @ le_bytes 4 (0 :: u32) @ drop 20 buf"
proof -
  have ul: "uuid_layout L" by unfold_locales (rule assms(2))
  have "gpt_header_bytes L ((gpt_header_of_bytes L buf)\<lparr>header_crc32 := 0\<rparr>) = seg 0 16 buf @ le_bytes 4 (0 :: u32) @ seg 20 72 buf"
    using assms(1) uuid_layout.uuid_bytes_laws [OF ul]
    by (simp add: gpt_header_of_bytes_def gpt_header_bytes_def layout_simps seg_join seg_join_assoc)
  moreover have "seg 20 72 buf @ drop 92 buf = drop 20 buf"
    using append_take_drop_id [of 72 "drop 20 buf"] by (simp add: seg_def)
  ultimately show ?thesis
    using uuid_layout.length_gpt_header [OF ul] assms(1) by (simp add: patch_start) (simp add: seg_def)
qed

context uuid_layout begin

lemma gpt_structures_back:
  "gpt_entry_wf e \<Longrightarrow> gpt_entry_of_bytes L (gpt_entry_bytes L e @ tail) = e"
  "length bs = 512 \<Longrightarrow> gpt_header_bytes L (gpt_header_of_bytes L bs) = take 92 bs"
  "length bs = 512 \<Longrightarrow> gpt_entry_bytes L (gpt_entry_of_bytes L bs) = take 128 bs"
  by (simp_all add: gpt_entry.dec_enc gpt_header.enc_dec gpt_entry.enc_dec)

end

text \<open>A disk with a GPT of three entries: an unused one, one of the framework's types and one with an exFAT volume.\<close>

definition demo_entry :: "uuid \<Rightarrow> u64 \<Rightarrow> u64 \<Rightarrow> u16 \<Rightarrow> gpt_entry" where
  "demo_entry g a z ch = \<lparr>partition_type_guid = g, unique_partition_guid = demo_guid, ge_starting_lba = a,
     ge_ending_lba = z, ge_attributes = 0, partition_name = ch # replicate 35 0\<rparr>"

definition demo_entries :: "gpt_entry list" where
  "demo_entries = [demo_entry null_uuid 0 0 0, demo_entry (SmingTypeGuid \<lparr>ft_type = 2, ft_subtype = 1\<rparr>) 40 49 97,
     demo_entry demo_guid 3 3 98]"

definition demo_header :: gpt_header where
  "demo_header = gpt_sign sming_ref ((gpt_primary_header 100 32 67 0 null_uuid)\<lparr>num_partition_entries := 3\<rparr>)"

definition demo_gpt_disk :: "nat \<Rightarrow> u8" where
  "demo_gpt_disk = disk_image [legacy_mbr_bytes (protective_mbr 100), gpt_header_bytes sming_ref demo_header @ replicate 420 0,
     concat (map (gpt_entry_bytes sming_ref) demo_entries) @ replicate 128 0, exfat_boot_bytes demo_exfat]"

lemma demo_header_verified: "verifyGptHeader sming_ref (gpt_header_bytes sming_ref demo_header @ tail) = Ret True"
  unfolding demo_header_def by (rule ref_layout.verify_signed) (simp_all add: gpt_primary_header_def)

lemma demo_gpt_sectors:
  "sector_of demo_gpt_disk 0 = legacy_mbr_bytes (protective_mbr 100)"
  "sector_of demo_gpt_disk 1 = gpt_header_bytes sming_ref demo_header @ replicate 420 0"
  "sector_of demo_gpt_disk 2 = concat (map (gpt_entry_bytes sming_ref) demo_entries) @ replicate 128 0"
  "sector_of demo_gpt_disk 3 = exfat_boot_bytes demo_exfat"
proof -
  have wf: "\<forall>e \<in> set demo_entries. gpt_entry_wf e" by (simp add: demo_entries_def demo_entry_def gpt_entry_wf_def)
  then have le: "length (gpt_entry_bytes sming_ref e) = 128" if "e \<in> set demo_entries" for e
    using ref_layout.gpt_entry.enc_length that by blast
  have "length (concat (map (gpt_entry_bytes sming_ref) demo_entries)) = 384"
    using le by (simp add: demo_entries_def)
  then show "sector_of demo_gpt_disk 2 = concat (map (gpt_entry_bytes sming_ref) demo_entries) @ replicate 128 0"
    unfolding demo_gpt_disk_def by (subst sector_of_image) simp_all
  show "sector_of demo_gpt_disk 0 = legacy_mbr_bytes (protective_mbr 100)"
    unfolding demo_gpt_disk_def using mbr.enc_length [OF protective_mbr_wf] by (subst sector_of_image) simp_all
  show "sector_of demo_gpt_disk 1 = gpt_header_bytes sming_ref demo_header @ replicate 420 0"
    unfolding demo_gpt_disk_def using ref_layout.length_gpt_header by (subst sector_of_image) simp_all
  show "sector_of demo_gpt_disk 3 = exfat_boot_bytes demo_exfat"
    unfolding demo_gpt_disk_def using demo_exfat(2) by (subst sector_of_image) simp_all
qed

lemma demo_length: "length demo_entries = 3"
  by (simp add: demo_entries_def)

lemma demo_gpt_entries:
  "i < 3 \<Longrightarrow> gpt_entry_at sming_ref demo_gpt_disk 2 i = demo_entries ! i"
proof -
  assume i: "i < 3"
  have wf: "gpt_entry_wf (demo_entries ! j)" if "j < 3" for j
    using that by (auto simp: demo_entries_def demo_entry_def gpt_entry_wf_def less_Suc_eq numeral_eq_Suc)
  have l: "length (gpt_entry_bytes sming_ref (demo_entries ! j)) = 128" if "j < 3" for j
    by (rule ref_layout.gpt_entry.enc_length [OF wf [OF that]])
  have s: "concat (map (gpt_entry_bytes sming_ref) demo_entries) = gpt_entry_bytes sming_ref (demo_entries ! 0) @
      gpt_entry_bytes sming_ref (demo_entries ! 1) @ gpt_entry_bytes sming_ref (demo_entries ! 2)"
    by (simp add: demo_entries_def)
  consider "i = 0" | "i = 1" | "i = 2" using i by linarith
  then show ?thesis
    by cases (simp_all add: gpt_entry_at_def demo_gpt_sectors(3) s l ref_layout.gpt_structures_back(1) wf del: One_nat_def)
qed

lemma demo_guids:
  "uuid_isset sming_ref demo_guid" "\<not> uuid_isset sming_ref null_uuid" "SmingTypeGuid_match sming_ref demo_guid = fulltype_none sming_ref"
  "\<not> fulltype_isset sming_ref (fulltype_none sming_ref)"
  "uuid_isset sming_ref (SmingTypeGuid \<lparr>ft_type = 2, ft_subtype = 1\<rparr>)" "fulltype_isset sming_ref \<lparr>ft_type = 2, ft_subtype = 1\<rparr>"
  "SmingTypeGuid_match sming_ref (SmingTypeGuid \<lparr>ft_type = 2, ft_subtype = 1\<rparr>) = \<lparr>ft_type = 2, ft_subtype = 1\<rparr>"
  by (simp_all add: sming_ref_def demo_guid_def mk_uuid_def null_uuid_def SmingTypeGuid_match_def SmingTypeGuid_def sming_baseguid_def)

lemma demo_names:
  "char_of (97 :: nat) = CHR ''a''" "char_of (98 :: nat) = CHR ''b''" "unicode_to_oem (replicate 35 0) = []"
  by (simp_all add: char_of_def bit_0) (simp add: numeral_eq_Suc)

lemma demo_found:
  assumes "\<And>offset. identify sming_ref (sector_of c 3) offset
      = Ret (Some ((part_info_new [] (fat_type sming_ref) offset 51200)\<lparr>systype := SysExfat\<rparr>))"
  defines "p \<equiv> gpt_found sming_ref c (demo_entries ! 1)" and "q \<equiv> gpt_found sming_ref c (demo_entries ! 2)"
  shows "p_name p = ''a'' \<and> p_offset p = 20480 \<and> p_size p = 5120 \<and> p_type p = 2"
    "p_name q = ''b'' \<and> p_offset q = 1536 \<and> p_size q = 51200 \<and> systype q = SysExfat"
  using demo_guids assms(1) demo_names
  by (simp_all add: p_def q_def demo_entries_def demo_entry_def gpt_found_def gpt_volume_def gpt_scan_part_def part_info_new_def Let_def)

section \<open>Properties of the scanner\<close>

text \<open>C13: Scanning a disk with a valid GPT lists, in the order of the entry array, one partition for each entry with a type
  GUID, as the reference listing does that looks at the whole array at once; it reports success and does not
  change the disk.\<close>

theorem scan_gpt_lists_entries:
  assumes "reliable_disk rd ok bytes lim" "size_bits_law L" "ok s" "gpt_disk L lim (bytes s) h"
  shows "\<exists>s'. scanPartitions L rd (Some w1) (Some w2) fresh s = Some (Ret (s', gpt_disk_parts L (bytes s) h, True)) \<and>
    ok s' \<and> bytes s' = bytes s"
  by (rule reliable_disk.scan_gpt_disk [OF assms])

theorem scan_gpt_lists_entries_witness:
  "\<exists>s' p q. scanPartitions sming_ref image_read (Some []) (Some []) [] demo_gpt_disk = Some (Ret (s', [p, q], True)) \<and>
     p_name p = ''a'' \<and> p_offset p = 20480 \<and> p_size p = 5120 \<and> p_type p = 2 \<and>
     p_name q = ''b'' \<and> p_offset q = 1536 \<and> p_size q = 51200 \<and> systype q = SysExfat"
proof -
  have e: "map (gpt_entry_at sming_ref demo_gpt_disk 2) [0..<3] = demo_entries"
    by (rule nth_equalityI) (simp_all add: demo_gpt_entries, simp add: demo_entries_def)
  have h: "unat (partition_entry_lba demo_header) = 2" "unat (num_partition_entries demo_header) = 3"
    by (simp_all add: demo_header_def gpt_sign_def gpt_primary_header_def)
  have m: "legacy_mbr_of_bytes (sector_of demo_gpt_disk 0) = protective_mbr 100"
    unfolding demo_gpt_sectors by (rule mbr.dec_enc_exact [OF protective_mbr_wf])
  have id0: "identify sming_ref (sector_of demo_gpt_disk 0) 0 = Ret None"
    unfolding demo_gpt_sectors by (rule identify_mbr [OF protective_mbr_wf]) (simp add: protective_mbr_def)
  have hd: "gpt_header_of_bytes sming_ref (sector_of demo_gpt_disk 1) = demo_header"
    unfolding demo_gpt_sectors by (rule ref_layout.gpt_header_back)
  have id3: "identify sming_ref (sector_of demo_gpt_disk 3) offset
      = Ret (Some ((part_info_new [] (fat_type sming_ref) offset 51200)\<lparr>systype := SysExfat\<rparr>))" for offset
    unfolding demo_gpt_sectors by (rule demo_exfat_identified)
  note set = demo_guids
  have vol: "gpt_volume sming_ref demo_gpt_disk (demo_entry g 3 z ch) = Ret (Some ((part_info_new [] (fat_type sming_ref) 1536 51200)
      \<lparr>systype := SysExfat\<rparr>))" for g z ch
    by (simp add: gpt_volume_def demo_entry_def id3)
  have "\<forall>e \<in> set demo_entries. gpt_visible sming_ref (2 ^ 63) demo_gpt_disk e"
    using set vol by (simp add: demo_entries_def gpt_visible_def) (simp add: demo_entry_def)
  then have "\<forall>j < 3. gpt_visible sming_ref (2 ^ 63) demo_gpt_disk (gpt_entry_at sming_ref demo_gpt_disk 2 j)"
    using demo_gpt_entries by (simp add: nth_mem [of _ demo_entries, unfolded demo_length])
  moreover have "verifyGptHeader sming_ref (sector_of demo_gpt_disk 1) = Ret True"
    unfolding demo_gpt_sectors by (rule demo_header_verified)
  ultimately have disk: "gpt_disk sming_ref (2 ^ 63) demo_gpt_disk demo_header"
    using id0 m hd h by (simp add: gpt_disk_def protective_mbr_def del: One_nat_def)
  let ?f = "gpt_found sming_ref demo_gpt_disk"
  have "gpt_disk_parts sming_ref demo_gpt_disk demo_header = [named sming_ref (?f (demo_entries ! 1)), named sming_ref (?f (demo_entries ! 2))]"
    using set by (simp add: gpt_disk_parts_def h e gpt_listing_def) (simp add: demo_entries_def demo_entry_def)
  also have "\<dots> = [?f (demo_entries ! 1), ?f (demo_entries ! 2)]"
    using demo_found [OF id3] by (simp add: named_def)
  finally have parts: "gpt_disk_parts sming_ref demo_gpt_disk demo_header = [?f (demo_entries ! 1), ?f (demo_entries ! 2)]" .
  from scan_gpt_lists_entries [of image_read "\<lambda>_. True" "\<lambda>c. c" "2 ^ 63" sming_ref demo_gpt_disk demo_header "[]" "[]" "[]",
      OF image_disk.reliable_disk_axioms sming_ref_laws(1) TrueI disk]
  show ?thesis unfolding parts using demo_found [OF id3] by blast
qed

text \<open>C14: Scanning a disk with an MBR lists the partitions as the reference listing does: the used entries in order, an
  entry of an extended partition being replaced by the entries of the table it points to, together with all primary
  entries after it. The witness loses the third primary partition this way.\<close>

theorem scan_mbr_lists_entries:
  assumes "reliable_disk rd ok bytes lim" "size_bits_law L" "ok s" "512 \<le> lim" "mbr_disk L (bytes s)" "n * 512 \<le> lim"
    and "mbr_listing f L n (bytes s) 0 (relocated 0 (mbr_records (bytes s) 0)) = Some ps"
  shows "\<exists>s'. scanPartitions L rd (Some w1) m2 fresh s = Some (Ret (s', ps, True)) \<and> ok s' \<and> bytes s' = bytes s"
  by (rule reliable_disk.scan_mbr_disk [OF assms])

lemma demo_extended_listing:
  "\<exists>ps. mbr_listing 5 sming_ref 100 (img_disk demo_extended) 0 (relocated 0 (mbr_records (img_disk demo_extended) 0)) = Some ps \<and>
     map p_offset ps = [1536, 1024]"
proof -
  have r: "mbr_records (img_disk demo_extended) 0 = [img_rec 0x01 3, img_rec 0x05 1, img_rec 0x01 4, no_record]"
    "mbr_records (img_disk demo_extended) 1 = [img_rec 0x06 1, no_record, no_record, no_record]"
    using img_disk_sector(3) [of 0 demo_extended] img_disk_sector(3) [of 1 demo_extended]
    by (simp_all add: demo_extended_def numeral_eq_Suc)
  have id: "identify L (sector_of (img_disk demo_extended) (unat (3 :: u32))) off = Ret None"
    "identify L (sector_of (img_disk demo_extended) (unat (2 :: u32))) off = Ret None" for L off
    by (rule img_disk_beyond; simp add: demo_extended_def)+
  have f: "(5 :: nat) = Suc (Suc (Suc (Suc (Suc 0))))" by simp
  show ?thesis
    unfolding f r(1)
    using r(2) id
    by (simp add: relocated_def img_rec_def no_record_def OSTYPE_EXTENDED_def Let_def mbr_part_def part_info_new_def)
qed

theorem scan_mbr_lists_entries_witness:
  "\<exists>s' ps. scanPartitions sming_ref image_read (Some []) None [] (img_disk demo_extended) = Some (Ret (s', ps, True)) \<and>
     map p_offset ps = [1536, 1024]"
proof -
  obtain ps where ps: "map p_offset ps = [1536, 1024]"
    "mbr_listing 5 sming_ref 100 (img_disk demo_extended) 0 (relocated 0 (mbr_records (img_disk demo_extended) 0)) = Some ps"
    using demo_extended_listing by (elim exE conjE) (rule that)
  have "mbr_disk sming_ref (img_disk demo_extended)"
    by (rule img_disk_mbr) (simp_all add: img_disk_sector demo_extended_def img_rec_def EFI_PMBR_OSTYPE_EFI_GPT_def)
  then show ?thesis
    using scan_mbr_lists_entries [OF image_disk.reliable_disk_axioms sming_ref_laws(1), of "img_disk demo_extended" 100 5 ps "[]" None "[]"] ps
    by auto
qed

text \<open>C20: First sectors without a partition table: a volume on the whole disk is reported as the one partition, a missing
  signature gives an empty list, an invalid GPT header gives an error, and a GPT header whose stated size exceeds the sector
  makes the scanner read past its buffer.\<close>

theorem scan_without_table:
  assumes "reliable_disk rd ok bytes lim" "size_bits_law L" "ok s" "1024 \<le> lim"
  defines "mbr \<equiv> legacy_mbr_of_bytes (sector_of (bytes s) 0)"
  shows "\<exists>s'. (case identify L (sector_of (bytes s) 0) 0 of
      Fault \<Rightarrow> scanPartitions L rd (Some w1) m2 fresh s = Some Fault
    | Ret (Some p) \<Rightarrow> scanPartitions L rd (Some w1) m2 fresh s = Some (Ret (s', [named L p], True))
    | Ret None \<Rightarrow>
        (mbr_signature mbr \<noteq> MSDOS_MBR_SIGNATURE \<longrightarrow> scanPartitions L rd (Some w1) m2 fresh s = Some (Ret (s', [], True))) \<and>
        (mbr_signature mbr = MSDOS_MBR_SIGNATURE \<and> os_type (partition_record mbr ! 0) = EFI_PMBR_OSTYPE_EFI_GPT \<longrightarrow>
           (verifyGptHeader L (sector_of (bytes s) 1) = Ret False \<longrightarrow>
              scanPartitions L rd (Some w1) m2 fresh s = Some (Ret (s', [], False))) \<and>
           (verifyGptHeader L (sector_of (bytes s) 1) = Fault \<longrightarrow>
              scanPartitions L rd (Some w1) m2 fresh s = Some Fault)))"
  unfolding mbr_def by (rule reliable_disk.scan_no_table [OF assms(1-4)])

text \<open>A protective MBR with a header that claims to be 600 bytes long.\<close>

definition demo_long_header :: "nat \<Rightarrow> u8" where
  "demo_long_header = disk_image [legacy_mbr_bytes (protective_mbr 100),
     gpt_header_bytes sming_ref ((gpt_primary_header 100 32 67 0 null_uuid)\<lparr>header_size := 600\<rparr>) @ replicate 420 0]"

theorem scan_without_table_witness:
  "scanPartitions sming_ref image_read (Some []) (Some []) [] demo_long_header = Some Fault"
proof -
  let ?h = "(gpt_primary_header 100 32 67 0 null_uuid)\<lparr>header_size := 600\<rparr>"
  have l: "length (legacy_mbr_bytes (protective_mbr 100)) = 512" by (rule mbr.enc_length [OF protective_mbr_wf])
  have s0: "sector_of demo_long_header 0 = legacy_mbr_bytes (protective_mbr 100)"
    unfolding demo_long_header_def using l by (subst sector_of_image) simp_all
  have s1: "sector_of demo_long_header 1 = gpt_header_bytes sming_ref ?h @ replicate 420 0"
    unfolding demo_long_header_def using ref_layout.length_gpt_header by (subst sector_of_image) simp_all
  have m: "legacy_mbr_of_bytes (sector_of demo_long_header 0) = protective_mbr 100"
    unfolding s0 by (rule mbr.dec_enc_exact [OF protective_mbr_wf])
  have id0: "identify sming_ref (sector_of demo_long_header 0) 0 = Ret None"
    unfolding s0 by (rule identify_mbr [OF protective_mbr_wf]) (simp add: protective_mbr_def)
  have "gpt_header_of_bytes sming_ref (sector_of demo_long_header 1) = ?h"
    unfolding s1 by (rule ref_layout.gpt_header_back)
  then have "verifyGptHeader sming_ref (sector_of demo_long_header 1) = Fault"
    by (simp add: verifyGptHeader_def Let_def gpt_primary_header_def GPT_HEADER_SIZE_def)
  then show ?thesis
    using scan_without_table [OF image_disk.reliable_disk_axioms sming_ref_laws(1), of demo_long_header "[]" "Some []" "[]"] id0 m
    by (simp add: protective_mbr_def)
qed



text \<open>C16: When the tables of extended partitions that can be reached from the MBR are ranked such that each links only
  to tables of smaller rank, \<^verbatim>\<open>scanPartitions\<close> returns, whatever else the disk holds and whichever reads fail. Without
  an extended partition in the MBR there is nothing to rank.\<close>

theorem scan_terminates:
  assumes "size_bits_law L" "links_ranked rd D A rank" "D dev"
    and "\<forall>dev1 bs. rd dev 0 512 = (dev1, Some bs) \<longrightarrow> length bs = 512 \<and> ext_links 0 bs \<subseteq> A"
  shows "scanPartitions L rd m1 m2 fresh dev \<noteq> None"
  by (rule scan_returns [OF assms(1-3)]) (use assms(4) in blast)

theorem scan_terminates_witness:
  "scanPartitions sming_ref image_read (Some []) None [] (img_disk demo_extended) \<noteq> None"
proof -
  let ?d = "img_disk demo_extended"
  have r: "mbr_records ?d 0 = [img_rec 0x01 3, img_rec 0x05 1, img_rec 0x01 4, no_record]"
    "mbr_records ?d 1 = [img_rec 0x06 1, no_record, no_record, no_record]"
    using img_disk_sector(3) [of 0 demo_extended] img_disk_sector(3) [of 1 demo_extended]
    by (simp_all add: demo_extended_def numeral_eq_Suc)
  have l: "ext_links b (sector_of ?d k) = starting_lba ` {r \<in> set (relocated b (mbr_records ?d k)). os_type r = OSTYPE_EXTENDED}" for b k
    by (simp add: ext_links_def mbr_records_def)
  have links: "ext_links 0 (sector_of ?d 0) \<subseteq> {1}" "ext_links 1 (sector_of ?d 1) = {}"
    unfolding l r by (auto simp: relocated_def img_rec_def no_record_def OSTYPE_EXTENDED_def)
  have rd: "image_read ?d a 512 = (d1, Some bs) \<Longrightarrow> unat a = k * 512 \<Longrightarrow> bs = sector_of ?d k" for a d1 bs k
    by (auto simp: image_read_def sector_of_def)
  have "unat (push_bit 9 (ucast (1 :: u32)) :: u64) = 1 * 512" by simp
  then have "links_ranked image_read (\<lambda>d. d = ?d) {1} (\<lambda>_. 0)"
    using rd links(2) unfolding links_ranked_def by (fastforce simp: image_read_def sector_of_def)
  moreover have "\<forall>dev1 bs. image_read ?d 0 512 = (dev1, Some bs) \<longrightarrow> length bs = 512 \<and> ext_links 0 bs \<subseteq> {1}"
    using rd [of 0 _ _ 0] links(1) by (fastforce simp: sector_of_def)
  ultimately show ?thesis by (intro scan_terminates [OF sming_ref_laws(1), of image_read "\<lambda>d. d = ?d" "{1}" "\<lambda>_. 0"]) simp_all
qed

text \<open>C15: If sectors that look like a GPT header or an exFAT boot sector are sane, \<^verbatim>\<open>scanPartitions\<close> never accesses memory
  outside of its buffers and tables and never reaches a failed assertion.\<close>

theorem scan_memory_safe:
  assumes "sane_reads L rd" "size_bits_law L"
  shows "scanPartitions L rd m1 m2 fresh dev \<noteq> Some Fault"
  by (rule scan_safe [OF assms])

theorem scan_memory_safe_witness:
  "scanPartitions sming_ref (\<lambda>d a n. (d, Some (replicate n 0))) (Some []) (Some []) [] () \<noteq> Some Fault"
proof (rule scan_memory_safe [OF _ sming_ref_laws(1)])
  have "gh_signature (gpt_header_of_bytes sming_ref (replicate 512 0)) = 0" "ex_fs_type (exfat_boot_of_bytes (replicate 512 0)) = 0"
    by (simp_all only: gpt_header_of_bytes_def exfat_boot_of_bytes_def at_zeros gpt_header.simps exfat_boot_sector.simps)
  then show "sane_reads sming_ref (\<lambda>d a n. (d, Some (replicate n 0)))"
    by (simp add: sane_reads_def sane_sector_def GPT_HEADER_SIGNATURE_def FSTYPE_EXFAT_def)
qed

text \<open>The states a client reaches that calls \<^verbatim>\<open>next\<close> again only after it has reported a partition. The device may change between
  the calls.\<close>

inductive scan_reach :: "sming \<Rightarrow> ('d \<Rightarrow> u64 \<Rightarrow> nat \<Rightarrow> 'd \<times> u8 list option) \<Rightarrow> scanner \<Rightarrow> bool" for L rd where
  reach_new: "scan_reach L rd scanner_new"
| reach_next: "scan_reach L rd sc \<Longrightarrow> scanner_next L rd m1 m2 fresh dev sc = Some (Ret (dev', sc', Some p)) \<Longrightarrow> scan_reach L rd sc'"

text \<open>C38: The iterator as a state machine: in every state that calls of \<^verbatim>\<open>next\<close> reach by reporting partitions, the scanner
  is new or well formed (buffers of one sector, at most four MBR entries, the state MBR, GPT or done), and the next
  call makes no bad access and no failing assertion, whatever it reads.\<close>

theorem scanner_reachable_safe:
  assumes "sane_reads L rd" "size_bits_law L" "scan_reach L rd sc"
  shows "(scanner_safe sc \<or> sc = scanner_new) \<and> scanner_next L rd m1 m2 fresh dev sc \<noteq> Some Fault"
proof -
  from assms(3) have "scanner_safe sc \<or> sc = scanner_new"
  proof (induction rule: scan_reach.induct)
    case reach_new
    then show ?case by simp
  next
    case (reach_next sc m1 m2 fresh dev dev' sc' p)
    then show ?case using next_safe(2) [OF assms(1,2)] by blast
  qed
  then show ?thesis using next_safe(1) [OF assms(1,2)] by blast
qed

theorem scanner_reachable_safe_witness:
  "\<exists>sc' p. scanner_next sming_ref exfat_read (Some []) None [] () scanner_new = Some (Ret ((), sc', Some p)) \<and>
     systype p = SysExfat \<and> p_size p = 51200 \<and> (scanner_safe sc' \<or> sc' = scanner_new) \<and>
     scanner_next sming_ref exfat_read None None [] () sc' \<noteq> Some Fault"
proof -
  obtain buf where rd: "read_sector exfat_read 9 () 0 (sb_new (Some []) 512 1) = ((), Some buf)"
    and buf: "sb_bytes buf = exfat_boot_bytes demo_exfat"
    using demo_exfat(2) by (auto simp: read_sector_def exfat_read_def sb_bytes_def sb_new_def)
  obtain p where p: "identify sming_ref (exfat_boot_bytes demo_exfat) 0 = Ret (Some p)" "systype p = SysExfat" "p_size p = 51200"
    using demo_exfat_identified by (simp add: part_info_new_def)
  have n: "scanner_next sming_ref exfat_read (Some []) None [] () scanner_new
      = Some (Ret ((), (primed buf)\<lparr>sc_state := St_done\<rparr>, Some p))"
    using scan_start_code [OF sming_ref_laws(1) rd, of None "[]"] p(1) buf by (simp add: scanner_next_def scanner_new_def)
  show ?thesis
    using n p(2,3) scanner_reachable_safe [OF demo_exfat(3) sming_ref_laws(1) reach_next [OF reach_new n]] by blast
qed

text \<open>When reading a sector of the GPT fails, \<^verbatim>\<open>next\<close> returns nothing and the scanner reports the error, but
  calling \<^verbatim>\<open>next\<close> once more then fails an assertion.\<close>

lemma next_after_error:
  assumes "sc_state sc = St_GPT" "partitionIndex sc < numPartitionEntries sc" "gpt_fetch rd dev sc = (dev1, None)"
  shows "\<exists>sc1. scanner_next L rd m1 m2 fresh dev sc = Some (Ret (dev1, sc1, None)) \<and> \<not> scanner_isset sc1 \<and>
    (\<forall>dev2. scanner_next L rd m1 m2 fresh dev2 sc1 = Some Fault)"
  using assms
  by (intro exI [of _ "sc\<lparr>sc_sector := sc_sector sc + 1, sc_state := St_error\<rparr>"])
    (simp add: scanner_next_def next_loop.simps [of L rd dev] next_loop.simps [of L rd _ "sc\<lparr>sc_sector := sc_sector sc + 1, sc_state := St_error\<rparr>"]
      scan_step_def gpt_step_def scanner_isset_def)

section \<open>Properties of the structures on disk\<close>

text \<open>C22: The byte images of the structures on disk and their members determine each other: every well-formed structure is
  read back from its image, whatever follows it, and a sector is reproduced by encoding what was read from it.\<close>

theorem structures_roundtrip:
  assumes "uuid_law L"
  shows "(legacy_mbr_wf m \<longrightarrow> legacy_mbr_of_bytes (legacy_mbr_bytes m @ tail) = m) \<and>
    gpt_header_of_bytes L (gpt_header_bytes L h @ tail) = h \<and>
    (gpt_entry_wf e \<longrightarrow> gpt_entry_of_bytes L (gpt_entry_bytes L e @ tail) = e) \<and>
    (fat_boot_wf f \<longrightarrow> fat_boot_of_bytes (fat_boot_bytes f @ tail) = f) \<and>
    (exfat_boot_wf x \<longrightarrow> exfat_boot_of_bytes (exfat_boot_bytes x @ tail) = x) \<and>
    (length bs = 512 \<longrightarrow> legacy_mbr_bytes (legacy_mbr_of_bytes bs) = bs \<and> fat_boot_bytes (fat_boot_of_bytes bs) = bs \<and>
      exfat_boot_bytes (exfat_boot_of_bytes bs) = bs \<and> gpt_header_bytes L (gpt_header_of_bytes L bs) = take 92 bs \<and>
      gpt_entry_bytes L (gpt_entry_of_bytes L bs) = take 128 bs)"
proof -
  have ul: "uuid_layout L" by unfold_locales (rule assms)
  show ?thesis
    using mbr.dec_enc [of m tail] fat_boot.dec_enc [of f tail] exfat_boot.dec_enc [of x tail]
      mbr.enc_dec [of bs] fat_boot.enc_dec [of bs] exfat_boot.enc_dec [of bs]
      uuid_layout.gpt_header_back [OF ul] uuid_layout.gpt_structures_back [OF ul]
    by simp
qed

theorem structures_roundtrip_witness:
  "legacy_mbr_of_bytes (legacy_mbr_bytes (protective_mbr 7) @ [1, 2]) = protective_mbr 7 \<and>
   gpt_entry_bytes sming_ref (gpt_entry_of_bytes sming_ref (replicate 512 3)) = replicate 128 3"
  using structures_roundtrip [OF sming_ref_laws(3), of "protective_mbr 7" "[1, 2]" undefined undefined undefined undefined "replicate 512 3"]
    protective_mbr_wf by simp

text \<open>C21: Damage to at most four consecutive bytes of a valid header of 92 bytes, behind its checksum field, makes
  \<^verbatim>\<open>verifyGptHeader\<close> reject the header.\<close>

theorem header_damage_detected:
  assumes "uuid_law L" "verifyGptHeader L (pre @ xs @ post) = Ret True"
    and "header_size (gpt_header_of_bytes L (pre @ xs @ post)) = GPT_HEADER_SIZE"
    and "20 \<le> length pre" "length pre + length xs \<le> 92" "92 \<le> length (pre @ xs @ post)"
    and "length ys = length xs" "length xs \<le> 4" "xs \<noteq> ys"
  shows "verifyGptHeader L (pre @ ys @ post) = Ret False"
proof -
  let ?b = "\<lambda>zs. pre @ zs @ post" and ?h = "\<lambda>zs. gpt_header_of_bytes L (pre @ zs @ post)"
  let ?k = "92 - length pre - length xs"
  have len: "length (?b ys) = length (?b xs)" "92 \<le> length (?b ys)" using assms(6,7) by simp_all
  have s: "unat GPT_HEADER_SIZE = 92" by (simp add: GPT_HEADER_SIZE_def)
  have fields: "gh_signature (?h zs) = u64_at 0 pre" "gh_revision (?h zs) = u32_at 8 pre" "header_size (?h zs) = u32_at 12 pre"
    "header_crc32 (?h zs) = u32_at 16 pre" for zs
    using assms(4) by (simp_all add: gpt_header_of_bytes_def at_defs)
  have cleared: "take 92 (patch 0 (gpt_header_bytes L ((?h zs)\<lparr>header_crc32 := 0\<rparr>)) (?b zs))
      = (take 16 pre @ le_bytes 4 (0 :: u32) @ drop 20 pre) @ zs @ take ?k post"
    if "92 \<le> length (?b zs)" "length zs = length xs" for zs
    using assms(4,5) that by (simp add: header_cleared [OF that(1) assms(1)])
  have ne: "crc32 0 ((take 16 pre @ le_bytes 4 (0 :: u32) @ drop 20 pre) @ xs @ take ?k post)
      \<noteq> crc32 0 ((take 16 pre @ le_bytes 4 (0 :: u32) @ drop 20 pre) @ ys @ take ?k post)"
    by (rule crc32_burst) (use assms(7-9) in simp_all)
  have ok: "gh_signature (?h xs) = GPT_HEADER_SIGNATURE" "gh_revision (?h xs) = GPT_HEADER_REVISION_V1"
    "crc32 0 (take 92 (patch 0 (gpt_header_bytes L ((?h xs)\<lparr>header_crc32 := 0\<rparr>)) (?b xs))) = header_crc32 (?h xs)"
    using assms(2,3) by (auto simp: verifyGptHeader_def Let_def s split: if_splits)
  have "header_size (?h ys) = GPT_HEADER_SIZE" using assms(3) by (simp only: fields)
  moreover have "crc32 0 (take 92 (patch 0 (gpt_header_bytes L ((?h ys)\<lparr>header_crc32 := 0\<rparr>)) (?b ys))) \<noteq> header_crc32 (?h ys)"
    using ne ok(3) cleared [OF assms(6) refl] cleared [OF len(2) assms(7)] by (simp only: fields)
  ultimately show ?thesis
    using ok(1,2) len(2) by (simp add: verifyGptHeader_def Let_def s)
qed

theorem header_damage_detected_witness:
  "verifyGptHeader sming_ref (take 80 (gpt_header_bytes sming_ref demo_header) @ [7] @ drop 81 (gpt_header_bytes sming_ref demo_header)) = Ret False"
proof -
  let ?b = "gpt_header_bytes sming_ref demo_header"
  have l: "length ?b = 92" by (rule ref_layout.length_gpt_header)
  have b: "?b = take 80 ?b @ [?b ! 80] @ drop 81 ?b"
    using id_take_nth_drop [of 80 ?b] l by simp
  have "num_partition_entries (gpt_header_of_bytes sming_ref ?b) = 3"
    using ref_layout.gpt_header_back [of demo_header "[]"] by (simp add: demo_header_def gpt_sign_def)
  then have "u32_at 80 ?b = 3" by (simp add: gpt_header_of_bytes_def)
  moreover have "bit (u32_at 80 ?b) 2 \<longleftrightarrow> bit (?b ! 80) 2" using l by (simp add: u32_at_def bit_le_word)
  ultimately have n: "?b ! 80 \<noteq> 7" by auto
  have s: "header_size (gpt_header_of_bytes sming_ref ?b) = GPT_HEADER_SIZE"
    using ref_layout.gpt_header_back [of demo_header "[]"] by (simp add: demo_header_def gpt_sign_def gpt_primary_header_def)
  show ?thesis
    using header_damage_detected [of sming_ref "take 80 ?b" "[?b ! 80]" "drop 81 ?b" "[7]", OF sming_ref_laws(3)]
      demo_header_verified [of "[]"] l s n unfolding b [symmetric] by simp
qed

section \<open>Properties of writing and scanning\<close>

text \<open>C11: Scanning a freshly formatted GPT disk yields the first 128 partitions of the list that formatting left in the
  device, each with its position, GUIDs and name; the type is that of the type GUID or, failing that, of the volume that
  lies there. A partition of one of the framework's own types comes back exactly as it was.\<close>

theorem gpt_format_rescan:
  assumes "raw_media ops ss media" "reliable ops" "ready media ss dev" "size_bits_law L" "uuid_law L" "fulltype_law L"
    and "67 \<le> unat (sectorCount dev)" "unat (sectorCount dev) * 512 \<le> cache_limit ss"
    and "formatDisk_gpt L ops gen (Some ws) dev pt table diskGuid = Some (Ret ((dev', pt', table'), Success))"
    and "\<forall>p \<in> set (take 128 pt'). gpt_findable L (cache_limit ss) (bd_content media ss dev') p"
  shows "(\<exists>dev''. scanPartitions L (bd_read ops) (Some w1) (Some w2) fresh dev'
        = Some (Ret (dev'', map (gpt_rescanned L (bd_content media ss dev')) (take 128 pt'), True)) \<and>
      bd_content media ss dev'' = bd_content media ss dev') \<and>
    (\<forall>p \<in> set pt'. rescannable L p \<longrightarrow> gpt_rescanned L (bd_content media ss dev') p = p)"
  using gpt_format_scan [OF assms(1-5,7-10)] rescannable_same [OF _ assms(6)] by blast

definition demo_sming_table :: "part_info list" where
  "demo_sming_table = gpt_add_sming sming_ref demo_guid ''data'' \<lparr>ft_type = 3, ft_subtype = 0\<rparr> 0 40 null_uuid
     (gpt_add_sming sming_ref demo_guid ''app'' \<lparr>ft_type = 2, ft_subtype = 1\<rparr> 0 60 null_uuid [])"

definition demo_sming_placed :: "part_info list" where
  "demo_sming_placed =
     [(part_info_new ''app'' \<lparr>ft_type = 2, ft_subtype = 1\<rparr> 0x100000 62914560)
        \<lparr>typeGuid := SmingTypeGuid \<lparr>ft_type = 2, ft_subtype = 1\<rparr>, uniqueGuid := demo_guid\<rparr>,
      (part_info_new ''data'' \<lparr>ft_type = 3, ft_subtype = 0\<rparr> 63963136 40877568)
        \<lparr>typeGuid := SmingTypeGuid \<lparr>ft_type = 3, ft_subtype = 0\<rparr>, uniqueGuid := demo_guid\<rparr>]"

lemma demo_sming_validate:
  "validate sming_ref demo_sming_table 2048 202719 512 = Some (Ret (demo_sming_placed, Success))"
  by code_simp

lemma demo_sming_rescannable: "\<forall>p \<in> set demo_sming_placed. rescannable sming_ref p"
  by (simp add: demo_sming_placed_def rescannable_def part_info_new_def sming_ref_def)

lemma demo_sming_format:
  "\<exists>dev'. formatDisk_gpt sming_ref sparse_ops demo_guid (Some []) (sparse_dev 104857600) [] demo_sming_table null_uuid
      = Some (Ret ((dev', demo_sming_placed, []), Success))"
proof -
  obtain bufs where b: "buffers (sparse_dev 104857600) = Some bufs" using sparse_dev(3) by auto
  have ne: "demo_sming_table \<noteq> []" by (simp add: demo_sming_table_def gpt_add_sming_def)
  have v: "validate sming_ref demo_sming_table 2048 (gpt_region (sectorCount (sparse_dev 104857600))) 512
      = Some (Ret (demo_sming_placed, Success))" by (simp only: sparse_gpt_region demo_sming_validate)
  have lim: "34 \<le> unat (sectorCount (sparse_dev 104857600))" "unat (sectorCount (sparse_dev 104857600)) * 512 \<le> cache_limit 512"
    by (simp_all add: sparse_gpt_region cache_limit_def)
  show ?thesis
    using format_gpt_returns [OF sparse_media sparse_reliable sparse_dev(1) b sming_ref_laws(1,3) lim ne v] by blast
qed

theorem gpt_format_rescan_witness:
  "\<exists>dev' dev''. formatDisk_gpt sming_ref sparse_ops demo_guid (Some []) (sparse_dev 104857600) [] demo_sming_table null_uuid
      = Some (Ret ((dev', demo_sming_placed, []), Success)) \<and>
    scanPartitions sming_ref (bd_read sparse_ops) (Some []) (Some []) [] dev' = Some (Ret (dev'', demo_sming_placed, True))"
proof -
  obtain dev' where f: "formatDisk_gpt sming_ref sparse_ops demo_guid (Some []) (sparse_dev 104857600) [] demo_sming_table null_uuid
      = Some (Ret ((dev', demo_sming_placed, []), Success))" using demo_sming_format by blast
  have lim: "67 \<le> unat (sectorCount (sparse_dev 104857600))" "unat (sectorCount (sparse_dev 104857600)) * 512 \<le> cache_limit 512"
    by (simp_all add: sparse_gpt_region cache_limit_def)
  have t: "take 128 demo_sming_placed = demo_sming_placed" by (simp add: demo_sming_placed_def)
  have "\<forall>p \<in> set (take 128 demo_sming_placed). gpt_findable sming_ref (cache_limit 512) (bd_content sparse_media 512 dev') p"
    using demo_sming_rescannable rescannable_findable [OF _ sming_ref_laws(3,4)] unfolding t by blast
  from gpt_format_rescan [OF sparse_media sparse_reliable sparse_ready sming_ref_laws(1,3,4) lim f this, of "[]" "[]" "[]"]
  obtain dev'' where s: "scanPartitions sming_ref (bd_read sparse_ops) (Some []) (Some []) [] dev'
      = Some (Ret (dev'', map (gpt_rescanned sming_ref (bd_content sparse_media 512 dev')) demo_sming_placed, True))"
    and same: "\<forall>p \<in> set demo_sming_placed. gpt_rescanned sming_ref (bd_content sparse_media 512 dev') p = p"
    using demo_sming_rescannable unfolding t by blast
  then show ?thesis using f map_idI [of demo_sming_placed "gpt_rescanned sming_ref (bd_content sparse_media 512 dev')"] by auto
qed

text \<open>C12: Scanning a freshly formatted MBR disk yields the partitions in the order of the table, with their offsets, sizes and
  indicators; names are numbered and the volume type is the one the indicator stands for. Where a partition already holds
  a volume, the size is that of the volume.\<close>

theorem mbr_format_rescan:
  assumes "raw_media ops ss media" "reliable ops" "ready media ss dev" "size_bits_law L" "fulltype_law L" "2 ^ 32 \<le> cache_limit ss"
    and "formatDisk_mbr L ops mem dev pt table = Some (Ret ((dev', pt', table'), Success))"
    and "\<forall>p \<in> set pt'. mbr_findable L (bd_content media ss dev) p" "sysind (hd pt') \<noteq> EFI_PMBR_OSTYPE_EFI_GPT"
  shows "\<exists>dev''. scanPartitions L (bd_read ops) (Some w1) m2 fresh dev'
      = Some (Ret (dev'', map (\<lambda>(i, p). mbr_rescanned L (bd_content media ss dev) i p) (enumerate 1 pt'), True)) \<and>
    bd_content media ss dev'' = bd_content media ss dev'"
  by (rule mbr_format_scan [OF assms])

theorem mbr_format_rescan_witness:
  "\<exists>dev' dev''. formatDisk_mbr sming_ref sparse_ops (Some []) (sparse_dev 104857600) [] demo_table
      = Some (Ret ((dev', demo_placed 103809024, []), Success)) \<and>
    scanPartitions sming_ref (bd_read sparse_ops) (Some []) None [] dev'
      = Some (Ret (dev'', [mbr_rescanned sming_ref (\<lambda>_. 0) 1 (hd (demo_placed 103809024))], True))"
proof -
  obtain dev' where f: "formatDisk_mbr sming_ref sparse_ops (Some []) (sparse_dev 104857600) [] demo_table
      = Some (Ret ((dev', demo_placed 103809024, []), Success))" using demo_format_mbr by blast
  have lim: "2 ^ 32 \<le> cache_limit 512" by (simp add: cache_limit_def)
  have c: "bd_content sparse_media 512 (sparse_dev 104857600) = (\<lambda>_. 0)" by (rule ext) (rule sparse_dev(4))
  have z: "sector_of (bd_content sparse_media 512 (sparse_dev 104857600)) k = replicate 512 0" for k
    by (rule nth_equalityI) (simp_all add: sector_of_def c)
  have fnd: "\<forall>p \<in> set (demo_placed 103809024). mbr_findable sming_ref (bd_content sparse_media 512 (sparse_dev 104857600)) p"
    by (simp add: mbr_findable_def z identify_zeros demo_placed_def part_info_new_def SI_FAT16B_def OSTYPE_EXTENDED_def)
  have hd: "sysind (hd (demo_placed 103809024)) \<noteq> EFI_PMBR_OSTYPE_EFI_GPT"
    by (simp add: demo_placed_def SI_FAT16B_def EFI_PMBR_OSTYPE_EFI_GPT_def)
  from mbr_format_rescan [OF sparse_media sparse_reliable sparse_ready sming_ref_laws(1,4) lim f fnd hd]
  show ?thesis using f unfolding c by (fastforce simp: demo_placed_def)
qed

end
