(* ===== verification/TestTables.thy ===== *)
theory TestTables
  imports ScanProps
begin

text \<open>
  The partition tables of the library's own tests (\<^verbatim>\<open>test/app/Basic.cpp\<close>), formatted on disks of 100 MiB, with what
  \<^verbatim>\<open>validate\<close> makes of them, what scanning the disk finds, and what \<^verbatim>\<open>blkid\<close> reported of the tests' images.
\<close>

section \<open>Create MBR\<close>

definition test_mbr_table :: "part_info list" where
  "test_mbr_table =
     mbr_add sming_ref SysFat12 SI_FAT12 0 5 (mbr_add sming_ref SysFat16 SI_FAT16B 0 35
       (mbr_add sming_ref SysFat16 SI_FAT16B 0 10 (mbr_add sming_ref SysFat16 SI_FAT16B 0 50 [])))"

definition placed :: "part_info list \<Rightarrow> (u64 \<times> u64) list \<Rightarrow> part_info list" where
  "placed ps xs = map2 (\<lambda>p (off, sz). p\<lparr>p_offset := off, p_size := sz\<rparr>) ps xs"

definition test_mbr_placed :: "part_info list" where
  "test_mbr_placed = placed test_mbr_table [(1048576, 52428800), (53477376, 10485760), (63963136, 36700160), (100663296, 4194304)]"

lemma test_mbr_validate: "validate sming_ref test_mbr_table 2048 202752 512 = Some (Ret (test_mbr_placed, Success))"
  by code_simp

lemma test_mbr_entries:
  "map (\<lambda>p. (p_offset p, p_size p, sysind p)) test_mbr_placed = [(1048576, 52428800, SI_FAT16B), (53477376, 10485760, SI_FAT16B),
     (63963136, 36700160, SI_FAT16B), (100663296, 4194304, SI_FAT12)]"
  by (simp add: test_mbr_placed_def placed_def test_mbr_table_def mbr_add_def)

section \<open>Create GPT\<close>

definition test_gpt_table :: "part_info list" where
  "test_gpt_table =
     gpt_add_part sming_ref demo_guid ''custom partition type'' SysUnknown 0 2
       (mk_uuid 0x3cd54234 0xcb54 0x4ed5 0xbc 0x8b 0x55 0xfc 0x7d 0x42 0x84 0x70)
       (mk_uuid 0x203a9900 0xf29c 0x49f0 0xbf 0xbc 0xc6 0x4e 0xd3 0x31 0xe3 0xdc)
    (gpt_add_part sming_ref demo_guid ''last basic partition'' SysFat16 0 18
       (mk_uuid 0x21da42c0 0x0bfb 0x4a53 0xb8 0x5d 0x05 0xeb 0x3f 0x36 0x18 0x05) null_uuid
    (gpt_add_part sming_ref demo_guid ''yet another one'' SysUnknown 0 20
       (mk_uuid 0x40a78f58 0x5977 0x41d1 0x97 0xfd 0xcf 0x54 0x2c 0x9a 0x1a 0x4c) null_uuid
    (gpt_add_part sming_ref demo_guid ''My other partition'' SysFat32 0 10
       (mk_uuid 0x13b4becf 0xd095 0x41df 0xb4 0x1c 0x32 0x1f 0x18 0x4b 0xe5 0x98) null_uuid
    (gpt_add_part sming_ref demo_guid ''My FAT partition'' SysExfat 0 50
       (mk_uuid 0x23672da9 0xd8ae 0x43fa 0x87 0x76 0x5c 0x29 0x29 0xd8 0x89 0x01) null_uuid []))))"

definition test_disk_guid :: uuid where
  "test_disk_guid = mk_uuid 0x61d3ce8a 0xd7c9 0x400b 0x8f 0x00 0x6f 0xda 0xb7 0xd5 0x27 0x65"

definition test_gpt_placed :: "part_info list" where
  "test_gpt_placed = placed test_gpt_table
     [(1048576, 52428800), (53477376, 10485760), (63963136, 20971520), (84934656, 18874368), (103809024, 1031680)]"

lemma test_gpt_validate: "validate sming_ref test_gpt_table 2048 202719 512 = Some (Ret (test_gpt_placed, Success))"
  by code_simp

lemma test_gpt_format:
  "\<exists>dev'. formatDisk_gpt sming_ref sparse_ops demo_guid (Some []) (sparse_dev 104857600) [] test_gpt_table test_disk_guid
      = Some (Ret ((dev', test_gpt_placed, []), Success))"
proof -
  obtain bufs where b: "buffers (sparse_dev 104857600) = Some bufs" using sparse_dev(3) by auto
  have ne: "test_gpt_table \<noteq> []" by (simp add: test_gpt_table_def gpt_add_part_def)
  have v: "validate sming_ref test_gpt_table 2048 (gpt_region (sectorCount (sparse_dev 104857600))) 512
      = Some (Ret (test_gpt_placed, Success))" by (simp only: sparse_gpt_region test_gpt_validate)
  have lim: "34 \<le> unat (sectorCount (sparse_dev 104857600))" "unat (sectorCount (sparse_dev 104857600)) * 512 \<le> cache_limit 512"
    by (simp_all add: sparse_gpt_region cache_limit_def)
  show ?thesis
    using format_gpt_returns [OF sparse_media sparse_reliable sparse_dev(1) b sming_ref_laws(1,3) lim ne v] by blast
qed

lemma test_mbr_format:
  "\<exists>dev'. formatDisk_mbr sming_ref sparse_ops (Some []) (sparse_dev 104857600) [] test_mbr_table
     = Some (Ret ((dev', test_mbr_placed, []), Success))"
proof -
  obtain bufs where "buffers (sparse_dev 104857600) = Some bufs" using sparse_dev(3) by auto
  then show ?thesis
    using sparse_region(1) test_mbr_validate
    by (intro format_mbr_returns [OF sparse_reliable sparse_geometry _ sming_ref_laws(1)])
      (simp_all add: test_mbr_table_def mbr_add_def)
qed

section \<open>What is found\<close>

lemma test_mbr_findable: "\<forall>p \<in> set test_mbr_placed. mbr_findable sming_ref (\<lambda>_. 0) p"
proof -
  have z: "sector_of (\<lambda>_. 0) k = replicate 512 0" for k by (rule nth_equalityI) (simp_all add: sector_of_def)
  show ?thesis
    by (simp add: mbr_findable_def z identify_zeros test_mbr_placed_def placed_def test_mbr_table_def mbr_add_def part_info_new_def
        SI_FAT16B_def SI_FAT12_def OSTYPE_EXTENDED_def)
qed

lemma test_mbr_first: "sysind (hd test_mbr_placed) \<noteq> EFI_PMBR_OSTYPE_EFI_GPT"
  by (simp add: test_mbr_placed_def placed_def test_mbr_table_def mbr_add_def SI_FAT16B_def EFI_PMBR_OSTYPE_EFI_GPT_def)

text \<open>No volume has been created in the partitions, so their sectors are still empty.\<close>

lemma test_gpt_empty:
  assumes "formatDisk_gpt sming_ref sparse_ops demo_guid (Some []) (sparse_dev 104857600) [] test_gpt_table test_disk_guid
      = Some (Ret ((dev', test_gpt_placed, []), Success))" "2048 \<le> k" "k < 204767"
  shows "sector_of (bd_content sparse_media 512 dev') k = replicate 512 0"
proof (rule nth_equalityI)
  fix i assume "i < length (sector_of (bd_content sparse_media 512 dev') k)"
  then have i: "i < 512" by simp
  have n: "204800 = unat (sectorCount (sparse_dev 104857600))" by (simp add: sparse_gpt_region)
  have lim: "67 \<le> (204800 :: nat)" "204800 * 512 \<le> cache_limit 512" by (simp_all add: cache_limit_def)
  have a: "34 * 512 \<le> k * 512 + i" "k * 512 + i < (204800 - 33) * 512" using i assms(2,3) by simp_all
  then have "\<not> gpt_area 204800 (k * 512 + i)" by (simp add: gpt_area_def)
  then have "bd_content sparse_media 512 dev' (k * 512 + i) = 0"
    using formatDisk_gpt_content [OF sparse_media sparse_dev(1) sming_ref_laws(1,3) n lim assms(1)] sparse_dev(4)
    unfolding Let_def by metis
  then show "sector_of (bd_content sparse_media 512 dev') k ! i = replicate 512 0 ! i" using i by (simp add: sector_of_def)
qed simp

text \<open>The type of a data partition is lost: the type GUID does not tell it, and there is no volume to tell it.\<close>

definition test_found :: "part_info \<Rightarrow> part_info" where
  "test_found p = p\<lparr>systype := SysUnknown, p_type := Type_invalid sming_ref, p_subtype := ft_subtype (fulltype_none sming_ref)\<rparr>"

definition in_test_disk :: "part_info \<Rightarrow> bool" where
  "in_test_disk p \<longleftrightarrow> 512 dvd unat (p_offset p) \<and> 512 dvd unat (p_size p) \<and> unat (p_offset p) + unat (p_size p) < 2 ^ 32 \<and>
     2048 \<le> unat (p_offset p) div 512 \<and> unat (p_offset p) div 512 < 204767 \<and> gpt_oem_name (p_name p) = p_name p \<and> p_name p \<noteq> [] \<and>
     sysind p = 0 \<and> uuid_isset sming_ref (typeGuid p) \<and> \<not> fulltype_isset sming_ref (SmingTypeGuid_match sming_ref (typeGuid p))"

lemma test_gpt_fields: "\<forall>p \<in> set test_gpt_placed. in_test_disk p"
proof -
  have g: "uuid_isset sming_ref g \<and> \<not> fulltype_isset sming_ref (SmingTypeGuid_match sming_ref g)"
    if "g \<in> {PARTITION_BASIC_DATA_GUID, mk_uuid 0x203a9900 0xf29c 0x49f0 0xbf 0xbc 0xc6 0x4e 0xd3 0x31 0xe3 0xdc}" for g
    using that by (elim insertE emptyE) (simp_all, code_simp+)
  have nm: "gpt_oem_name nm = nm" if "nm \<in> {''My FAT partition'', ''My other partition'', ''yet another one'', ''last basic partition'',
      ''custom partition type''}" for nm
    by (rule gpt_oem_name_id) (use that in auto)
  have null: "\<not> uuid_isset sming_ref null_uuid" by code_simp
  show ?thesis
    by (simp add: test_gpt_placed_def placed_def test_gpt_table_def gpt_add_part_def in_test_disk_def null g nm part_info_new_def)
qed

lemma test_gpt_rescanned:
  assumes "formatDisk_gpt sming_ref sparse_ops demo_guid (Some []) (sparse_dev 104857600) [] test_gpt_table test_disk_guid
      = Some (Ret ((dev', test_gpt_placed, []), Success))"
  shows "\<forall>p \<in> set (take 128 test_gpt_placed). gpt_findable sming_ref (cache_limit 512) (bd_content sparse_media 512 dev') p"
    and "map (gpt_rescanned sming_ref (bd_content sparse_media 512 dev')) (take 128 test_gpt_placed) = map test_found test_gpt_placed"
proof -
  let ?c = "bd_content sparse_media 512 dev'"
  note p = test_gpt_fields
  have id: "identify sming_ref (sector_of ?c (unat (p_offset p) div 512)) (p_offset p) = Ret None" if "p \<in> set test_gpt_placed" for p
  proof -
    have "sector_of ?c (unat (p_offset p) div 512) = replicate 512 0"
      by (rule test_gpt_empty [OF assms]) (use p that in \<open>simp_all add: in_test_disk_def\<close>)
    then show ?thesis by (rule ssubst) (rule identify_zeros)
  qed
  have t: "take 128 test_gpt_placed = test_gpt_placed" by (simp add: test_gpt_placed_def placed_def)
  show "\<forall>p \<in> set (take 128 test_gpt_placed). gpt_findable sming_ref (cache_limit 512) ?c p"
    unfolding t
  proof
    fix p assume m: "p \<in> set test_gpt_placed"
    have "(2 :: nat) ^ 32 + 512 \<le> cache_limit 512" by (simp add: cache_limit_def)
    moreover have "unat (p_offset p) + unat (p_size p) < 2 ^ 32" "uuid_isset sming_ref (typeGuid p)" "512 dvd unat (p_offset p)"
      "512 dvd unat (p_size p)" using p m by (simp_all add: in_test_disk_def)
    ultimately show "gpt_findable sming_ref (cache_limit 512) ?c p" using id [OF m] by (simp add: gpt_findable_def)
  qed
  have "gpt_rescanned sming_ref ?c p = test_found p" if m: "p \<in> set test_gpt_placed" for p
  proof -
    have f: "\<not> fulltype_isset sming_ref (SmingTypeGuid_match sming_ref (typeGuid p))" "sysind p = 0" "gpt_oem_name (p_name p) = p_name p"
      "p_name p \<noteq> []" using p m by (simp_all add: in_test_disk_def)
    have ty: "ft_type (fulltype_none sming_ref) = Type_invalid sming_ref" by (simp add: sming_ref_def)
    show ?thesis
      unfolding gpt_rescanned_def Let_def id [OF m] f(3) using f(1,2,4) ty
      by (cases p) (simp add: test_found_def part_info_new_def named_def)
  qed
  then show "map (gpt_rescanned sming_ref ?c) (take 128 test_gpt_placed) = map test_found test_gpt_placed"
    unfolding t by simp
qed

section \<open>As \<^verbatim>\<open>blkid\<close> sees it\<close>

text \<open>\<^verbatim>\<open>test/blkid-gpt.txt\<close> and \<^verbatim>\<open>test/blkid-mbr.txt\<close> record what the tool \<^verbatim>\<open>blkid\<close> reports of the two images: names, GUIDs, types,
  first sectors and sizes in sectors. It reports no identifier of the MBR disk, whose signature is zero.\<close>

definition blkid_entry :: "gpt_entry \<Rightarrow> string \<times> uuid \<times> uuid \<times> u64 \<times> u64" where
  "blkid_entry e = (unicode_to_oem (partition_name e), unique_partition_guid e, partition_type_guid e, ge_starting_lba e,
     1 + ge_ending_lba e - ge_starting_lba e)"

lemma blkid_of_part:
  "blkid_entry (gpt_entry_of_part 9 p) = (gpt_oem_name (p_name p), uniqueGuid p, typeGuid p, drop_bit 9 (p_offset p),
     drop_bit 9 (p_offset p + p_size p) - drop_bit 9 (p_offset p))"
  by (simp add: blkid_entry_def gpt_entry_of_part_fields unicode_to_oem_name)

lemma test_mbr_blkid:
  assumes "formatDisk_mbr sming_ref sparse_ops (Some []) (sparse_dev 104857600) [] test_mbr_table
      = Some (Ret ((dev', test_mbr_placed, []), Success))"
  defines "c \<equiv> bd_content sparse_media 512 dev'"
  shows "unique_mbr_signature (legacy_mbr_of_bytes (sector_of c 0)) = 0"
    and "map (\<lambda>r. (os_type r, starting_lba r, size_in_lba r)) (mbr_records c 0) =
      [(0x6, 2048, 102400), (0x6, 104448, 20480), (0x6, 124928, 71680), (0x1, 196608, 8192)]"
proof -
  have lim: "512 \<le> cache_limit 512" by (simp add: cache_limit_def)
  have len: "length test_mbr_placed = 4" by (simp add: test_mbr_placed_def placed_def test_mbr_table_def mbr_add_def)
  have c: "c = overwrite 0 (legacy_mbr_bytes (mbr_of 9 (numHeads_for (ucast (sectorCount (sparse_dev 104857600)))) test_mbr_placed))
      (bd_content sparse_media 512 (sparse_dev 104857600))"
    using formatDisk_mbr_content [OF sparse_media sparse_dev(1) lim sming_ref_laws(1) assms(1)] unfolding c_def by blast
  have "length test_mbr_placed \<le> 4" using len by simp
  note disk = mbr_formatted_sector [OF this c]
  show "unique_mbr_signature (legacy_mbr_of_bytes (sector_of c 0)) = 0" by (simp add: disk(2) mbr_of_def)
  have "map (\<lambda>r. (os_type r, starting_lba r, size_in_lba r)) (mbr_records c 0) =
      map (\<lambda>p. (sysind p, ucast (drop_bit 9 (p_offset p)), ucast (drop_bit 9 (p_size p)))) test_mbr_placed"
    by (simp add: disk(3) len mbr_entry_fields)
  also have "\<dots> = [(0x6, 2048, 102400), (0x6, 104448, 20480), (0x6, 124928, 71680), (0x1, 196608, 8192)]"
    by (simp add: test_mbr_placed_def placed_def test_mbr_table_def mbr_add_def part_info_new_def SI_FAT16B_def SI_FAT12_def)
  finally show "map (\<lambda>r. (os_type r, starting_lba r, size_in_lba r)) (mbr_records c 0) =
      [(0x6, 2048, 102400), (0x6, 104448, 20480), (0x6, 124928, 71680), (0x1, 196608, 8192)]" .
qed

lemma test_gpt_blkid:
  assumes "formatDisk_gpt sming_ref sparse_ops demo_guid (Some []) (sparse_dev 104857600) [] test_gpt_table test_disk_guid
      = Some (Ret ((dev', test_gpt_placed, []), Success))"
  defines "c \<equiv> bd_content sparse_media 512 dev'"
  shows "disk_guid (gpt_header_of_bytes sming_ref (sector_of c 1)) = test_disk_guid" (is ?guid)
    and "map (\<lambda>i. blkid_entry (gpt_entry_at sming_ref c 2 i)) [0..<5] =
     [(''My FAT partition'', mk_uuid 0x23672da9 0xd8ae 0x43fa 0x87 0x76 0x5c 0x29 0x29 0xd8 0x89 0x01, PARTITION_BASIC_DATA_GUID, 2048, 102400),
      (''My other partition'', mk_uuid 0x13b4becf 0xd095 0x41df 0xb4 0x1c 0x32 0x1f 0x18 0x4b 0xe5 0x98, PARTITION_BASIC_DATA_GUID, 104448, 20480),
      (''yet another one'', mk_uuid 0x40a78f58 0x5977 0x41d1 0x97 0xfd 0xcf 0x54 0x2c 0x9a 0x1a 0x4c, PARTITION_BASIC_DATA_GUID, 124928, 40960),
      (''last basic partition'', mk_uuid 0x21da42c0 0x0bfb 0x4a53 0xb8 0x5d 0x05 0xeb 0x3f 0x36 0x18 0x05, PARTITION_BASIC_DATA_GUID, 165888, 36864),
      (''custom partition type'', mk_uuid 0x3cd54234 0xcb54 0x4ed5 0xbc 0x8b 0x55 0xfc 0x7d 0x42 0x84 0x70,
        mk_uuid 0x203a9900 0xf29c 0x49f0 0xbf 0xbc 0xc6 0x4e 0xd3 0x31 0xe3 0xdc, 202752, 2015)]" (is ?entries)
proof -
  have ul: "uuid_layout sming_ref" by unfold_locales (rule sming_ref_laws(3))
  have n: "204800 = unat (sectorCount (sparse_dev 104857600))" by (simp add: sparse_gpt_region)
  have lim: "67 \<le> (204800 :: nat)" "204800 * 512 \<le> cache_limit 512" by (simp_all add: cache_limit_def)
  have "uuid_isset sming_ref test_disk_guid" by code_simp
  then have g: "(if uuid_isset sming_ref test_disk_guid then test_disk_guid else demo_guid) = test_disk_guid" by simp
  define h where "h = gpt_sign sming_ref (gpt_primary_header (sectorCount (sparse_dev 104857600)) 32
      (sectorCount (sparse_dev 104857600) - 33) (crc32 0 (gpt_array sming_ref 32 test_gpt_placed)) test_disk_guid)"
  have hdr: "map c [512..<512 + 92] = gpt_header_bytes sming_ref h" and a: "map c [1024..<1024 + 16384] = gpt_array sming_ref 32 test_gpt_placed"
    using formatDisk_gpt_content [OF sparse_media sparse_dev(1) sming_ref_laws(1,3) n lim assms(1)]
    unfolding Let_def c_def h_def g by blast+
  have "sector_of c 1 = gpt_header_bytes sming_ref h @ map c [512 + 92..<512 + 512]"
  proof -
    have "(92 :: nat) \<le> 512" by simp
    from sector_of_split [OF this, of c 1] show ?thesis by (simp only: mult_1 hdr)
  qed
  then have "gpt_header_of_bytes sming_ref (sector_of c 1) = h" using uuid_layout.gpt_header_back [OF ul] by metis
  then show ?guid by (simp add: h_def gpt_sign_def gpt_primary_header_def)
  have nm: "gpt_oem_name nm = nm" if "nm \<in> {''My FAT partition'', ''My other partition'', ''yet another one'', ''last basic partition'',
      ''custom partition type''}" for nm
    by (rule gpt_oem_name_id) (use that in auto)
  have null: "\<not> uuid_isset sming_ref null_uuid" by code_simp
  have given: "uuid_isset sming_ref u" if "u \<in> {mk_uuid 0x23672da9 0xd8ae 0x43fa 0x87 0x76 0x5c 0x29 0x29 0xd8 0x89 0x01,
      mk_uuid 0x13b4becf 0xd095 0x41df 0xb4 0x1c 0x32 0x1f 0x18 0x4b 0xe5 0x98, mk_uuid 0x40a78f58 0x5977 0x41d1 0x97 0xfd 0xcf 0x54 0x2c 0x9a 0x1a 0x4c,
      mk_uuid 0x21da42c0 0x0bfb 0x4a53 0xb8 0x5d 0x05 0xeb 0x3f 0x36 0x18 0x05, mk_uuid 0x3cd54234 0xcb54 0x4ed5 0xbc 0x8b 0x55 0xfc 0x7d 0x42 0x84 0x70,
      mk_uuid 0x203a9900 0xf29c 0x49f0 0xbf 0xbc 0xc6 0x4e 0xd3 0x31 0xe3 0xdc}" for u
    using that by (elim insertE emptyE) (simp_all, code_simp+)
  have len: "length test_gpt_placed = 5" by (simp add: test_gpt_placed_def placed_def test_gpt_table_def gpt_add_part_def)
  have "map (\<lambda>i. blkid_entry (gpt_entry_at sming_ref c 2 i)) [0..<5] = map (\<lambda>i. blkid_entry (gpt_entry_of_part 9 (test_gpt_placed ! i))) [0..<5]"
    using uuid_layout.formatted_entry_lo [OF ul a] len by (intro map_cong) simp_all
  also have "\<dots> = map (\<lambda>p. blkid_entry (gpt_entry_of_part 9 p)) test_gpt_placed"
    using len by (intro nth_equalityI) simp_all
  also have "\<dots> = map (\<lambda>p. (gpt_oem_name (p_name p), uniqueGuid p, typeGuid p, drop_bit 9 (p_offset p),
     drop_bit 9 (p_offset p + p_size p) - drop_bit 9 (p_offset p))) test_gpt_placed" by (simp only: blkid_of_part)
  finally show ?entries
    by (simp add: test_gpt_placed_def placed_def test_gpt_table_def gpt_add_part_def part_info_new_def nm null given)
qed

end
