(* ===== verification/DeviceRun.thy ===== *)
theory DeviceRun
  imports DeviceProps
begin

text \<open>
  Runs of a block device: any sequence of calls of its public operations, with what they returned. A run
  refines a run of a plain array of bytes, and what a successful \<^verbatim>\<open>sync\<close> has put on the medium stays
  there as long as its sectors are not addressed again.
\<close>

section \<open>Calls and runs\<close>

datatype dev_call =
    CallRead u64 nat
  | CallWrite u64 "u8 list"
  | CallErase u64 u64
  | CallSync
  | CallBuffers nat

datatype dev_reply = Data "u8 list option" | Done bool

text \<open>A call on the device; \<open>mem\<close> is the memory new buffers get.\<close>

fun dev_exec :: "sming \<Rightarrow> 'd raw_ops \<Rightarrow> (nat \<Rightarrow> u8 list) \<Rightarrow> 'd block_device \<Rightarrow> dev_call \<Rightarrow> 'd block_device \<times> dev_reply" where
  "dev_exec L ops mem dev (CallRead a n) = apsnd Data (bd_read ops dev a n)"
| "dev_exec L ops mem dev (CallWrite a bs) = apsnd Done (bd_write ops dev a bs)"
| "dev_exec L ops mem dev (CallErase a n) = apsnd Done (bd_erase_range ops dev a n)"
| "dev_exec L ops mem dev CallSync = apsnd Done (bd_sync ops dev)"
| "dev_exec L ops mem dev (CallBuffers n) = apsnd Done (allocateBuffers L ops mem dev n)"

lemma apsnd_eq: "apsnd f p = (a, b) \<longleftrightarrow> (\<exists>x. p = (a, x) \<and> b = f x)"
  by (cases p) auto

inductive dev_run :: "sming \<Rightarrow> 'd raw_ops \<Rightarrow> 'd block_device \<Rightarrow> (dev_call \<times> dev_reply) list \<Rightarrow> 'd block_device \<Rightarrow> bool"
  for L ops where
  dev_nil: "dev_run L ops dev [] dev"
| dev_cons: "dev_exec L ops mem dev c = (dev1, r) \<Longrightarrow> dev_run L ops dev1 tr dev' \<Longrightarrow> dev_run L ops dev ((c, r) # tr) dev'"

inductive_cases dev_run_NilE: "dev_run L ops dev [] dev'"
inductive_cases dev_run_ConsE: "dev_run L ops dev (x # tr) dev'"
inductive_simps dev_run_simps: "dev_run L ops dev [] dev'" "dev_run L ops dev (x # tr) dev'"

lemma dev_run_append:
  "dev_run L ops dev (tr1 @ tr2) dev' \<longleftrightarrow> (\<exists>dev1. dev_run L ops dev tr1 dev1 \<and> dev_run L ops dev1 tr2 dev')"
  by (induction tr1 arbitrary: dev) (fastforce simp: dev_run_simps)+

text \<open>Calls within the addresses the cache can handle.\<close>

fun call_range :: "dev_call \<Rightarrow> nat \<times> nat" where
  "call_range (CallRead a n) = (unat a, n)"
| "call_range (CallWrite a bs) = (unat a, length bs)"
| "call_range (CallErase a n) = (unat a, unat n)"
| "call_range _ = (0, 0)"

definition call_ok :: "nat \<Rightarrow> dev_call \<Rightarrow> bool" where
  "call_ok lim c \<longleftrightarrow> fst (call_range c) + snd (call_range c) \<le> lim \<and>
     (\<forall>n. c = CallBuffers n \<longrightarrow> n = 0 \<or> (\<exists>k < 32. n = 2 ^ k))"

section \<open>The array of bytes\<close>

inductive array_step :: "nat \<Rightarrow> (nat \<Rightarrow> u8) \<Rightarrow> dev_call \<times> dev_reply \<Rightarrow> (nat \<Rightarrow> u8) \<Rightarrow> bool" for ss where
  read_data: "array_step ss c (CallRead a n, Data (Some (map c [unat a..<unat a + n]))) c"
| read_fails: "array_step ss c (CallRead a n, Data None) c"
| write_done: "array_step ss c (CallWrite a bs, Done True) (overwrite (unat a) bs c)"
| write_fails: "(\<And>k. k < unat a \<or> unat a + length bs \<le> k \<Longrightarrow> c' k = c k) \<Longrightarrow> array_step ss c (CallWrite a bs, Done False) c'"
| erase_done: "ss dvd unat a \<Longrightarrow> ss dvd unat n \<Longrightarrow>
    array_step ss c (CallErase a n, Done True) (overwrite (unat a) (replicate (unat n) 0) c)"
| erase_fails: "array_step ss c (CallErase a n, Done False) c"
| synced: "array_step ss c (CallSync, Done b) c"
| rebuffered: "array_step ss c (CallBuffers n, Done b) c"

inductive array_run :: "nat \<Rightarrow> (nat \<Rightarrow> u8) \<Rightarrow> (dev_call \<times> dev_reply) list \<Rightarrow> (nat \<Rightarrow> u8) \<Rightarrow> bool" for ss where
  array_nil: "array_run ss c [] c"
| array_cons: "array_step ss c x c1 \<Longrightarrow> array_run ss c1 tr c' \<Longrightarrow> array_run ss c (x # tr) c'"


text \<open>The sectors that a call modifies.\<close>

fun touched :: "nat \<Rightarrow> dev_call \<Rightarrow> nat set" where
  "touched ss (CallWrite a bs) = (\<lambda>k. k div ss) ` {unat a..<unat a + length bs}"
| "touched ss (CallErase a n) = (\<lambda>k. k div ss) ` {unat a..<unat a + unat n}"
| "touched ss _ = {}"

lemma array_step_frame:
  "array_step ss c x c' \<Longrightarrow> k div ss \<notin> touched ss (fst x) \<Longrightarrow> c' k = c k"
  by (induction rule: array_step.induct) (auto simp: overwrite_def image_iff not_le not_less)

lemma array_run_frame:
  "array_run ss c tr c' \<Longrightarrow> (\<And>x. x \<in> set tr \<Longrightarrow> k div ss \<notin> touched ss (fst x)) \<Longrightarrow> c' k = c k"
proof (induction rule: array_run.induct)
  case (array_cons c x c1 tr c')
  have "c1 k = c k" by (rule array_step_frame [OF array_cons.hyps(1)]) (simp add: array_cons.prems)
  then show ?case using array_cons.IH array_cons.prems by simp
qed simp

section \<open>Refinement\<close>

context raw_media begin

lemma dev_exec_refines:
  assumes "bd_ok media ss dev" "size_bits_law L" "call_ok (cache_limit ss) c" "dev_exec L ops mem dev c = (dev', r)"
  shows "bd_ok media ss dev' \<and> array_step ss (bd_content media ss dev) (c, r) (bd_content media ss dev')"
proof (cases c)
  case (CallRead a n)
  then obtain x where x: "bd_read ops dev a n = (dev', x)" "r = Data x" using assms(4) by (auto simp: apsnd_eq)
  then show ?thesis using bd_read_ok [OF assms(1) _ x(1)] assms(3) CallRead
    by (cases x) (auto simp: call_ok_def bd_content_def intro: array_step.intros)
next
  case (CallWrite a bs)
  then obtain b where b: "bd_write ops dev a bs = (dev', b)" "r = Done b" using assms(4) by (auto simp: apsnd_eq)
  then show ?thesis using bd_write_ok [OF assms(1) _ b(1)] assms(3) CallWrite
    by (cases b) (auto simp: call_ok_def intro: array_step.intros)
next
  case (CallErase a n)
  then obtain b where b: "bd_erase_range ops dev a n = (dev', b)" "r = Done b" using assms(4) by (auto simp: apsnd_eq)
  then show ?thesis using bd_erase_ok [OF assms(1) _ b(1)] assms(3) CallErase
    by (cases b) (auto simp: call_ok_def intro!: array_step.intros)
next
  case CallSync
  then obtain b where b: "bd_sync ops dev = (dev', b)" "r = Done b" using assms(4) by (auto simp: apsnd_eq)
  then show ?thesis using bd_sync_ok [OF assms(1) b(1)] CallSync by (auto simp: bd_content_def intro: array_step.intros)
next
  case (CallBuffers n)
  then obtain b where b: "allocateBuffers L ops mem dev n = (dev', b)" "r = Done b" using assms(4) by (auto simp: apsnd_eq)
  have "\<exists>k < 32. n = 0 \<or> n = 2 ^ k" using assms(3) CallBuffers by (auto simp: call_ok_def intro: exI [of _ 0])
  then obtain k where k: "n = 0 \<or> n = 2 ^ k" "k < 32" by blast
  show ?thesis using allocateBuffers_ok [OF assms(1,2) k b(1)] CallBuffers b(2) by (auto simp: bd_content_def intro: array_step.intros)
qed

lemma dev_run_refines:
  assumes "dev_run L ops dev tr dev'" "size_bits_law L" "bd_ok media ss dev" "\<And>x. x \<in> set tr \<Longrightarrow> call_ok (cache_limit ss) (fst x)"
  shows "bd_ok media ss dev' \<and> array_run ss (bd_content media ss dev) tr (bd_content media ss dev')"
  using assms(1,3,4)
proof (induction rule: dev_run.induct)
  case (dev_nil dev)
  then show ?case by (simp add: array_nil)
next
  case (dev_cons mem dev c dev1 r tr dev')
  have "call_ok (cache_limit ss) c" using dev_cons.prems(2) [of "(c, r)"] by simp
  note step = dev_exec_refines [OF dev_cons.prems(1) assms(2) this dev_cons.hyps(1)]
  then show ?case using dev_cons.IH dev_cons.prems(2) by (auto intro: array_cons)
qed

end

section \<open>Durability\<close>

text \<open>Only sectors of \<open>T\<close> are dirty; the number of buffers is a power of two.\<close>

definition dirt_in :: "nat set \<Rightarrow> 'd block_device \<Rightarrow> bool" where
  "dirt_in T dev \<longleftrightarrow> (\<forall>bufs. buffers dev = Some bufs \<longrightarrow> (\<exists>k < 32. length bufs = 2 ^ k) \<and>
     (\<forall>b \<in> set bufs. bdirty b \<longrightarrow> unat (bsector b) \<in> T))"

lemma dirt_inD:
  assumes "dirt_in T dev" "buffers dev = Some bufs"
  shows "b \<in> set bufs \<Longrightarrow> bdirty b \<Longrightarrow> unat (bsector b) \<in> T" "bufs ! buffer_index bufs sector \<in> set bufs"
proof -
  show "b \<in> set bufs \<Longrightarrow> bdirty b \<Longrightarrow> unat (bsector b) \<in> T" using assms by (simp add: dirt_in_def)
  obtain k where "k < 32" "length bufs = 2 ^ k" using assms by (auto simp: dirt_in_def)
  then show "bufs ! buffer_index bufs sector \<in> set bufs" using buffer_index_mod [of bufs k sector] by simp
qed

lemma dirt_in_mono: "dirt_in T dev \<Longrightarrow> T \<subseteq> T' \<Longrightarrow> dirt_in T' dev"
  by (auto simp: dirt_in_def)

lemma dirt_in_update:
  assumes "dirt_in T dev" "buffers dev = Some bufs" "bdirty b \<Longrightarrow> unat (bsector b) \<in> T" "buffers dev' = Some (bufs[i := b])"
  shows "dirt_in T dev'"
  unfolding dirt_in_def
proof (intro allI impI conjI ballI)
  fix bufs' assume b': "buffers dev' = Some bufs'"
  then have "bufs' = bufs[i := b]" using assms(4) by simp
  then show "\<exists>k < 32. length bufs' = 2 ^ k" using assms(1,2) by (simp add: dirt_in_def)
  fix x assume "x \<in> set bufs'" "bdirty x"
  then have "x \<in> insert b (set bufs)" using b' assms(4) set_update_subset_insert by fastforce
  then show "unat (bsector x) \<in> T" using assms(1-3) \<open>bdirty x\<close> by (auto simp: dirt_in_def)
qed

lemma flushBuffer_dirt: "flushBuffer ops d b = (d', b', ok) \<Longrightarrow> bsector b' = bsector b \<and> (bdirty b' \<longrightarrow> bdirty b)"
  by (auto simp: flushBuffer_def split: prod.splits bool.splits if_splits)

lemma flush_all_dirt:
  "flush_all ops d bs = (d', bs', ok) \<Longrightarrow> b' \<in> set bs' \<Longrightarrow> bdirty b' \<Longrightarrow> \<exists>b \<in> set bs. bdirty b \<and> bsector b = bsector b'"
proof (induction bs arbitrary: d d' bs' ok)
  case (Cons b bs)
  obtain d1 b1 ok1 where f: "flushBuffer ops d b = (d1, b1, ok1)" by (cases "flushBuffer ops d b")
  obtain bs2 ok2 where fa: "flush_all ops d1 bs = (d', bs2, ok2)" "bs' = b1 # bs2"
    using Cons.prems(1) f by (auto split: prod.splits)
  show ?case
  proof (cases "b' = b1")
    case True
    then show ?thesis using flushBuffer_dirt [OF f] Cons.prems(3) by auto
  next
    case False
    then show ?thesis using Cons.IH [OF fa(1)] Cons.prems(2,3) fa(2) by auto
  qed
qed simp

lemma flush_all_length: "flush_all ops d bs = (d', bs', ok) \<Longrightarrow> length bs' = length bs"
  by (induction bs arbitrary: d bs' ok) (auto split: prod.splits)

lemma flushBuffers_dirt:
  assumes "dirt_in T dev" "flushBuffers ops dev = (dev', ok)"
  shows "dirt_in T dev'"
proof (cases "buffers dev")
  case None
  then show ?thesis using assms by (simp add: flushBuffers_def)
next
  case (Some bufs)
  then obtain d bufs' where f: "flush_all ops (raw dev) bufs = (d, bufs', ok)" "dev' = dev\<lparr>raw := d, buffers := Some bufs'\<rparr>"
    using assms(2) by (auto simp: flushBuffers_def split: prod.splits)
  have "length bufs' = length bufs" using f(1) by (rule flush_all_length)
  then show ?thesis using assms(1) Some f(2) flush_all_dirt [OF f(1)] by (fastforce simp: dirt_in_def)
qed

lemma dirt_in_raw [simp]: "dirt_in T (dev\<lparr>raw := d\<rparr>) = dirt_in T dev"
  by (simp add: dirt_in_def)

lemma bd_sync_dirt:
  assumes "dirt_in T dev" "bd_sync ops dev = (dev', ok)"
  shows "dirt_in T dev'"
proof -
  obtain dev1 ok1 where f: "flushBuffers ops dev = (dev1, ok1)" by (cases "flushBuffers ops dev")
  show ?thesis using assms(2) f flushBuffers_dirt [OF assms(1) f] by (cases ok1) (auto simp: bd_sync_def split: prod.splits)
qed

lemma allocateBuffers_dirt:
  assumes "dirt_in T dev" "allocateBuffers L ops mem dev n = (dev', ok)" "size_bits_law L" "n = 0 \<or> n = 2 ^ k" "k < 32"
  shows "dirt_in T dev'"
proof -
  obtain dev1 ok1 where f: "flushBuffers ops dev = (dev1, ok1)" by (cases "flushBuffers ops dev")
  have none: "dirt_in T (dev1\<lparr>buffers := None\<rparr>)" by (simp add: dirt_in_def)
  have new: "dirt_in T (dev1\<lparr>buffers := Some (bufferlist_new L mem ss n)\<rparr>)" if "n \<noteq> 0" for ss
    using assms(3-5) that by (auto simp: dirt_in_def bufferlist_new_def size_bits_law_def)
  show ?thesis using assms(2) f flushBuffers_dirt [OF assms(1) f] none new
    by (cases ok1) (auto simp: allocateBuffers_def Let_def split: if_splits)
qed

lemma read_chunk_dirt:
  assumes "dirt_in T dev" "buffers dev = Some bufs" "read_chunk ops dev bufs sector off n = (dev', r)"
  shows "dirt_in T dev'"
proof -
  let ?i = "buffer_index bufs sector"
  have old: "bdirty (bufs ! ?i) \<Longrightarrow> unat (bsector (bufs ! ?i)) \<in> T" by (rule dirt_inD(1) [OF assms(1,2) dirt_inD(2) [OF assms(1,2)]])
  obtain d1 b1 ok1 where f: "flushBuffer ops (raw dev) (bufs ! ?i) = (d1, b1, ok1)" by (cases "flushBuffer ops (raw dev) (bufs ! ?i)")
  have upd: "dirt_in T dev2" if "buffers dev2 = Some (bufs[?i := b])" "bdirty b \<Longrightarrow> unat (bsector b) \<in> T" for dev2 :: "'a block_device" and b
    using that by (intro dirt_in_update [OF assms(1,2), of b dev2 ?i])
  show ?thesis
  proof (cases "ucast (bsector (bufs ! ?i)) = sector")
    case True
    then show ?thesis using assms by (auto simp: read_chunk_def Let_def dirt_in_def)
  next
    case False
    then show ?thesis using assms(3) f flushBuffer_dirt [OF f] old
      by (auto simp: read_chunk_def Let_def buffer_invalidate_def split: bool.splits prod.splits option.splits intro!: upd)
  qed
qed

lemma write_chunk_dirt:
  assumes "dirt_in T dev" "buffers dev = Some bufs" "unat sector < 2 ^ 32 - 1" "unat sector \<in> T"
    and "write_chunk ops dev bufs sector off src = (dev', ok)"
  shows "dirt_in T dev'"
proof -
  let ?i = "buffer_index bufs sector"
  have old: "bdirty (bufs ! ?i) \<Longrightarrow> unat (bsector (bufs ! ?i)) \<in> T" by (rule dirt_inD(1) [OF assms(1,2) dirt_inD(2) [OF assms(1,2)]])
  obtain d1 b1 ok1 where f: "flushBuffer ops (raw dev) (bufs ! ?i) = (d1, b1, ok1)" by (cases "flushBuffer ops (raw dev) (bufs ! ?i)")
  have upd: "dirt_in T dev2" if "buffers dev2 = Some (bufs[?i := b])" "bdirty b \<Longrightarrow> unat (bsector b) \<in> T" for dev2 :: "'a block_device" and b
    using that by (intro dirt_in_update [OF assms(1,2), of b dev2 ?i])
  have s: "unat (ucast sector :: u32) \<in> T" using small_sector(1) [OF assms(3)] assms(4) by simp
  show ?thesis
  proof (cases "ucast (bsector (bufs ! ?i)) = sector")
    case True
    moreover have "unat (ucast (bsector (bufs ! ?i)) :: u64) = unat (bsector (bufs ! ?i))" by (simp add: unat_ucast_up)
    ultimately have "unat (bsector (bufs ! ?i)) \<in> T" using assms(4) by simp
    then show ?thesis using assms(5) True by (auto simp: write_chunk_def Let_def intro!: upd)
  next
    case False
    then show ?thesis using assms(5) f flushBuffer_dirt [OF f] old s
      by (auto simp: write_chunk_def Let_def buffer_invalidate_def split: bool.splits prod.splits option.splits if_splits intro!: upd)
  qed
qed

lemma read_loop_dirt:
  assumes "dirt_in T dev" "buffers dev = Some bufs" "read_loop ops dev bufs sector offset sz = (dev', r)"
  shows "dirt_in T dev'"
  using assms
proof (induction ops dev bufs sector offset sz arbitrary: dev' r rule: read_loop.induct)
  case (1 ops dev bufs sector offset sz)
  define c where "c = min sz (unat (ucast (sectorSize dev) - offset))"
  show ?case
  proof (cases "sz = 0 \<or> c = 0")
    case True
    then show ?thesis using 1(2,4) by (auto simp: read_loop.simps [of ops dev bufs sector offset sz] Let_def c_def split: if_splits)
  next
    case False
    obtain dev1 r1 where rc: "read_chunk ops dev bufs sector (unat offset) c = (dev1, r1)"
      by (cases "read_chunk ops dev bufs sector (unat offset) c")
    have d1: "dirt_in T dev1" by (rule read_chunk_dirt [OF 1(2,3) rc])
    have ih: "dirt_in T dev2"
      if "r1 = Some bs" "buffers dev1 = Some bufs1" "read_loop ops dev1 bufs1 (sector + 1) 0 (sz - c) = (dev2, r2)" for bs bufs1 dev2 r2
      by (rule 1(1) [OF _ c_def [unfolded ucast_id] _ rc [symmetric] that(1,2) d1 that(2,3)]) (use False in simp_all)
    have loop: "(dev', r) = (case (dev1, r1) of (dev', None) \<Rightarrow> (dev', None)
        | (dev', Some bs) \<Rightarrow> (case buffers dev' of None \<Rightarrow> (dev', None)
          | Some bufs' \<Rightarrow> (case read_loop ops dev' bufs' (sector + 1) 0 (sz - c) of
              (dev'', None) \<Rightarrow> (dev'', None) | (dev'', Some rest) \<Rightarrow> (dev'', Some (bs @ rest)))))"
      using False 1(4) by (simp add: read_loop.simps [of ops dev bufs sector offset sz] Let_def rc flip: c_def)
    show ?thesis
    proof (cases "r1 = None \<or> buffers dev1 = None")
      case True
      then show ?thesis using loop d1 by (auto split: option.splits)
    next
      case False
      then obtain bs bufs1 where b: "r1 = Some bs" "buffers dev1 = Some bufs1" by auto
      obtain dev2 r2 where rl: "read_loop ops dev1 bufs1 (sector + 1) 0 (sz - c) = (dev2, r2)"
        by (cases "read_loop ops dev1 bufs1 (sector + 1) 0 (sz - c)")
      have "dev' = dev2" using loop b rl by (simp split: option.splits)
      then show ?thesis using ih [OF b rl] by simp
    qed
  qed
qed

lemma bd_read_dirt:
  assumes "dirt_in T dev" "bd_read ops dev a n = (dev', r)"
  shows "dirt_in T dev'"
proof (cases "buffers dev")
  case None
  then show ?thesis using assms by (auto simp: bd_read_def split: if_splits prod.splits)
next
  case (Some bufs)
  then show ?thesis using assms read_loop_dirt [OF assms(1) Some] by (auto simp: bd_read_def)
qed

lemma dirt_inI:
  "buffers dev = Some bufs \<Longrightarrow> \<exists>k < 32. length bufs = 2 ^ k \<Longrightarrow> \<forall>b \<in> set bufs. bdirty b \<longrightarrow> unat (bsector b) \<in> T \<Longrightarrow> dirt_in T dev"
  by (simp add: dirt_in_def)

lemma erase_loop_dirt:
  assumes "\<exists>k < 32. length bufs = 2 ^ k" "\<forall>b \<in> set bufs. bdirty b \<longrightarrow> unat (bsector b) \<in> T"
  shows "dirt_in T (erase_loop dev bufs ad m)"
  using assms
proof (induction m arbitrary: dev bufs ad)
  case 0
  show ?case by (rule dirt_inI [OF _ 0]) simp
next
  case (Suc m)
  let ?i = "buffer_index bufs ad" and ?b = "bufs ! buffer_index bufs ad"
  let ?b1 = "?b\<lparr>bdata := replicate (unat (sectorSize dev)) 0, bdirty := False\<rparr>"
  let ?bufs = "if ucast (bsector ?b) = ad then bufs[?i := ?b1] else bufs"
  have d: "\<forall>b \<in> set ?bufs. bdirty b \<longrightarrow> unat (bsector b) \<in> T"
    using Suc.prems(2) set_update_subset_insert [of bufs ?i ?b1] by auto
  have "length ?bufs = length bufs" by simp
  then have "\<exists>k < 32. length ?bufs = 2 ^ k" using Suc.prems(1) by (simp only:)
  from Suc.IH [OF this d] show ?case by (simp only: erase_loop.simps Let_def)
qed

lemma bd_erase_dirt:
  assumes "dirt_in T dev" "bd_erase_range ops dev a n = (dev', ok)"
  shows "dirt_in T dev'"
proof -
  let ?ad = "drop_bit (unat (sectorSizeShift dev)) a" and ?m = "drop_bit (unat (sectorSizeShift dev)) n"
  obtain d ok1 where e: "raw_sector_erase_range ops (raw dev) ?ad (unat (ucast ?m :: u32)) = (d, ok1)"
    by (cases "raw_sector_erase_range ops (raw dev) ?ad (unat (ucast ?m :: u32))")
  have "dev' \<in> {dev, dev\<lparr>raw := d\<rparr>} \<or> (\<exists>bufs. buffers dev = Some bufs \<and> dev' = erase_loop (dev\<lparr>raw := d\<rparr>) bufs ?ad (unat ?m))"
    using assms(2) e by (cases ok1; cases "buffers dev") (simp_all add: bd_erase_range_def Let_def split: if_splits)
  moreover have "dirt_in T (erase_loop (dev\<lparr>raw := d\<rparr>) bufs ?ad (unat ?m))" if "buffers dev = Some bufs" for bufs
    using assms(1) that by (intro erase_loop_dirt) (simp_all add: dirt_in_def)
  ultimately show ?thesis using assms(1) by auto
qed

context raw_media begin

lemma write_loop_dirt:
  assumes "dirt_in T dev" "bd_ok media ss dev" "buffers dev = Some bufs" "unat offset < ss"
    and "unat sector * ss + unat offset + length src \<le> cache_limit ss"
    and "(\<lambda>k. k div ss) ` {unat sector * ss + unat offset..<unat sector * ss + unat offset + length src} \<subseteq> T"
    and "write_loop ops dev bufs sector offset src = (dev', ok)"
  shows "dirt_in T dev'"
  using assms
proof (induction "length src" arbitrary: dev bufs sector offset src dev' ok rule: less_induct)
  case less
  show ?case
  proof (cases "src = []")
    case True
    then show ?thesis using less.prems by auto
  next
    case False
    then have pos: "0 < length src" by simp
    define c where "c = min (length src) (unat (ucast (sectorSize dev) - offset :: u32))"
    note ca = chunk_arith [OF less.prems(2,4) pos less.prems(5) c_def]
    let ?a = "unat sector * ss + unat offset"
    obtain dev1 ok1 where wc: "write_chunk ops dev bufs sector (unat offset) (take c src) = (dev1, ok1)"
      by (cases "write_chunk ops dev bufs sector (unat offset) (take c src)")
    have len: "unat offset + length (take c src) \<le> ss" using ca(1,3) by simp
    note ok1 = write_chunk_ok [OF less.prems(2,3) ca(4) len wc]
    have "?a div ss = unat sector" using less.prems(4) by simp
    then have "unat sector \<in> T" using less.prems(6) pos by force
    note d1 = write_chunk_dirt [OF less.prems(1,3) ca(4) this wc]
    have loop: "write_loop ops dev bufs sector offset src = (case (dev1, ok1) of (dev', False) \<Rightarrow> (dev', False)
        | (dev', True) \<Rightarrow> (case buffers dev' of None \<Rightarrow> (dev', False)
          | Some bufs' \<Rightarrow> write_loop ops dev' bufs' (sector + 1) 0 (drop c src)))"
      using False ca(2) by (simp add: write_loop.simps [of ops dev bufs sector offset src] Let_def wc flip: c_def)
    show ?thesis
    proof (cases "ok1 \<and> c < length src")
      case False
      then show ?thesis using loop less.prems(7) d1 ca(1) by (auto split: bool.splits option.splits)
    next
      case True
      obtain bufs1 where b1: "buffers dev1 = Some bufs1"
        using same_shape_Some [of dev dev1] ok1 less.prems(3) by auto
      have w: "write_loop ops dev1 bufs1 (sector + 1) 0 (drop c src) = (dev', ok)"
        using loop less.prems(7) True b1 by simp
      have e: "unat (sector + 1) * ss = ?a + c" using ca(5,6) True by simp
      have "{?a + c..<?a + c + (length src - c)} \<subseteq> {?a..<?a + length src}" by auto
      then have "(\<lambda>k. k div ss) ` {?a + c..<?a + c + (length src - c)} \<subseteq> T" using less.prems(6) by blast
      moreover have "length (drop c src) < length src" using ca(2) pos by (simp only: length_drop diff_less)
      ultimately show ?thesis
        using less.hyps [of "drop c src" dev1 bufs1 0 "sector + 1" dev' ok] ok1 b1 less.prems(4) ca(2,7) True w d1 e
        by simp
    qed
  qed
qed

lemma bd_write_dirt:
  assumes "dirt_in T dev" "bd_ok media ss dev" "unat a + length src \<le> cache_limit ss"
    and "(\<lambda>k. k div ss) ` {unat a..<unat a + length src} \<subseteq> T" "bd_write ops dev a src = (dev', ok)"
  shows "dirt_in T dev'"
proof (cases "buffers dev")
  case None
  then show ?thesis using assms by (auto simp: bd_write_def split: if_splits prod.splits)
next
  case (Some bufs)
  have g: "geometry_ok ss dev" using assms(2) by (simp add: bd_ok_def)
  obtain sh where sh: "sh < 16" "unat (sectorSizeShift dev) = sh" "ss = 2 ^ sh"
    "unat (ucast (a AND (ucast (sectorSize dev) - 1) :: u64) :: u32) = unat a mod ss"
    "unat (drop_bit (unat (sectorSizeShift dev)) a) = unat a div ss"
    using geometryD [OF g, of a] by metis
  have wl: "write_loop ops dev bufs (drop_bit (unat (sectorSizeShift dev)) a)
      (ucast (a AND (ucast (sectorSize dev) - 1))) src = (dev', ok)"
    using assms(5) Some by (simp add: bd_write_def)
  show ?thesis
    by (rule write_loop_dirt [OF assms(1,2) Some _ _ _ wl, unfolded sh(4,5) div_mult_mod_eq])
      (use assms(3,4) geometry_pos [OF g] in simp_all)
qed

lemma dev_exec_dirt:
  assumes "dirt_in T dev" "bd_ok media ss dev" "size_bits_law L" "call_ok (cache_limit ss) c" "touched ss c \<subseteq> T"
    and "dev_exec L ops mem dev c = (dev', r)"
  shows "dirt_in T dev'"
proof (cases c)
  case (CallRead a n)
  then show ?thesis using assms(1,6) by (auto simp: apsnd_eq intro: bd_read_dirt)
next
  case (CallWrite a bs)
  then show ?thesis using assms by (auto simp: apsnd_eq call_ok_def intro: bd_write_dirt)
next
  case (CallErase a n)
  then show ?thesis using assms(1,6) by (auto simp: apsnd_eq intro: bd_erase_dirt)
next
  case CallSync
  then show ?thesis using assms(1,6) by (auto simp: apsnd_eq intro: bd_sync_dirt)
next
  case (CallBuffers n)
  have "\<exists>k < 32. n = 0 \<or> n = 2 ^ k" using assms(4) CallBuffers by (auto simp: call_ok_def intro: exI [of _ 0])
  then obtain k where k: "n = 0 \<or> n = 2 ^ k" "k < 32" by blast
  then show ?thesis using assms(1,3,6) CallBuffers allocateBuffers_dirt [OF assms(1) _ assms(3) k] by (auto simp: apsnd_eq)
qed

text \<open>A clean sector is on the medium.\<close>

lemma clean_view:
  assumes "bd_ok media ss dev" "dirt_in T dev" "s \<notin> T"
  shows "media (raw dev) s = bd_view media dev s"
proof (cases "buffers dev")
  case None
  then show ?thesis by (simp add: bd_view_def)
next
  case (Some bufs)
  then have c: "cache_ok (media (raw dev)) ss bufs" using assms(1) by (simp add: bd_ok_def)
  let ?b = "bufs ! (s mod length bufs)"
  have i: "s mod length bufs < length bufs" using cache_okD(1) [OF c] by simp
  then have e: "entry_ok (media (raw dev)) ss (length bufs) (s mod length bufs) ?b" using c by (simp add: cache_ok_def)
  have "bdirty ?b \<Longrightarrow> unat (bsector ?b) \<noteq> s" using dirt_inD(1) [OF assms(2) Some, of ?b] i assms(3) by auto
  then show ?thesis using e Some by (auto simp: bd_view_def view_def slot_view_def entry_ok_def split: if_splits)
qed

lemma dev_run_dirt:
  assumes "dev_run L ops dev tr dev'" "size_bits_law L" "bd_ok media ss dev" "\<And>x. x \<in> set tr \<Longrightarrow> call_ok (cache_limit ss) (fst x)"
    and "dirt_in T dev" "\<And>x. x \<in> set tr \<Longrightarrow> touched ss (fst x) \<subseteq> T"
  shows "dirt_in T dev'"
  using assms(1,3,4,5,6)
proof (induction rule: dev_run.induct)
  case (dev_cons mem dev c dev1 r tr dev')
  have c: "call_ok (cache_limit ss) c" "touched ss c \<subseteq> T" using dev_cons.prems(2,4) [of "(c, r)"] by simp_all
  note step = dev_exec_refines [OF dev_cons.prems(1) assms(2) c(1) dev_cons.hyps(1)]
    dev_exec_dirt [OF dev_cons.prems(3,1) assms(2) c dev_cons.hyps(1)]
  then show ?case using dev_cons.IH dev_cons.prems(2,4) by auto
qed simp

text \<open>After a successful \<^verbatim>\<open>sync\<close> nothing is dirty.\<close>

lemma synced_clean:
  assumes "bd_ok media ss dev" "bd_sync ops dev = (dev', True)"
  shows "dirt_in {} dev'"
proof -
  obtain dev1 where f: "flushBuffers ops dev = (dev1, True)" "buffers dev' = buffers dev1"
    using assms(2) by (auto simp: bd_sync_def split: prod.splits bool.splits)
  have ok: "bd_ok media ss dev1" using flushBuffers_ok [OF assms(1) f(1)] by simp
  have "\<not> bdirty b" if bs: "buffers dev1 = Some bufs" "b \<in> set bufs" for b bufs
  proof -
    obtain b0 where b0: "buffers dev = Some b0" using f(1) bs(1) by (cases "buffers dev") (auto simp: flushBuffers_def)
    then obtain d where fa: "flush_all ops (raw dev) b0 = (d, bufs, True)"
      using f(1) bs(1) by (auto simp: flushBuffers_def split: prod.splits)
    have "cache_ok (media (raw dev)) ss ([] @ b0)" using assms(1) b0 by (simp add: bd_ok_def)
    from flush_all_ok [OF this fa] show ?thesis using bs(2) by blast
  qed
  moreover have "\<exists>k < 32. length bufs = 2 ^ k" if "buffers dev1 = Some bufs" for bufs
    using ok that by (simp add: bd_ok_def cache_ok_def)
  ultimately show ?thesis using f(2) by (auto simp: dirt_in_def)
qed

lemma synced_survives:
  assumes "bd_ok media ss dev" "size_bits_law L" "bd_sync ops dev = (dev1, True)" "dev_run L ops dev1 tr dev'"
    and "\<And>x. x \<in> set tr \<Longrightarrow> call_ok (cache_limit ss) (fst x)" "\<And>x. x \<in> set tr \<Longrightarrow> k div ss \<notin> touched ss (fst x)"
  shows "content ss (media (raw dev')) k = bd_content media ss dev k"
proof -
  note s = bd_sync_ok [OF assms(1,3)]
  then have ok1: "bd_ok media ss dev1" and c1: "bd_content media ss dev1 = bd_content media ss dev" by (simp_all add: bd_content_def)
  let ?T = "\<Union>x \<in> set tr. touched ss (fst x)"
  note run = dev_run_refines [OF assms(4,2) ok1 assms(5)]
  have "dirt_in ?T dev'"
    by (rule dev_run_dirt [OF assms(4,2) ok1 assms(5) dirt_in_mono [OF synced_clean [OF assms(1,3)]]]) auto
  moreover have "k div ss \<notin> ?T" using assms(6) by auto
  ultimately have "media (raw dev') (k div ss) = bd_view media dev' (k div ss)" using clean_view run by blast
  then have "content ss (media (raw dev')) k = bd_content media ss dev' k" by (simp add: content_def bd_content_def)
  also have "\<dots> = bd_content media ss dev1 k" by (rule array_run_frame [OF conjunct2 [OF run] assms(6)])
  finally show ?thesis by (simp add: c1)
qed

end

section \<open>Properties\<close>


lemma sparse_run_write:
  "\<exists>dev'. bd_write sparse_ops (sparse_dev 1048576) 5 [1, 2, 3] = (dev', True) \<and> ready sparse_media 512 dev' \<and>
     bd_content sparse_media 512 dev' = overwrite 5 [1, 2, 3] (\<lambda>_. 0)"
proof -
  obtain dev' where w: "bd_write sparse_ops (sparse_dev 1048576) 5 [1, 2, 3] = (dev', True)" "ready sparse_media 512 dev'"
    using ready_write [OF sparse_media sparse_reliable sparse_ready, of 5 "[1, 2, 3]"] by (auto simp: cache_limit_def)
  have "bd_content sparse_media 512 (sparse_dev 1048576) = (\<lambda>_. 0)" by (rule ext) (rule sparse_dev(4))
  then show ?thesis
    using w raw_media.bd_write_ok [OF sparse_media sparse_dev(1) _ w(1)] by (simp add: cache_limit_def)
qed


text \<open>C2: What a successful \<^verbatim>\<open>sync\<close> has put on the medium stays there: after any further calls, failed ones included,
  the medium still holds the bytes of all sectors that no later write or erasure addressed, whatever
  happens to the buffers then.\<close>

theorem device_synced_survives:
  assumes "raw_media ops ss media" "bd_ok media ss dev" "size_bits_law L" "bd_sync ops dev = (dev1, True)"
    and "dev_run L ops dev1 tr dev'" "\<forall>x \<in> set tr. call_ok (cache_limit ss) (fst x)"
    and "\<forall>x \<in> set tr. k div ss \<notin> touched ss (fst x)"
  shows "content ss (media (raw dev')) k = bd_content media ss dev k"
  using raw_media.synced_survives [OF assms(1-5)] assms(6,7) by blast

theorem device_synced_survives_witness:
  "\<exists>dev dev1 dev'. bd_write sparse_ops (sparse_dev 1048576) 5 [1, 2, 3] = (dev, True) \<and> bd_sync sparse_ops dev = (dev1, True) \<and>
     dev_run sming_ref sparse_ops dev1 [(CallWrite 600 [4], Done True)] dev' \<and> content 512 (sparse_media (raw dev')) 6 = 2"
proof -
  obtain dev where w: "bd_write sparse_ops (sparse_dev 1048576) 5 [1, 2, 3] = (dev, True)" "ready sparse_media 512 dev"
    "bd_content sparse_media 512 dev = overwrite 5 [1, 2, 3] (\<lambda>_. 0)" using sparse_run_write by blast
  obtain dev1 where s: "bd_sync sparse_ops dev = (dev1, True)" "ready sparse_media 512 dev1"
    using ready_sync [OF sparse_media sparse_reliable w(2)] by blast
  obtain dev' where w2: "bd_write sparse_ops dev1 600 [4] = (dev', True)"
    using ready_write [OF sparse_media sparse_reliable s(2), of 600 "[4]"] by (auto simp: cache_limit_def)
  have run: "dev_run sming_ref sparse_ops dev1 [(CallWrite 600 [4], Done True)] dev'"
    by (rule dev_cons [of _ _ "\<lambda>_. []", OF _ dev_nil]) (simp add: w2)
  have ok: "bd_ok sparse_media 512 dev" using w(2) by (simp add: ready_def)
  have "content 512 (sparse_media (raw dev')) 6 = bd_content sparse_media 512 dev 6"
    by (rule device_synced_survives [OF sparse_media ok sming_ref_laws(1) s(1) run]) (auto simp: call_ok_def cache_limit_def)
  then show ?thesis using w s run by (fastforce simp: overwrite_def)
qed

end
