(* ===== verification/HostDisk.thy ===== *)
theory HostDisk
  imports TestTables DeviceRun
begin

text \<open>
  The host file device and the partitioning code together: what is in the file after the device object is gone,
  and what a new device object on the same file makes of it.
\<close>

text \<open>C3: A host file device can be closed and opened again: whatever was called after the last successful \<^verbatim>\<open>sync\<close>,
  the new device has the content of that moment in all sectors that no later write or erasure addressed. The
  destructor does not flush, so nothing more can be promised of the others.\<close>

theorem hostfile_synced_reopens:
  assumes "posix_store P fbytes fpos fname" "size_bits_law L" "sh < 16" "dss = 2 ^ sh"
    and "bd_ok (file_media fbytes sh) (2 ^ sh) (hf_dev hf)" "bd_sync (hostfile_ops P sh) (hf_dev hf) = (dev1, True)"
    and "dev_run L (hostfile_ops P sh) dev1 tr dev2" "\<forall>x \<in> set tr. call_ok (cache_limit (2 ^ sh)) (fst x)"
    and "hostfile_existing P L dss mem name fname (hostfile_destroy P (hf\<lparr>hf_dev := dev2\<rparr>)) = hf'" "hf_open hf'"
  shows "bd_ok (file_media fbytes sh) (2 ^ sh) (hf_dev hf') \<and> map_option length (buffers (hf_dev hf')) = Some 4 \<and>
    (\<forall>k. (\<forall>x \<in> set tr. k div 2 ^ sh \<notin> touched (2 ^ sh) (fst x)) \<longrightarrow>
      bd_content (file_media fbytes sh) (2 ^ sh) (hf_dev hf') k = bd_content (file_media fbytes sh) (2 ^ sh) (hf_dev hf) k)"
proof -
  have pf: "posix_file P fbytes fpos" using assms(1) by (simp add: posix_store_def)
  have rm: "raw_media (hostfile_ops P sh) (2 ^ sh) (file_media fbytes sh)" by (rule posix_file.hostfile_media [OF pf assms(3)])
  have "content (2 ^ sh) (file_media fbytes sh (raw (hf_dev (hf\<lparr>hf_dev := dev2\<rparr>)))) = fbytes (raw dev2)"
    by (simp add: content_file_media)
  note re = reopened_device [OF assms(1-4) this assms(9,10)]
  have "fbytes (raw dev2) k = bd_content (file_media fbytes sh) (2 ^ sh) (hf_dev hf) k"
    if "\<forall>x \<in> set tr. k div 2 ^ sh \<notin> touched (2 ^ sh) (fst x)" for k
    using raw_media.synced_survives [OF rm assms(5,2,6,7), of k] assms(8) that by (simp add: content_file_media)
  then show ?thesis using re by simp
qed

lemma sparse_existing_open: "hf_open (hostfile_existing sparse_posix L dss mem name fname d)"
  by (simp add: hostfile_existing_def sparse_posix_def)

definition demo_reopen :: "sparse_os block_device \<Rightarrow> sparse_os host_file" where
  "demo_reopen dev = hostfile_existing sparse_posix sming_ref 512 (\<lambda>_. []) ''demo'' ''demo.img''
     (hostfile_destroy sparse_posix \<lparr>hf_name = ''demo'', hf_open = True, hf_dev = dev\<rparr>)"

lemma demo_reopen_of:
  "hostfile_existing sparse_posix sming_ref 512 (\<lambda>_. []) ''demo'' ''demo.img''
      (hostfile_destroy sparse_posix (\<lparr>hf_name = ''demo'', hf_open = True, hf_dev = dev0\<rparr>\<lparr>hf_dev := dev\<rparr>)) = demo_reopen dev"
  by (simp add: demo_reopen_def)

lemma demo_reopen_open: "hf_open (demo_reopen dev)"
  by (simp add: demo_reopen_def sparse_existing_open)

theorem hostfile_synced_reopens_witness:
  "\<exists>dev dev1 dev2. bd_write sparse_ops (sparse_dev 1048576) 5 [1, 2, 3] = (dev, True) \<and> bd_sync sparse_ops dev = (dev1, True) \<and>
     bd_write sparse_ops dev1 600 [4] = (dev2, True) \<and> bd_content sparse_media 512 (hf_dev (demo_reopen dev2)) 6 = 2"
proof -
  obtain dev where w: "bd_write sparse_ops (sparse_dev 1048576) 5 [1, 2, 3] = (dev, True)" "ready sparse_media 512 dev"
    "bd_content sparse_media 512 dev = overwrite 5 [1, 2, 3] (\<lambda>_. 0)" using sparse_run_write by blast
  obtain dev1 where s: "bd_sync sparse_ops dev = (dev1, True)" "ready sparse_media 512 dev1"
    using ready_sync [OF sparse_media sparse_reliable w(2)] by blast
  obtain dev2 where w2: "bd_write sparse_ops dev1 600 [4] = (dev2, True)"
    using ready_write [OF sparse_media sparse_reliable s(2), of 600 "[4]"] by (auto simp: cache_limit_def)
  have run: "dev_run sming_ref sparse_ops dev1 [(CallWrite 600 [4], Done True)] dev2"
    by (rule dev_cons [of _ _ "\<lambda>_. []", OF _ dev_nil]) (simp add: w2)
  have ok: "bd_ok sparse_media 512 dev" using w(2) by (simp add: ready_def)
  have "\<forall>k. (\<forall>x \<in> {(CallWrite 600 [4], Done True)}. k div 512 \<notin> touched 512 (fst x)) \<longrightarrow>
      bd_content sparse_media 512 (hf_dev (demo_reopen dev2)) k = bd_content sparse_media 512 dev k"
    using hostfile_synced_reopens [of sparse_posix so_bytes so_pos "''demo.img''" sming_ref 9 512
        "\<lparr>hf_name = ''demo'', hf_open = True, hf_dev = dev\<rparr>" dev1 "[(CallWrite 600 [4], Done True)]" dev2 "\<lambda>_. []" "''demo''"
        "demo_reopen dev2", OF sparse_store.posix_store_axioms sming_ref_laws(1)] ok s(1) run
    by (simp add: sparse_ops_def sparse_media_def demo_reopen_def sparse_existing_open call_ok_def cache_limit_def)
  then have "bd_content sparse_media 512 (hf_dev (demo_reopen dev2)) 6 = bd_content sparse_media 512 dev 6"
    by (elim allE [of _ 6] impE) auto
  then show ?thesis using w s w2 by (fastforce simp: overwrite_def)
qed

text \<open>The new device over the file of a synchronised one.\<close>

lemma reopened_synced:
  assumes "posix_store P fbytes fpos fname" "size_bits_law L"
    and "content 512 (file_media fbytes 9 (raw dev)) = bd_content (file_media fbytes 9) 512 dev"
    and "hostfile_existing P L 512 mem name fname (hostfile_destroy P (hf\<lparr>hf_dev := dev\<rparr>)) = hf'" "hf_open hf'"
  shows "ready (file_media fbytes 9) 512 (hf_dev hf')"
    "bd_content (file_media fbytes 9) 512 (hf_dev hf') = bd_content (file_media fbytes 9) 512 dev"
proof -
  have "content (2 ^ 9) (file_media fbytes 9 (raw (hf_dev (hf\<lparr>hf_dev := dev\<rparr>)))) = bd_content (file_media fbytes 9) 512 dev"
    using assms(3) by simp
  note re = reopened_device [OF assms(1,2) _ _ this assms(4,5), simplified]
  show "ready (file_media fbytes 9) 512 (hf_dev hf')" using re(1,2) by (auto simp: ready_def)
  show "bd_content (file_media fbytes 9) 512 (hf_dev hf') = bd_content (file_media fbytes 9) 512 dev" using re(3) by auto
qed



text \<open>The same for a disk with an MBR.\<close>

lemma mbr_survives_reopen:
  assumes "posix_store P fbytes fpos fname" "reliable (hostfile_ops P 9)"
    and "size_bits_law L" "fulltype_law L" "ready (file_media fbytes 9) 512 (hf_dev hf)"
    and "formatDisk_mbr L (hostfile_ops P 9) mem (hf_dev hf) pt table = Some (Ret ((dev', pt', table'), Success))"
    and "\<forall>p \<in> set pt'. mbr_findable L (bd_content (file_media fbytes 9) 512 (hf_dev hf)) p" "sysind (hd pt') \<noteq> EFI_PMBR_OSTYPE_EFI_GPT"
    and "hostfile_existing P L 512 bmem name fname (hostfile_destroy P (hf\<lparr>hf_dev := dev'\<rparr>)) = hf'" "hf_open hf'"
  shows "\<exists>dev''. scanPartitions L (bd_read (hostfile_ops P 9)) (Some w1) m2 fresh (hf_dev hf')
    = Some (Ret (dev'', map (\<lambda>(i, p). mbr_rescanned L (bd_content (file_media fbytes 9) 512 (hf_dev hf)) i p) (enumerate 1 pt'), True))"
proof -
  have pf: "posix_file P fbytes fpos" using assms(1) by (simp add: posix_store_def)
  have rm: "raw_media (hostfile_ops P 9) 512 (file_media fbytes 9)" using posix_file.hostfile_media [OF pf, of 9] by simp
  have lim: "2 ^ 32 \<le> cache_limit 512" by (simp add: cache_limit_def)
  note fm = mbr_formatted_disk [OF rm assms(2,5,3,4) lim assms(6-8)]
  note re = reopened_synced [OF assms(1,3) fm(2) assms(9,10)]
  from scan_mbr_content [OF rm assms(2) re(1) assms(3) lim, of _ _ w1 m2 fresh] fm(3,4) show ?thesis unfolding re(2) by blast
qed

text \<open>The test \<^verbatim>\<open>Create MBR\<close> with \<^verbatim>\<open>Open MBR\<close>: four partitions, numbered, in the order of the table.\<close>

lemma test_mbr_reopened:
  "\<exists>dev' dev''. formatDisk_mbr sming_ref sparse_ops (Some []) (sparse_dev 104857600) [] test_mbr_table
      = Some (Ret ((dev', test_mbr_placed, []), Success)) \<and>
    scanPartitions sming_ref (bd_read sparse_ops) (Some []) None [] (hf_dev (demo_reopen dev'))
      = Some (Ret (dev'', map (\<lambda>(i, p). mbr_rescanned sming_ref (\<lambda>_. 0) i p) (enumerate 1 test_mbr_placed), True))"
proof -
  obtain dev' where f: "formatDisk_mbr sming_ref sparse_ops (Some []) (sparse_dev 104857600) [] test_mbr_table
      = Some (Ret ((dev', test_mbr_placed, []), Success))" using test_mbr_format by blast
  let ?hf = "\<lparr>hf_name = ''demo'', hf_open = True, hf_dev = sparse_dev 104857600\<rparr>"
  have c: "bd_content sparse_media 512 (sparse_dev 104857600) = (\<lambda>_. 0)" by (rule ext) (rule sparse_dev(4))
  have r: "ready (file_media so_bytes 9) 512 (hf_dev ?hf)" using sparse_ready by (simp add: sparse_media_def)
  have f': "formatDisk_mbr sming_ref (hostfile_ops sparse_posix 9) (Some []) (hf_dev ?hf) [] test_mbr_table
      = Some (Ret ((dev', test_mbr_placed, []), Success))" using f by (simp add: sparse_ops_def)
  have fnd: "\<forall>p \<in> set test_mbr_placed. mbr_findable sming_ref (bd_content (file_media so_bytes 9) 512 (hf_dev ?hf)) p"
    using test_mbr_findable by (simp add: c flip: sparse_media_def)
  from mbr_survives_reopen [OF sparse_store.posix_store_axioms sparse_reliable [unfolded sparse_ops_def] sming_ref_laws(1,4) r f'
      fnd test_mbr_first demo_reopen_of demo_reopen_open, of "[]" None "[]"]
  show ?thesis using f c by (auto simp: sparse_ops_def sparse_media_def)
qed

end
