(* ===== verification/FsStructs.thy ===== *)
theory FsStructs
  imports DiskLayout
begin

text \<open>
  The remaining structures of \<^verbatim>\<open>linux/msdos_fs.h\<close> and \<^verbatim>\<open>linux/exfat_raw.h\<close>: the members of the FAT boot sector's union,
  the FSINFO sector, FAT directory entries and exFAT directory entries.
\<close>

interpretation u32s: packed_struct "le_bytes 4" "u32_at 0" "\<lambda>_. True" 4
  by unfold_locales (auto simp: layout_simps seg_def)

lemma take_seg: "take n bs = seg 0 n bs"
  by (simp add: seg_def)

lemmas struct_simps = layout_simps seg_join seg_join_assoc take_seg u16s.length_enc_array u16s.dec_enc_array u16s.enc_dec_array
  u32s.length_enc_array u32s.dec_enc_array u32s.enc_dec_array

text \<open>FAT16 extended BPB (the union member \<^verbatim>\<open>fat16\<close>).\<close>

record fat16_bpb =
  f16_drive_number :: u8
  f16_state :: u8
  f16_signature :: u8
  f16_vol_id :: u32
  f16_vol_label :: "u8 list"
  f16_fs_type :: u64

definition fat16_bpb_bytes :: "fat16_bpb \<Rightarrow> u8 list" where
  "fat16_bpb_bytes r =
     u8_bytes (f16_drive_number r) @ u8_bytes (f16_state r) @ u8_bytes (f16_signature r) @
     le_bytes 4 (f16_vol_id r) @ f16_vol_label r @ le_bytes 8 (f16_fs_type r)"

definition fat16_bpb_of_bytes :: "u8 list \<Rightarrow> fat16_bpb" where
  "fat16_bpb_of_bytes bs =
     \<lparr>f16_drive_number = u8_at 0 bs, f16_state = u8_at 1 bs, f16_signature = u8_at 2 bs, f16_vol_id = u32_at 3 bs,
      f16_vol_label = seg 7 11 bs, f16_fs_type = u64_at 18 bs\<rparr>"

definition fat16_bpb_wf :: "fat16_bpb \<Rightarrow> bool" where
  "fat16_bpb_wf r \<longleftrightarrow> length (f16_vol_label r) = 11"

interpretation fat16_bpb: packed_struct fat16_bpb_bytes fat16_bpb_of_bytes fat16_bpb_wf 26
  by unfold_locales (simp_all add: fat16_bpb_wf_def fat16_bpb_bytes_def fat16_bpb_of_bytes_def struct_simps flip: seg_def)

text \<open>FAT32 extended BPB (the union member \<^verbatim>\<open>fat32\<close>).\<close>

record fat32_bpb =
  f32_fat_length :: u32
  f32_flags :: u16
  f32_version :: u16
  f32_root_cluster :: u32
  f32_info_sector :: u16
  f32_backup_boot :: u16
  f32_reserved2 :: "u16 list"
  f32_drive_number :: u8
  f32_state :: u8
  f32_signature :: u8
  f32_vol_id :: u32
  f32_vol_label :: "u8 list"
  f32_fs_type :: u64

definition fat32_bpb_bytes :: "fat32_bpb \<Rightarrow> u8 list" where
  "fat32_bpb_bytes r =
     le_bytes 4 (f32_fat_length r) @ le_bytes 2 (f32_flags r) @ le_bytes 2 (f32_version r) @
     le_bytes 4 (f32_root_cluster r) @ le_bytes 2 (f32_info_sector r) @ le_bytes 2 (f32_backup_boot r) @
     enc_array (le_bytes 2) (f32_reserved2 r) @ u8_bytes (f32_drive_number r) @ u8_bytes (f32_state r) @
     u8_bytes (f32_signature r) @ le_bytes 4 (f32_vol_id r) @ f32_vol_label r @ le_bytes 8 (f32_fs_type r)"

definition fat32_bpb_of_bytes :: "u8 list \<Rightarrow> fat32_bpb" where
  "fat32_bpb_of_bytes bs =
     \<lparr>f32_fat_length = u32_at 0 bs, f32_flags = u16_at 4 bs, f32_version = u16_at 6 bs,
      f32_root_cluster = u32_at 8 bs, f32_info_sector = u16_at 12 bs, f32_backup_boot = u16_at 14 bs,
      f32_reserved2 = dec_array (u16_at 0) 2 6 (drop 16 bs), f32_drive_number = u8_at 28 bs, f32_state = u8_at 29 bs,
      f32_signature = u8_at 30 bs, f32_vol_id = u32_at 31 bs, f32_vol_label = seg 35 11 bs,
      f32_fs_type = u64_at 46 bs\<rparr>"

definition fat32_bpb_wf :: "fat32_bpb \<Rightarrow> bool" where
  "fat32_bpb_wf r \<longleftrightarrow> length (f32_reserved2 r) = 6 \<and> length (f32_vol_label r) = 11"

interpretation fat32_bpb: packed_struct fat32_bpb_bytes fat32_bpb_of_bytes fat32_bpb_wf 54
  by unfold_locales (simp_all add: fat32_bpb_wf_def fat32_bpb_bytes_def fat32_bpb_of_bytes_def struct_simps flip: seg_def)

text \<open>\<^verbatim>\<open>fat_boot_fsinfo_t\<close>.\<close>

record fat_fsinfo =
  fsi_signature1 :: u32
  fsi_reserved1 :: "u32 list"
  fsi_signature2 :: u32
  free_clusters :: u32
  next_cluster :: u32
  fsi_reserved2 :: "u16 list"
  fsi_signature :: u16

definition fat_fsinfo_bytes :: "fat_fsinfo \<Rightarrow> u8 list" where
  "fat_fsinfo_bytes r =
     le_bytes 4 (fsi_signature1 r) @ enc_array (le_bytes 4) (fsi_reserved1 r) @ le_bytes 4 (fsi_signature2 r) @
     le_bytes 4 (free_clusters r) @ le_bytes 4 (next_cluster r) @ enc_array (le_bytes 2) (fsi_reserved2 r) @
     le_bytes 2 (fsi_signature r)"

definition fat_fsinfo_of_bytes :: "u8 list \<Rightarrow> fat_fsinfo" where
  "fat_fsinfo_of_bytes bs =
     \<lparr>fsi_signature1 = u32_at 0 bs, fsi_reserved1 = dec_array (u32_at 0) 4 120 (drop 4 bs),
      fsi_signature2 = u32_at 484 bs, free_clusters = u32_at 488 bs, next_cluster = u32_at 492 bs,
      fsi_reserved2 = dec_array (u16_at 0) 2 7 (drop 496 bs), fsi_signature = u16_at 510 bs\<rparr>"

definition fat_fsinfo_wf :: "fat_fsinfo \<Rightarrow> bool" where
  "fat_fsinfo_wf r \<longleftrightarrow> length (fsi_reserved1 r) = 120 \<and> length (fsi_reserved2 r) = 7"

interpretation fat_fsinfo: packed_struct fat_fsinfo_bytes fat_fsinfo_of_bytes fat_fsinfo_wf 512
  by unfold_locales (simp_all add: fat_fsinfo_wf_def fat_fsinfo_bytes_def fat_fsinfo_of_bytes_def struct_simps flip: seg_def)

text \<open>\<^verbatim>\<open>msdos_dir_entry_t\<close>.\<close>

record msdos_dir_entry =
  de_name :: "u8 list"
  de_attr :: u8
  de_lcase :: u8
  de_ctime_cs :: u8
  de_ctime :: u16
  de_cdate :: u16
  de_adate :: u16
  de_starthi :: u16
  de_time :: u16
  de_date :: u16
  de_start :: u16
  de_size :: u32

definition msdos_dir_entry_bytes :: "msdos_dir_entry \<Rightarrow> u8 list" where
  "msdos_dir_entry_bytes r =
     de_name r @ u8_bytes (de_attr r) @ u8_bytes (de_lcase r) @ u8_bytes (de_ctime_cs r) @ le_bytes 2 (de_ctime r) @
     le_bytes 2 (de_cdate r) @ le_bytes 2 (de_adate r) @ le_bytes 2 (de_starthi r) @ le_bytes 2 (de_time r) @
     le_bytes 2 (de_date r) @ le_bytes 2 (de_start r) @ le_bytes 4 (de_size r)"

definition msdos_dir_entry_of_bytes :: "u8 list \<Rightarrow> msdos_dir_entry" where
  "msdos_dir_entry_of_bytes bs =
     \<lparr>de_name = seg 0 11 bs, de_attr = u8_at 11 bs, de_lcase = u8_at 12 bs, de_ctime_cs = u8_at 13 bs,
      de_ctime = u16_at 14 bs, de_cdate = u16_at 16 bs, de_adate = u16_at 18 bs, de_starthi = u16_at 20 bs,
      de_time = u16_at 22 bs, de_date = u16_at 24 bs, de_start = u16_at 26 bs, de_size = u32_at 28 bs\<rparr>"

definition msdos_dir_entry_wf :: "msdos_dir_entry \<Rightarrow> bool" where
  "msdos_dir_entry_wf r \<longleftrightarrow> length (de_name r) = 11"

interpretation msdos_dir_entry: packed_struct msdos_dir_entry_bytes msdos_dir_entry_of_bytes msdos_dir_entry_wf 32
  by unfold_locales (simp_all add: msdos_dir_entry_wf_def msdos_dir_entry_bytes_def msdos_dir_entry_of_bytes_def struct_simps flip: seg_def)

text \<open>\<^verbatim>\<open>msdos_dir_slot_t\<close>.\<close>

record msdos_dir_slot =
  ds_id :: u8
  ds_name0_4 :: "u8 list"
  ds_attr :: u8
  ds_reserved :: u8
  alias_checksum :: u8
  ds_name5_10 :: "u8 list"
  ds_start :: u16
  ds_name11_12 :: "u8 list"

definition msdos_dir_slot_bytes :: "msdos_dir_slot \<Rightarrow> u8 list" where
  "msdos_dir_slot_bytes r =
     u8_bytes (ds_id r) @ ds_name0_4 r @ u8_bytes (ds_attr r) @ u8_bytes (ds_reserved r) @
     u8_bytes (alias_checksum r) @ ds_name5_10 r @ le_bytes 2 (ds_start r) @ ds_name11_12 r"

definition msdos_dir_slot_of_bytes :: "u8 list \<Rightarrow> msdos_dir_slot" where
  "msdos_dir_slot_of_bytes bs =
     \<lparr>ds_id = u8_at 0 bs, ds_name0_4 = seg 1 10 bs, ds_attr = u8_at 11 bs, ds_reserved = u8_at 12 bs,
      alias_checksum = u8_at 13 bs, ds_name5_10 = seg 14 12 bs, ds_start = u16_at 26 bs, ds_name11_12 = seg 28 4 bs\<rparr>"

definition msdos_dir_slot_wf :: "msdos_dir_slot \<Rightarrow> bool" where
  "msdos_dir_slot_wf r \<longleftrightarrow> length (ds_name0_4 r) = 10 \<and> length (ds_name5_10 r) = 12 \<and> length (ds_name11_12 r) = 4"

interpretation msdos_dir_slot: packed_struct msdos_dir_slot_bytes msdos_dir_slot_of_bytes msdos_dir_slot_wf 32
  by unfold_locales (simp_all add: msdos_dir_slot_wf_def msdos_dir_slot_bytes_def msdos_dir_slot_of_bytes_def struct_simps flip: seg_def)

text \<open>\<^verbatim>\<open>exfat_dentry_t\<close>: a type, and 31 bytes that are read through one of the views below.\<close>

record exfat_dentry =
  dentry_type :: u8
  dentry_union :: "u8 list"

definition exfat_dentry_bytes :: "exfat_dentry \<Rightarrow> u8 list" where
  "exfat_dentry_bytes r =
     u8_bytes (dentry_type r) @ dentry_union r"

definition exfat_dentry_of_bytes :: "u8 list \<Rightarrow> exfat_dentry" where
  "exfat_dentry_of_bytes bs =
     \<lparr>dentry_type = u8_at 0 bs, dentry_union = seg 1 31 bs\<rparr>"

definition exfat_dentry_wf :: "exfat_dentry \<Rightarrow> bool" where
  "exfat_dentry_wf r \<longleftrightarrow> length (dentry_union r) = 31"

interpretation exfat_dentry: packed_struct exfat_dentry_bytes exfat_dentry_of_bytes exfat_dentry_wf 32
  by unfold_locales (simp_all add: exfat_dentry_wf_def exfat_dentry_bytes_def exfat_dentry_of_bytes_def struct_simps flip: seg_def)

text \<open>The views of the union of an exFAT directory entry, each from its first byte.\<close>

record exfat_volume_label =
  xv_num_chars :: u8
  xv_label :: "u16 list"
  xv_reserved :: u8

definition exfat_volume_label_bytes :: "exfat_volume_label \<Rightarrow> u8 list" where
  "exfat_volume_label_bytes r =
     u8_bytes (xv_num_chars r) @ enc_array (le_bytes 2) (xv_label r) @ u8_bytes (xv_reserved r)"

definition exfat_volume_label_of_bytes :: "u8 list \<Rightarrow> exfat_volume_label" where
  "exfat_volume_label_of_bytes bs =
     \<lparr>xv_num_chars = u8_at 0 bs, xv_label = dec_array (u16_at 0) 2 11 (drop 1 bs), xv_reserved = u8_at 23 bs\<rparr>"

definition exfat_volume_label_wf :: "exfat_volume_label \<Rightarrow> bool" where
  "exfat_volume_label_wf r \<longleftrightarrow> length (xv_label r) = 11"

interpretation exfat_volume_label: packed_struct exfat_volume_label_bytes exfat_volume_label_of_bytes exfat_volume_label_wf 24
  by unfold_locales (simp_all add: exfat_volume_label_wf_def exfat_volume_label_bytes_def exfat_volume_label_of_bytes_def struct_simps flip: seg_def)

record exfat_file =
  xf_num_ext :: u8
  xf_checksum :: u16
  xf_attr :: u16
  xf_reserved1 :: u16
  xf_create_time :: u16
  xf_create_date :: u16
  xf_modify_time :: u16
  xf_modify_date :: u16
  xf_access_time :: u16
  xf_access_date :: u16
  xf_create_time_cs :: u8
  xf_modify_time_cs :: u8
  xf_create_tz :: u8
  xf_modify_tz :: u8
  xf_access_tz :: u8
  xf_reserved2 :: "u8 list"

definition exfat_file_bytes :: "exfat_file \<Rightarrow> u8 list" where
  "exfat_file_bytes r =
     u8_bytes (xf_num_ext r) @ le_bytes 2 (xf_checksum r) @ le_bytes 2 (xf_attr r) @ le_bytes 2 (xf_reserved1 r) @
     le_bytes 2 (xf_create_time r) @ le_bytes 2 (xf_create_date r) @ le_bytes 2 (xf_modify_time r) @
     le_bytes 2 (xf_modify_date r) @ le_bytes 2 (xf_access_time r) @ le_bytes 2 (xf_access_date r) @
     u8_bytes (xf_create_time_cs r) @ u8_bytes (xf_modify_time_cs r) @ u8_bytes (xf_create_tz r) @
     u8_bytes (xf_modify_tz r) @ u8_bytes (xf_access_tz r) @ xf_reserved2 r"

definition exfat_file_of_bytes :: "u8 list \<Rightarrow> exfat_file" where
  "exfat_file_of_bytes bs =
     \<lparr>xf_num_ext = u8_at 0 bs, xf_checksum = u16_at 1 bs, xf_attr = u16_at 3 bs, xf_reserved1 = u16_at 5 bs,
      xf_create_time = u16_at 7 bs, xf_create_date = u16_at 9 bs, xf_modify_time = u16_at 11 bs,
      xf_modify_date = u16_at 13 bs, xf_access_time = u16_at 15 bs, xf_access_date = u16_at 17 bs,
      xf_create_time_cs = u8_at 19 bs, xf_modify_time_cs = u8_at 20 bs, xf_create_tz = u8_at 21 bs,
      xf_modify_tz = u8_at 22 bs, xf_access_tz = u8_at 23 bs, xf_reserved2 = seg 24 7 bs\<rparr>"

definition exfat_file_wf :: "exfat_file \<Rightarrow> bool" where
  "exfat_file_wf r \<longleftrightarrow> length (xf_reserved2 r) = 7"

interpretation exfat_file: packed_struct exfat_file_bytes exfat_file_of_bytes exfat_file_wf 31
  by unfold_locales (simp_all add: exfat_file_wf_def exfat_file_bytes_def exfat_file_of_bytes_def struct_simps flip: seg_def)

record exfat_stream =
  xs_flags :: u8
  xs_reserved1 :: u8
  xs_name_len :: u8
  xs_name_hash :: u16
  xs_reserved2 :: u16
  xs_valid_size :: u64
  xs_reserved3 :: u32
  xs_start_clu :: u32
  xs_size :: u64

definition exfat_stream_bytes :: "exfat_stream \<Rightarrow> u8 list" where
  "exfat_stream_bytes r =
     u8_bytes (xs_flags r) @ u8_bytes (xs_reserved1 r) @ u8_bytes (xs_name_len r) @ le_bytes 2 (xs_name_hash r) @
     le_bytes 2 (xs_reserved2 r) @ le_bytes 8 (xs_valid_size r) @ le_bytes 4 (xs_reserved3 r) @
     le_bytes 4 (xs_start_clu r) @ le_bytes 8 (xs_size r)"

definition exfat_stream_of_bytes :: "u8 list \<Rightarrow> exfat_stream" where
  "exfat_stream_of_bytes bs =
     \<lparr>xs_flags = u8_at 0 bs, xs_reserved1 = u8_at 1 bs, xs_name_len = u8_at 2 bs, xs_name_hash = u16_at 3 bs,
      xs_reserved2 = u16_at 5 bs, xs_valid_size = u64_at 7 bs, xs_reserved3 = u32_at 15 bs,
      xs_start_clu = u32_at 19 bs, xs_size = u64_at 23 bs\<rparr>"

definition exfat_stream_wf :: "exfat_stream \<Rightarrow> bool" where
  "exfat_stream_wf r \<longleftrightarrow> True"

interpretation exfat_stream: packed_struct exfat_stream_bytes exfat_stream_of_bytes exfat_stream_wf 31
  by unfold_locales (simp_all add: exfat_stream_wf_def exfat_stream_bytes_def exfat_stream_of_bytes_def struct_simps flip: seg_def)

record exfat_name =
  xn_flags :: u8
  unicode_0_14 :: "u16 list"

definition exfat_name_bytes :: "exfat_name \<Rightarrow> u8 list" where
  "exfat_name_bytes r =
     u8_bytes (xn_flags r) @ enc_array (le_bytes 2) (unicode_0_14 r)"

definition exfat_name_of_bytes :: "u8 list \<Rightarrow> exfat_name" where
  "exfat_name_of_bytes bs =
     \<lparr>xn_flags = u8_at 0 bs, unicode_0_14 = dec_array (u16_at 0) 2 15 (drop 1 bs)\<rparr>"

definition exfat_name_wf :: "exfat_name \<Rightarrow> bool" where
  "exfat_name_wf r \<longleftrightarrow> length (unicode_0_14 r) = 15"

interpretation exfat_name: packed_struct exfat_name_bytes exfat_name_of_bytes exfat_name_wf 31
  by unfold_locales (simp_all add: exfat_name_wf_def exfat_name_bytes_def exfat_name_of_bytes_def struct_simps flip: seg_def)

record exfat_bitmap =
  xb_flags :: u8
  xb_reserved :: "u8 list"
  xb_start_clu :: u32
  xb_size :: u64

definition exfat_bitmap_bytes :: "exfat_bitmap \<Rightarrow> u8 list" where
  "exfat_bitmap_bytes r =
     u8_bytes (xb_flags r) @ xb_reserved r @ le_bytes 4 (xb_start_clu r) @ le_bytes 8 (xb_size r)"

definition exfat_bitmap_of_bytes :: "u8 list \<Rightarrow> exfat_bitmap" where
  "exfat_bitmap_of_bytes bs =
     \<lparr>xb_flags = u8_at 0 bs, xb_reserved = seg 1 18 bs, xb_start_clu = u32_at 19 bs, xb_size = u64_at 23 bs\<rparr>"

definition exfat_bitmap_wf :: "exfat_bitmap \<Rightarrow> bool" where
  "exfat_bitmap_wf r \<longleftrightarrow> length (xb_reserved r) = 18"

interpretation exfat_bitmap: packed_struct exfat_bitmap_bytes exfat_bitmap_of_bytes exfat_bitmap_wf 31
  by unfold_locales (simp_all add: exfat_bitmap_wf_def exfat_bitmap_bytes_def exfat_bitmap_of_bytes_def struct_simps flip: seg_def)

record exfat_upcase =
  xu_reserved1 :: "u8 list"
  xu_checksum :: u32
  xu_reserved2 :: "u8 list"
  xu_start_clu :: u32
  xu_size :: u64

definition exfat_upcase_bytes :: "exfat_upcase \<Rightarrow> u8 list" where
  "exfat_upcase_bytes r =
     xu_reserved1 r @ le_bytes 4 (xu_checksum r) @ xu_reserved2 r @ le_bytes 4 (xu_start_clu r) @
     le_bytes 8 (xu_size r)"

definition exfat_upcase_of_bytes :: "u8 list \<Rightarrow> exfat_upcase" where
  "exfat_upcase_of_bytes bs =
     \<lparr>xu_reserved1 = seg 0 3 bs, xu_checksum = u32_at 3 bs, xu_reserved2 = seg 7 12 bs, xu_start_clu = u32_at 19 bs,
      xu_size = u64_at 23 bs\<rparr>"

definition exfat_upcase_wf :: "exfat_upcase \<Rightarrow> bool" where
  "exfat_upcase_wf r \<longleftrightarrow> length (xu_reserved1 r) = 3 \<and> length (xu_reserved2 r) = 12"

interpretation exfat_upcase: packed_struct exfat_upcase_bytes exfat_upcase_of_bytes exfat_upcase_wf 31
  by unfold_locales (simp_all add: exfat_upcase_wf_def exfat_upcase_bytes_def exfat_upcase_of_bytes_def struct_simps flip: seg_def)

section \<open>Macros on the structures\<close>

definition DELETED_FLAG :: u8 where "DELETED_FLAG = 0xE5"
definition FAT_FSINFO_SIG1 :: u32 where "FAT_FSINFO_SIG1 = 0x41615252"
definition FAT_FSINFO_SIG2 :: u32 where "FAT_FSINFO_SIG2 = 0x61417272"

text \<open>\<^verbatim>\<open>IS_FREE\<close> looks at the first byte of a name.\<close>

definition IS_FREE :: "u8 list \<Rightarrow> bool" where
  "IS_FREE n \<longleftrightarrow> n ! 0 = 0 \<or> n ! 0 = DELETED_FLAG"

definition IS_FSINFO :: "fat_fsinfo \<Rightarrow> bool" where
  "IS_FSINFO x \<longleftrightarrow> fsi_signature1 x = FAT_FSINFO_SIG1 \<and> fsi_signature2 x = FAT_FSINFO_SIG2"

definition EXFAT_UNUSED :: u8 where "EXFAT_UNUSED = 0x00"
definition EXFAT_INVAL :: u8 where "EXFAT_INVAL = 0x80"
definition EXFAT_BITMAP :: u8 where "EXFAT_BITMAP = 0x81"
definition EXFAT_UPCASE :: u8 where "EXFAT_UPCASE = 0x82"
definition EXFAT_VOLUME :: u8 where "EXFAT_VOLUME = 0x83"
definition EXFAT_FILE :: u8 where "EXFAT_FILE = 0x85"
definition EXFAT_GUID :: u8 where "EXFAT_GUID = 0xA0"
definition EXFAT_PADDING :: u8 where "EXFAT_PADDING = 0xA1"
definition EXFAT_ACLTAB :: u8 where "EXFAT_ACLTAB = 0xA2"
definition EXFAT_STREAM :: u8 where "EXFAT_STREAM = 0xC0"
definition EXFAT_NAME :: u8 where "EXFAT_NAME = 0xC1"
definition EXFAT_ACL :: u8 where "EXFAT_ACL = 0xC2"

text \<open>\<^verbatim>\<open>~0x80\<close> is an \<^verbatim>\<open>int\<close>, -129, which no entry type equals.\<close>

definition EXFAT_DELETE :: int where "EXFAT_DELETE = - 129"

definition IS_EXFAT_DELETED :: "u8 \<Rightarrow> bool" where "IS_EXFAT_DELETED x \<longleftrightarrow> x < 0x80"
definition IS_EXFAT_CRITICAL_PRI :: "u8 \<Rightarrow> bool" where "IS_EXFAT_CRITICAL_PRI x \<longleftrightarrow> x < 0xA0"
definition IS_EXFAT_BENIGN_PRI :: "u8 \<Rightarrow> bool" where "IS_EXFAT_BENIGN_PRI x \<longleftrightarrow> x < 0xC0"
definition IS_EXFAT_CRITICAL_SEC :: "u8 \<Rightarrow> bool" where "IS_EXFAT_CRITICAL_SEC x \<longleftrightarrow> x < 0xE0"

definition EXFAT_MAX_SECT_PER_CLUS_BITS :: "exfat_boot_sector \<Rightarrow> int" where
  "EXFAT_MAX_SECT_PER_CLUS_BITS x = 25 - int (unat (sect_size_bits x))"

lemmas exfat_types = EXFAT_UNUSED_def EXFAT_INVAL_def EXFAT_BITMAP_def EXFAT_UPCASE_def EXFAT_VOLUME_def EXFAT_FILE_def
  EXFAT_GUID_def EXFAT_PADDING_def EXFAT_ACLTAB_def EXFAT_STREAM_def EXFAT_NAME_def EXFAT_ACL_def

text \<open>The tests look at one bound each, so the classes are the differences of neighbouring tests; the unused type counts as
  deleted, although the comment gives the range 0x01 to 0x7F.\<close>

lemma exfat_type_classes:
  "IS_EXFAT_DELETED EXFAT_UNUSED"
  "\<forall>t \<in> {EXFAT_INVAL, EXFAT_BITMAP, EXFAT_UPCASE, EXFAT_VOLUME, EXFAT_FILE}. IS_EXFAT_CRITICAL_PRI t \<and> \<not> IS_EXFAT_DELETED t"
  "\<forall>t \<in> {EXFAT_GUID, EXFAT_PADDING, EXFAT_ACLTAB}. IS_EXFAT_BENIGN_PRI t \<and> \<not> IS_EXFAT_CRITICAL_PRI t"
  "\<forall>t \<in> {EXFAT_STREAM, EXFAT_NAME, EXFAT_ACL}. IS_EXFAT_CRITICAL_SEC t \<and> \<not> IS_EXFAT_BENIGN_PRI t"
  by (simp_all add: exfat_types IS_EXFAT_DELETED_def IS_EXFAT_CRITICAL_PRI_def IS_EXFAT_BENIGN_PRI_def IS_EXFAT_CRITICAL_SEC_def)

text \<open>The members of the union that \<^verbatim>\<open>Scanner.cpp\<close> uses are members of these views.\<close>

lemma fat_views:
  "fat16_vol_label f = f16_vol_label (fat16_bpb_of_bytes (extra_info f))"
  "fat32_vol_label f = f32_vol_label (fat32_bpb_of_bytes (extra_info f))"
  "fat32_fs_type f = f32_fs_type (fat32_bpb_of_bytes (extra_info f))"
  by (simp_all add: fat16_vol_label_def fat32_vol_label_def fat32_fs_type_def fat16_bpb_of_bytes_def fat32_bpb_of_bytes_def)

section \<open>Property\<close>



end

