(* ===== verification/FsConstants.thy ===== *)
theory FsConstants
  imports FsStructs DiskDefs
begin

text \<open>
  The remaining constants of \<^verbatim>\<open>linux/msdos_fs.h\<close>, \<^verbatim>\<open>linux/exfat_raw.h\<close>, \<^verbatim>\<open>linux/efi.h\<close> and \<^verbatim>\<open>diskdefs.h\<close>, and the relations
  among them and with the structures. \<^verbatim>\<open>exfat_raw.h\<close> names its attributes as \<^verbatim>\<open>msdos_fs.h\<close> does, so they carry a prefix
  here.
\<close>

unbundle bit_operations_syntax

section \<open>\<^verbatim>\<open>msdos_fs.h\<close>\<close>

definition SECTOR_SIZE :: nat where "SECTOR_SIZE = 512"
definition SECTOR_BITS :: nat where "SECTOR_BITS = 9"
definition MSDOS_DPS :: nat where "MSDOS_DPS = SECTOR_SIZE div 32"
definition MSDOS_DPB :: nat where "MSDOS_DPB = MSDOS_DPS"
definition MSDOS_DPB_BITS :: nat where "MSDOS_DPB_BITS = 4"
definition MSDOS_DPS_BITS :: nat where "MSDOS_DPS_BITS = 4"
definition MSDOS_LONGNAME :: nat where "MSDOS_LONGNAME = 256"
definition MSDOS_ROOT_INO :: nat where "MSDOS_ROOT_INO = 1"
definition MSDOS_FSINFO_INO :: nat where "MSDOS_FSINFO_INO = 2"
definition MSDOS_DIR_BITS :: nat where "MSDOS_DIR_BITS = 5"
definition FAT_MAX_DIR_ENTRIES :: nat where "FAT_MAX_DIR_ENTRIES = 65536"
definition FAT_MAX_DIR_SIZE :: nat where "FAT_MAX_DIR_SIZE = push_bit MSDOS_DIR_BITS FAT_MAX_DIR_ENTRIES"
definition ATTR_NONE :: u8 where "ATTR_NONE = 0x00"
definition ATTR_RO :: u8 where "ATTR_RO = 0x01"
definition ATTR_HIDDEN :: u8 where "ATTR_HIDDEN = 0x02"
definition ATTR_SYS :: u8 where "ATTR_SYS = 0x04"
definition ATTR_VOLUME :: u8 where "ATTR_VOLUME = 0x08"
definition ATTR_DIR :: u8 where "ATTR_DIR = 0x10"
definition ATTR_ARCH :: u8 where "ATTR_ARCH = 0x20"
definition ATTR_UNUSED :: u8 where "ATTR_UNUSED = ATTR_VOLUME OR ATTR_ARCH OR ATTR_SYS OR ATTR_HIDDEN"
definition ATTR_EXT :: u8 where "ATTR_EXT = ATTR_RO OR ATTR_HIDDEN OR ATTR_SYS OR ATTR_VOLUME"
definition CASE_LOWER_BASE :: u8 where "CASE_LOWER_BASE = 8"
definition CASE_LOWER_EXT :: u8 where "CASE_LOWER_EXT = 16"
definition FAT_LFN_LEN :: nat where "FAT_LFN_LEN = 255"
definition MSDOS_SLOTS :: nat where "MSDOS_SLOTS = 21"
definition MSDOS_DOT :: string where "MSDOS_DOT = ''.          ''"
definition MSDOS_DOTDOT :: string where "MSDOS_DOTDOT = ''..         ''"
definition FAT_START_ENT :: u32 where "FAT_START_ENT = 2"
definition BAD_FAT12 :: u32 where "BAD_FAT12 = 0xFF7"
definition BAD_FAT16 :: u32 where "BAD_FAT16 = 0xFFF7"
definition BAD_FAT32 :: u32 where "BAD_FAT32 = 0x0FFFFFF7"
definition EOF_FAT12 :: u32 where "EOF_FAT12 = 0xFFF"
definition EOF_FAT16 :: u32 where "EOF_FAT16 = 0xFFFF"
definition EOF_FAT32 :: u32 where "EOF_FAT32 = 0x0FFFFFFF"
definition FAT_ENT_FREE :: u32 where "FAT_ENT_FREE = 0"
definition FAT_ENT_BAD :: u32 where "FAT_ENT_BAD = BAD_FAT32"
definition FAT_ENT_EOF :: u32 where "FAT_ENT_EOF = EOF_FAT32"
definition FAT_STATE_DIRTY :: u8 where "FAT_STATE_DIRTY = 0x01"

section \<open>\<^verbatim>\<open>exfat_raw.h\<close>\<close>

definition BOOT_SIGNATURE :: u16 where "BOOT_SIGNATURE = 0xAA55"
definition EXBOOT_SIGNATURE :: u32 where "EXBOOT_SIGNATURE = 0xAA550000"
definition STR_EXFAT :: string where "STR_EXFAT = ''EXFAT   ''"
definition EXFAT_MAX_FILE_LEN :: nat where "EXFAT_MAX_FILE_LEN = 255"
definition VOLUME_DIRTY :: u16 where "VOLUME_DIRTY = 0x0002"
definition MEDIA_FAILURE :: u16 where "MEDIA_FAILURE = 0x0004"
definition EXFAT_EOF_CLUSTER :: u32 where "EXFAT_EOF_CLUSTER = 0xFFFFFFFF"
definition EXFAT_BAD_CLUSTER :: u32 where "EXFAT_BAD_CLUSTER = 0xFFFFFFF7"
definition EXFAT_FREE_CLUSTER :: u32 where "EXFAT_FREE_CLUSTER = 0"
definition EXFAT_RESERVED_CLUSTERS :: u32 where "EXFAT_RESERVED_CLUSTERS = 2"
definition EXFAT_FIRST_CLUSTER :: u32 where "EXFAT_FIRST_CLUSTER = 2"
definition ALLOC_FAT_CHAIN :: u8 where "ALLOC_FAT_CHAIN = 0x01"
definition ALLOC_NO_FAT_CHAIN :: u8 where "ALLOC_NO_FAT_CHAIN = 0x03"
definition DENTRY_SIZE :: nat where "DENTRY_SIZE = 32"
definition DENTRY_SIZE_BITS :: nat where "DENTRY_SIZE_BITS = 5"
definition MAX_EXFAT_DENTRIES :: nat where "MAX_EXFAT_DENTRIES = 8388608"
definition CS_DIR_ENTRY :: nat where "CS_DIR_ENTRY = 0"
definition CS_BOOT_SECTOR :: nat where "CS_BOOT_SECTOR = 1"
definition CS_DEFAULT :: nat where "CS_DEFAULT = 2"
definition EXFAT_ATTR_READONLY :: u16 where "EXFAT_ATTR_READONLY = 0x0001"
definition EXFAT_ATTR_HIDDEN :: u16 where "EXFAT_ATTR_HIDDEN = 0x0002"
definition EXFAT_ATTR_SYSTEM :: u16 where "EXFAT_ATTR_SYSTEM = 0x0004"
definition EXFAT_ATTR_VOLUME :: u16 where "EXFAT_ATTR_VOLUME = 0x0008"
definition EXFAT_ATTR_SUBDIR :: u16 where "EXFAT_ATTR_SUBDIR = 0x0010"
definition EXFAT_ATTR_ARCHIVE :: u16 where "EXFAT_ATTR_ARCHIVE = 0x0020"
definition EXFAT_ATTR_RWMASK :: u16 where "EXFAT_ATTR_RWMASK = EXFAT_ATTR_HIDDEN OR EXFAT_ATTR_SYSTEM OR EXFAT_ATTR_VOLUME OR EXFAT_ATTR_SUBDIR OR EXFAT_ATTR_ARCHIVE"
definition BOOTSEC_JUMP_BOOT_LEN :: nat where "BOOTSEC_JUMP_BOOT_LEN = 3"
definition BOOTSEC_OLDBPB_LEN :: nat where "BOOTSEC_OLDBPB_LEN = 53"
definition EXFAT_FILE_NAME_LEN :: nat where "EXFAT_FILE_NAME_LEN = 15"
definition EXFAT_MIN_SECT_SIZE_BITS :: nat where "EXFAT_MIN_SECT_SIZE_BITS = 9"
definition EXFAT_MAX_SECT_SIZE_BITS :: nat where "EXFAT_MAX_SECT_SIZE_BITS = 12"
definition EXFAT_TZ_VALID :: u8 where "EXFAT_TZ_VALID = push_bit 7 1"
definition EXFAT_MIN_TIMESTAMP_SECS :: int where "EXFAT_MIN_TIMESTAMP_SECS = 315532800"
definition EXFAT_MAX_TIMESTAMP_SECS :: int where "EXFAT_MAX_TIMESTAMP_SECS = 4354819199"

definition EXFAT_DATA_CLUSTER_COUNT :: "u32 \<Rightarrow> u32" where
  "EXFAT_DATA_CLUSTER_COUNT num_clusters = num_clusters - EXFAT_RESERVED_CLUSTERS"

section \<open>\<^verbatim>\<open>efi.h\<close> and \<^verbatim>\<open>diskdefs.h\<close>\<close>

definition EFI_PMBR_OSTYPE_EFI :: u8 where "EFI_PMBR_OSTYPE_EFI = 0xEF"
definition GPT_MBR_PROTECTIVE :: nat where "GPT_MBR_PROTECTIVE = 1"
definition GPT_MBR_HYBRID :: nat where "GPT_MBR_HYBRID = 2"
definition FSTYPE_FAT :: u64 where "FSTYPE_FAT = 0x2020202020544146"

section \<open>Relations\<close>

text \<open>Entries fill a sector.\<close>

lemma directory_geometry:
  "SECTOR_SIZE = 2 ^ SECTOR_BITS" "MSDOS_DPS = 2 ^ MSDOS_DPS_BITS" "MSDOS_DPB = 2 ^ MSDOS_DPB_BITS" "FAT_MAX_DIR_SIZE = 32 * FAT_MAX_DIR_ENTRIES"
  "DENTRY_SIZE = 2 ^ DENTRY_SIZE_BITS" "MAX_EXFAT_DENTRIES * DENTRY_SIZE = 256 * 2 ^ 20"
  by (simp_all add: SECTOR_SIZE_def SECTOR_BITS_def MSDOS_DPS_def MSDOS_DPS_BITS_def MSDOS_DPB_def MSDOS_DPB_BITS_def FAT_MAX_DIR_SIZE_def
      FAT_MAX_DIR_ENTRIES_def MSDOS_DIR_BITS_def DENTRY_SIZE_def DENTRY_SIZE_BITS_def MAX_EXFAT_DENTRIES_def push_bit_eq_mult)

lemma directory_sector:
  assumes "\<forall>e \<in> set es. msdos_dir_entry_wf e" "length es = MSDOS_DPS"
  shows "length (enc_array msdos_dir_entry_bytes es) = SECTOR_SIZE"
  using msdos_dir_entry.length_enc_array [OF assms(1)] assms(2) by (simp add: MSDOS_DPS_def SECTOR_SIZE_def)

lemma exfat_directory_sector:
  assumes "\<forall>e \<in> set es. exfat_dentry_wf e" "length es = 2 ^ (EXFAT_MIN_SECT_SIZE_BITS - DENTRY_SIZE_BITS)"
  shows "length (enc_array exfat_dentry_bytes es) = 2 ^ EXFAT_MIN_SECT_SIZE_BITS"
  using exfat_dentry.length_enc_array [OF assms(1)] assms(2) by (simp add: EXFAT_MIN_SECT_SIZE_BITS_def DENTRY_SIZE_BITS_def)

text \<open>The dot entries are whole names, and a long name fits into the slots, 13 characters in each.\<close>

lemma names_fit:
  "length MSDOS_DOT = MSDOS_NAME" "length MSDOS_DOTDOT = MSDOS_NAME" "FAT_LFN_LEN < MSDOS_LONGNAME" "FAT_LFN_LEN \<le> 13 * (MSDOS_SLOTS - 1)"
  "EXFAT_MAX_FILE_LEN = 17 * EXFAT_FILE_NAME_LEN"
  by (simp_all add: MSDOS_DOT_def MSDOS_DOTDOT_def MSDOS_NAME_def FAT_LFN_LEN_def MSDOS_LONGNAME_def MSDOS_SLOTS_def EXFAT_MAX_FILE_LEN_def
      EXFAT_FILE_NAME_LEN_def)

text \<open>The marks of a FAT are the highest values of its width (28 bits for FAT32); no data cluster has them.\<close>

lemma cluster_marks:
  "EOF_FAT12 = mask 12" "EOF_FAT16 = mask 16" "EOF_FAT32 = mask 28" "EXFAT_EOF_CLUSTER = mask 32"
  "BAD_FAT12 = EOF_FAT12 - 8" "BAD_FAT16 = EOF_FAT16 - 8" "BAD_FAT32 = EOF_FAT32 - 8" "EXFAT_BAD_CLUSTER = EXFAT_EOF_CLUSTER - 8"
  by (simp_all add: EOF_FAT12_def EOF_FAT16_def EOF_FAT32_def EXFAT_EOF_CLUSTER_def BAD_FAT12_def BAD_FAT16_def BAD_FAT32_def EXFAT_BAD_CLUSTER_def
      mask_eq_exp_minus_1)

text \<open>A slot of a long name is a label without contents to a system that does not know it; every attribute is a bit of its own.\<close>

lemma attributes:
  "ATTR_EXT = 0x0F" "ATTR_UNUSED = 0x2E" "EXFAT_ATTR_RWMASK = 0x3E" "EXFAT_ATTR_RWMASK AND EXFAT_ATTR_READONLY = 0" "EXFAT_TZ_VALID = 0x80"
  by (simp_all add: ATTR_EXT_def ATTR_UNUSED_def ATTR_RO_def ATTR_HIDDEN_def ATTR_SYS_def ATTR_VOLUME_def ATTR_ARCH_def EXFAT_ATTR_RWMASK_def
      EXFAT_ATTR_READONLY_def EXFAT_ATTR_HIDDEN_def EXFAT_ATTR_SYSTEM_def EXFAT_ATTR_VOLUME_def EXFAT_ATTR_SUBDIR_def EXFAT_ATTR_ARCHIVE_def EXFAT_TZ_VALID_def)

text \<open>The type fields of boot sectors are texts.\<close>

lemma fs_type_texts:
  "map of_char STR_EXFAT = le_bytes 8 FSTYPE_EXFAT" "map of_char ''FAT32   '' = le_bytes 8 FSTYPE_FAT32"
  "map of_char ''FAT     '' = le_bytes 8 FSTYPE_FAT" "BOOT_SIGNATURE = MSDOS_MBR_SIGNATURE" "EXBOOT_SIGNATURE = push_bit 16 (ucast BOOT_SIGNATURE)"
  by code_simp+

text \<open>The timestamps of exFAT reach from the beginning of 1980 to the end of 2107.\<close>

definition leap_year :: "int \<Rightarrow> bool" where
  "leap_year y \<longleftrightarrow> 4 dvd y \<and> (100 dvd y \<longrightarrow> 400 dvd y)"

definition year_start :: "int \<Rightarrow> int" where
  "year_start y = 86400 * (365 * (y - 1970) + int (length (filter leap_year [1970..y - 1])))"

lemma exfat_timestamps:
  "EXFAT_MIN_TIMESTAMP_SECS = year_start 1980" "EXFAT_MAX_TIMESTAMP_SECS = year_start 2108 - 1"
  by (simp_all add: EXFAT_MIN_TIMESTAMP_SECS_def EXFAT_MAX_TIMESTAMP_SECS_def year_start_def leap_year_def)

end
