(* ===== verification/Printing.thy ===== *)
theory Printing
  imports Gpt
begin

text \<open>
  The \<^verbatim>\<open>printTo\<close> functions of \<^verbatim>\<open>PartInfo.cpp\<close> and \<^verbatim>\<open>BlockDevice.cpp\<close>. They write to the framework's \<^verbatim>\<open>Print\<close>
  stream, here a record of functions over its state \<open>'p\<close>, and return the number of characters written.
\<close>

section \<open>The stream\<close>




section \<open>The code\<close>









section \<open>A stream in memory\<close>



section \<open>Property\<close>



end
