(* ===== verification/ScanTypes.thy ===== *)
theory ScanTypes
  imports ScanProps
begin

text \<open>
  What can be said of every partition that \<^verbatim>\<open>scanPartitions\<close> reports, whatever the disk holds: its members agree with
  each other. The positions of MBR partitions, in contrast, are those of the table only modulo 4 GiB.
\<close>

section \<open>Partitions as reported\<close>

text \<open>A volume of the FAT family is FAT data; an MBR type indicator goes with the volume type it stands for and with no
  GUIDs; partitions start at a sector, and those without a type GUID within the first 4 GiB.\<close>

definition report_ok :: "sming \<Rightarrow> part_info \<Rightarrow> bool" where
  "report_ok L p \<longleftrightarrow>
     (systype p \<in> fatTypes \<longrightarrow> p_type p = Type_data L \<and> p_subtype p = SubType_fat L) \<and>
     (sysind p \<noteq> 0 \<longrightarrow> systype p = getSysTypeFromIndicator (sysind p) \<and> typeGuid p = null_uuid \<and> uniqueGuid p = null_uuid) \<and>
     512 dvd unat (p_offset p) \<and> (typeGuid p = null_uuid \<longrightarrow> unat (p_offset p) < 2 ^ 32)"

lemma report_ok_named [simp]: "report_ok L (named L p) \<longleftrightarrow> report_ok L p"
  by (simp add: report_ok_def named_def)

definition sector_shift :: "scanner \<Rightarrow> bool" where
  "sector_shift sc \<longleftrightarrow> sc_sectorSizeShift sc = 9 \<and> sc_state sc \<noteq> St_idle"

lemma push_bit_9_dvd: "512 dvd unat (push_bit 9 (w :: 'a :: len word))"
proof (cases "9 \<le> LENGTH('a)")
  case True
  then have "(2 :: nat) ^ 9 dvd 2 ^ LENGTH('a)" by (rule le_imp_power_dvd)
  then show ?thesis unfolding unsigned_push_bit_eq by (simp add: push_bit_eq_mult take_bit_eq_mod dvd_mod_iff)
next
  case False
  then have "push_bit 9 w = 0" by (intro bit_word_eqI) (simp add: bit_push_bit_iff)
  then show ?thesis by simp
qed

lemma identified_ok:
  assumes "identify L buf offset = Ret (Some v)" "512 dvd unat offset" "unat offset < 2 ^ 32"
  shows "report_ok L v"
  using identify_volume [OF assms(1)] assms(2,3) by (simp add: report_ok_def)

lemma mbr_part_ok:
  assumes "found = None \<or> (\<exists>buf v. found = Some v \<and> identify L buf offset = Ret (Some v))" "fulltype_law L"
    and "512 dvd unat offset" "unat offset < 2 ^ 32"
  shows "report_ok L (mbr_part L rec i sh offset found)"
proof (cases found)
  case None
  then show ?thesis using assms(2-4)
    by (simp add: report_ok_def mbr_part_def Let_def part_info_new_def fulltype_law_def)
next
  case (Some v)
  then obtain buf where "identify L buf offset = Ret (Some v)" using assms(1) by auto
  note v = identify_volume [OF this]
  show ?thesis using Some v assms(2-4) by (simp add: report_ok_def mbr_part_def Let_def fulltype_law_def)
qed

lemma gpt_part_ok:
  assumes "found = part_info_new [] ft offset sz \<or> (\<exists>buf. identify L buf offset = Ret (Some found))"
    and "uuid_isset L (partition_type_guid e)" "uuid_law L" "512 dvd unat offset"
  shows "report_ok L (gpt_scan_part e found)"
  using assms identify_volume [of L _ offset found]
  by (auto simp: report_ok_def gpt_scan_part_def part_info_new_def fatTypes_def uuid_law_def)

lemma scan_step_shift: "scan_step L rd dev sc = Ret (dev', sc', r) \<Longrightarrow> sc_sectorSizeShift sc' = sc_sectorSizeShift sc"
  by (auto simp: scan_step_def mbr_step_def gpt_step_def gpt_fetch_def scanMbrEntries_def Let_def
      split: if_splits prod.splits option.splits run.splits)

lemma scan_step_typed:
  assumes "fulltype_law L" "uuid_law L" "sector_shift sc"
  shows "step_keeps sector_shift (report_ok L) True (scan_step L rd dev sc)"
proof (cases "scan_step L rd dev sc")
  case (Ret x)
  then obtain d sc' q where x: "scan_step L rd dev sc = Ret (d, sc', q)" by (cases x) auto
  have sh: "unat (sc_sectorSizeShift sc) = 9" using assms(3) by (simp add: sector_shift_def)
  have s: "sector_shift sc'" if "q \<noteq> Return None"
    using assms(3) scan_step_state [OF x that] scan_step_shift [OF x] by (simp add: sector_shift_def)
  have "report_ok L p" if "q = Return (Some p)" for p
  proof (cases "sc_state sc = St_MBR")
    case True
    have d: "512 dvd unat (ucast (push_bit 9 (w :: u32)) :: u64)" "unat (ucast (push_bit 9 (w :: u32)) :: u64) < 2 ^ 32" for w
      using push_bit_9_dvd [of w] unsigned_less [of "push_bit 9 w", where 'a = nat] by (simp_all add: unat_ucast_up)
    show ?thesis using x that True sh
      by (auto simp: scan_step_def mbr_step_def Let_def split: if_splits prod.splits option.splits run.splits
          intro!: mbr_part_ok assms(1) d)
  next
    case False
    show ?thesis using x that False sh
      by (auto simp: scan_step_def gpt_step_def Let_def split: if_splits prod.splits option.splits run.splits
          intro!: gpt_part_ok assms(2) push_bit_9_dvd)
  qed
  then show ?thesis unfolding x using s by (intro step_keeps_RetI) auto
qed simp

lemma scan_start_typed:
  assumes "fulltype_law L" "size_bits_law L"
  shows "step_keeps sector_shift (report_ok L) True (scan_start L rd m1 m2 fresh dev scanner_new)"
proof (cases m1)
  case None
  then show ?thesis by (simp add: scan_start_none)
next
  case m1: (Some w1)
  obtain d r where rd: "read_sector rd 9 dev 0 (sb_new (Some w1) 512 1) = (d, r)"
    by (cases "read_sector rd 9 dev 0 (sb_new (Some w1) 512 1)")
  note start = scan_start_code [OF assms(2) rd, of m2 fresh]
  show ?thesis
    using identified_ok [of L _ 0]
    by (auto simp: m1 start Let_def scan_gpt_start_def scanMbrEntries_def sector_shift_def primed_def
        split: option.split run.split bool.split prod.split)
qed

section \<open>Properties\<close>

text \<open>C18: The members of every partition that \<^verbatim>\<open>scanPartitions\<close> reports agree with each other, whatever the disk holds
  and whichever reads fail: a FAT or exFAT volume has the framework's FAT data type, an MBR type indicator comes with the
  volume type it stands for and without GUIDs, positions are multiples of the sector size, and partitions without a type
  GUID start within the first 4 GiB.\<close>

theorem scan_reports_typed:
  assumes "size_bits_law L" "fulltype_law L" "uuid_law L"
    and "scanPartitions L rd m1 m2 fresh dev = Some (Ret (dev', ps, ok))"
  shows "\<forall>p \<in> set ps. report_ok L p"
proof -
  have "scan_loop L rd m1 m2 fresh dev scanner_new [] = Some (Ret (dev', ps, ok))" using assms(4) by (simp add: scanPartitions_def)
  from scan_loop_rule [OF this _ _ scan_step_typed [OF assms(2,3)] scan_start_typed [OF assms(2,1)], of "report_ok L"]
  show ?thesis by (simp add: sector_shift_def)
qed

theorem scan_reports_typed_witness:
  "\<exists>s' p q. scanPartitions sming_ref image_read (Some []) None [] (img_disk demo_extended) = Some (Ret (s', [p, q], True)) \<and>
     p_offset p = 1536 \<and> p_offset q = 1024 \<and> report_ok sming_ref p \<and> report_ok sming_ref q"
proof -
  obtain ps where ps: "map p_offset ps = [1536, 1024]"
    "mbr_listing 5 sming_ref 100 (img_disk demo_extended) 0 (relocated 0 (mbr_records (img_disk demo_extended) 0)) = Some ps"
    using demo_extended_listing by (elim exE conjE) (rule that)
  have "mbr_disk sming_ref (img_disk demo_extended)"
    by (rule img_disk_mbr) (simp_all add: img_disk_sector demo_extended_def img_rec_def EFI_PMBR_OSTYPE_EFI_GPT_def)
  then obtain s' where s: "scanPartitions sming_ref image_read (Some []) None [] (img_disk demo_extended) = Some (Ret (s', ps, True))"
    using image_disk.scan_mbr_disk [OF sming_ref_laws(1), of "img_disk demo_extended" 100 5 ps "[]" None "[]"] ps by auto
  obtain p q where "ps = [p, q]" "p_offset p = 1536" "p_offset q = 1024" using ps(1) by (auto simp: map_eq_Cons_conv)
  then show ?thesis using s scan_reports_typed [OF sming_ref_laws(1,4,3) s] by auto
qed

section \<open>Positions modulo 4 GiB\<close>

lemma identify_none_anywhere: "identify L buf off = Ret None \<Longrightarrow> identify L buf off' = Ret None"
  by (auto simp: identify_def Let_def split: if_splits)

lemma unat_push_9_u32: "unat (ucast (push_bit 9 (w :: u32)) :: u64) = unat w * 512 mod 2 ^ 32"
proof -
  have "unat (ucast (push_bit 9 w) :: u64) = unat (push_bit 9 w)" by (simp add: unat_ucast_up)
  also have "\<dots> = unat w * 512 mod 2 ^ 32" unfolding unsigned_push_bit_eq by (simp add: push_bit_eq_mult take_bit_eq_mod)
  finally show ?thesis .
qed

text \<open>The partition \<open>p\<close> as it is reported for the record \<open>r\<close>.\<close>

definition mod_4GiB :: "gpt_mbr_record \<Rightarrow> part_info \<Rightarrow> bool" where
  "mod_4GiB r p \<longleftrightarrow> unat (p_offset p) = unat (starting_lba r) * 512 mod 2 ^ 32 \<and> unat (p_size p) = unat (size_in_lba r) * 512 mod 2 ^ 32"

lemma mbr_part_mod_4GiB: "mod_4GiB r (mbr_part L r i 9 (ucast (push_bit 9 (starting_lba r))) None)"
  unfolding mod_4GiB_def unat_push_9_u32 [symmetric] by (simp add: mbr_part_def Let_def part_info_new_def)

lemma mbr_listing_plain:
  assumes "\<forall>r \<in> set es. os_type r \<noteq> OSTYPE_EXTENDED \<and> unat (starting_lba r) < n \<and>
      identify L (sector_of c (unat (starting_lba r))) 0 = Ret None"
  shows "\<exists>ps. mbr_listing (Suc (length es)) L n c k es = Some ps \<and> list_all2 mod_4GiB es ps"
  using assms
proof (induction es arbitrary: k)
  case Nil
  then show ?case by simp
next
  case (Cons r es)
  from Cons.prems have prems: "\<forall>r \<in> set es. os_type r \<noteq> OSTYPE_EXTENDED \<and> unat (starting_lba r) < n \<and>
      identify L (sector_of c (unat (starting_lba r))) 0 = Ret None" by simp
  obtain ps where ps: "mbr_listing (Suc (length es)) L n c (Suc k) es = Some ps" "list_all2 mod_4GiB es ps"
    using Cons.IH [OF prems, of "Suc k"] by blast
  have r: "os_type r \<noteq> OSTYPE_EXTENDED" "unat (starting_lba r) < n" using Cons.prems by simp_all
  have "identify L (sector_of c (unat (starting_lba r))) 0 = Ret None" using Cons.prems by simp
  note id = identify_none_anywhere [OF this, of "ucast (push_bit 9 (starting_lba r))"]
  show ?case using r id ps mbr_part_mod_4GiB [of r L] by (simp add: Let_def del: of_nat_Suc)
qed

text \<open>C19: Scanning an MBR without extended partitions and volumes reports one partition for each used record, in their
  order, with the record's position and size in bytes modulo 4 GiB, because they are computed in 32 bits: the position
  is right exactly when the record's first sector is below 0x800000. In the witness a partition behind the first 4 GiB is
  reported at the second sector.\<close>

theorem scan_mbr_positions:
  assumes "reliable_disk rd ok bytes lim" "size_bits_law L" "ok s" "512 \<le> lim" "mbr_disk L (bytes s)" "n * 512 \<le> lim"
    and "\<forall>r \<in> set (relocated 0 (mbr_records (bytes s) 0)). os_type r \<noteq> OSTYPE_EXTENDED \<and> unat (starting_lba r) < n \<and>
      identify L (sector_of (bytes s) (unat (starting_lba r))) 0 = Ret None"
  shows "\<exists>s' ps. scanPartitions L rd (Some w1) m2 fresh s = Some (Ret (s', ps, True)) \<and>
    list_all2 (\<lambda>r p. unat (p_offset p) = unat (starting_lba r) * 512 mod 2 ^ 32 \<and>
        unat (p_size p) = unat (size_in_lba r) * 512 mod 2 ^ 32 \<and>
        (unat (p_offset p) = unat (starting_lba r) * 512 \<longleftrightarrow> starting_lba r < 0x800000))
      (relocated 0 (mbr_records (bytes s) 0)) ps"
proof -
  let ?es = "relocated 0 (mbr_records (bytes s) 0)"
  obtain ps where ps: "mbr_listing (Suc (length ?es)) L n (bytes s) 0 ?es = Some ps" "list_all2 mod_4GiB ?es ps"
    using mbr_listing_plain [OF assms(7), of 0] by blast
  have wrap: "unat lba * 512 mod 2 ^ 32 = unat lba * 512 \<longleftrightarrow> lba < 0x800000" for lba :: u32
  proof -
    have "unat lba * 512 mod 2 ^ 32 = unat lba * 512 \<longleftrightarrow> unat lba * 512 < 2 ^ 32"
      by (metis mod_less mod_less_divisor zero_less_numeral zero_less_power)
    then show ?thesis by (simp add: word_less_nat_alt)
  qed
  have "list_all2 (\<lambda>r p. unat (p_offset p) = unat (starting_lba r) * 512 mod 2 ^ 32 \<and>
        unat (p_size p) = unat (size_in_lba r) * 512 mod 2 ^ 32 \<and>
        (unat (p_offset p) = unat (starting_lba r) * 512 \<longleftrightarrow> starting_lba r < 0x800000)) ?es ps"
    using ps(2) by (rule list_all2_mono) (simp add: mod_4GiB_def wrap [symmetric])
  then show ?thesis using reliable_disk.scan_mbr_disk [OF assms(1-6) ps(1)] by blast
qed

theorem scan_mbr_positions_witness:
  "\<exists>s' p. scanPartitions sming_ref image_read (Some []) None [] (img_disk [[img_rec 0x06 0x800001]]) = Some (Ret (s', [p], True)) \<and>
     p_offset p = 512"
proof -
  let ?d = "img_disk [[img_rec 0x06 0x800001]]"
  have take4: "take 4 ([x] @ replicate 4 no_record) = [x, no_record, no_record, no_record]" for x by (simp add: numeral_eq_Suc)
  have r: "relocated 0 (mbr_records ?d 0) = [img_rec 0x06 0x800001]"
  proof -
    have "mbr_records ?d 0 = [img_rec 0x06 0x800001, no_record, no_record, no_record]"
      using img_disk_sector(3) [of 0 "[[img_rec 0x06 0x800001]]"] take4 [of "img_rec 0x06 0x800001"] by simp
    then show ?thesis by (simp add: relocated_def img_rec_def no_record_def)
  qed
  have m: "mbr_disk sming_ref ?d"
    by (rule img_disk_mbr) (simp_all add: img_disk_sector img_rec_def EFI_PMBR_OSTYPE_EFI_GPT_def)
  have fnd: "\<forall>r \<in> set (relocated 0 (mbr_records ?d 0)). os_type r \<noteq> OSTYPE_EXTENDED \<and> unat (starting_lba r) < 0x800002 \<and>
      identify sming_ref (sector_of ?d (unat (starting_lba r))) 0 = Ret None"
    unfolding r using img_disk_beyond [of "[[img_rec 0x06 0x800001]]" "0x800001" sming_ref 0]
    by (simp add: img_rec_def OSTYPE_EXTENDED_def no_record_def)
  obtain s' ps where s: "scanPartitions sming_ref image_read (Some []) None [] ?d = Some (Ret (s', ps, True))"
    and l: "list_all2 (\<lambda>r p. unat (p_offset p) = unat (starting_lba r) * 512 mod 2 ^ 32 \<and>
        unat (p_size p) = unat (size_in_lba r) * 512 mod 2 ^ 32 \<and>
        (unat (p_offset p) = unat (starting_lba r) * 512 \<longleftrightarrow> starting_lba r < 0x800000)) [img_rec 0x06 0x800001] ps"
    using scan_mbr_positions [OF image_disk.reliable_disk_axioms sming_ref_laws(1), of ?d "0x800002" "[]" None "[]"] m fnd
    unfolding r by auto
  then obtain p where "ps = [p]" "unat (p_offset p) = unat (starting_lba (img_rec 0x06 0x800001)) * 512 mod 2 ^ 32"
    by (auto simp: list_all2_Cons1)
  then show ?thesis using s by (auto simp: word_unat_eq_iff img_rec_def no_record_def)
qed

end
