(* ===== verification/Spec2Isabelle.thy ===== *)
theory Spec2Isabelle
  imports HostDisk FsConstants Printing ScanTypes
begin

text \<open>
  A model of the Disk Storage library, and what it promises.

  \<^bold>\<open>The program.\<close> A \<^verbatim>\<open>BlockDevice\<close> (\<^verbatim>\<open>src/src/BlockDevice.cpp\<close>) gives byte access to a device that can only
  transfer whole sectors, through a direct-mapped write-back cache (\<^verbatim>\<open>BufferList\<close> in \<^verbatim>\<open>Buffer.h\<close>). Derived
  classes supply the four \<^verbatim>\<open>raw_sector_*\<close> functions; \<^verbatim>\<open>HostFileDevice\<close> does so over a file. \<^verbatim>\<open>formatDisk\<close> for
  MBR and GPT tables (\<^verbatim>\<open>MBR.cpp\<close>, \<^verbatim>\<open>GPT.cpp\<close>) lets \<^verbatim>\<open>validate\<close> (\<^verbatim>\<open>PartInfo.cpp\<close>) place the partitions of a
  table, writes the structures on the device with \<^verbatim>\<open>write\<close> and \<^verbatim>\<open>sync\<close>, and hands the partitions over to the
  device. \<^verbatim>\<open>scanPartitions\<close> (\<^verbatim>\<open>Disk.cpp\<close>, \<^verbatim>\<open>Scanner.cpp\<close>) goes the other way: an iterator reads the structures
  and lists the partitions it finds.

  \<^bold>\<open>The theories,\<close> in the order of their imports:
  \<^item> \<open>Prelude\<close>: words, bytes, segments of byte lists, results. A \<open>run\<close> is \<open>Ret\<close> of a value or \<open>Fault\<close>, which is a
    failed assertion, an access outside of a buffer, or a shift by more than the width of the operand; an
    \<open>option\<close> around it is \<open>None\<close> where the code does not return.
  \<^item> \<open>DiskDefs\<close> (\<^verbatim>\<open>diskdefs.h\<close>, \<^verbatim>\<open>diskdefs.cpp\<close>): CRC-32 and alignment; \<open>DiskError\<close> (\<^verbatim>\<open>Error.h\<close>, \<^verbatim>\<open>Error.cpp\<close>):
    result codes.
  \<^item> \<open>PartInfo\<close> (\<^verbatim>\<open>PartInfo.h\<close>): volume types, partition records, and the record \<open>sming\<close> of framework functions.
  \<^item> \<open>Validate\<close>, \<open>ValidatePlan\<close> (\<^verbatim>\<open>PartInfo.cpp\<close>): \<^verbatim>\<open>validate\<close> loop by loop, the plan it follows for a table of
    percentages, and its behaviour on fixed offsets.
  \<^item> \<open>Buffers\<close> (\<^verbatim>\<open>Buffer.h\<close>, \<^verbatim>\<open>SectorBuffer.h\<close>), \<open>BlockDevice\<close> (\<^verbatim>\<open>BlockDevice.h\<close>, \<^verbatim>\<open>BlockDevice.cpp\<close>): the operations of
    the cache. \<open>BlockCache\<close> holds the locale \<open>raw_media\<close>, the contract of the virtual functions, and the invariant
    \<open>bd_ok\<close> of the cache; \<open>BlockSpec\<close> refines the operations to ones on an array of bytes, \<open>bd_content\<close>, and
    states the interfaces of the partitioning code as locales.
  \<^item> \<open>HostFile\<close> (\<^verbatim>\<open>HostFileDevice.h\<close>, \<^verbatim>\<open>HostFileDevice.cpp\<close>): the device over a record \<open>posix\<close> of system calls with the
    contract \<open>posix_file\<close>, under which \<open>raw_media\<close> holds; \<open>posix_store\<close> adds what happens to the file when it is
    closed and opened again. \<open>DeviceProps\<close>: the properties of both.
  \<^item> \<open>DeviceRun\<close>: sequences of calls to a device as a step relation \<open>dev_run\<close>, and the relation \<open>array_run\<close> on a plain
    array of bytes which it refines.
  \<^item> \<open>DiskLayout\<close> (\<^verbatim>\<open>linux/efi.h\<close>, \<^verbatim>\<open>linux/msdos_fs.h\<close>, \<^verbatim>\<open>linux/exfat_raw.h\<close>): the structures on disk with encoders and
    decoders, interpretations of one locale \<open>packed_struct\<close>. \<open>FsStructs\<close> has those of the FAT and exFAT
    directories and the FSINFO sector, \<open>FsConstants\<close> the remaining constants of the same headers and how they
    relate to the structures; no code of the library uses either yet.
  \<^item> \<open>Mbr\<close> (\<^verbatim>\<open>MBR.h\<close>, \<^verbatim>\<open>MBR.cpp\<close>) and \<open>Gpt\<close> (\<^verbatim>\<open>GPT.h\<close>, \<^verbatim>\<open>GPT.cpp\<close>): tables, \<^verbatim>\<open>formatDisk\<close>, what is on the disk after it.
  \<^item> \<open>Scanner\<close> (\<^verbatim>\<open>Scanner.h\<close>, \<^verbatim>\<open>Scanner.cpp\<close>, \<^verbatim>\<open>Disk.cpp\<close>): the iterator. \<open>ScanRun\<close> gives its behaviour on a readable
    disk round by round, \<open>ScanGpt\<close> and \<open>ScanMbr\<close> compare it with listings of the whole table, \<open>ScanSafe\<close> has its
    invariant on arbitrary disks, an instance of the invariant rules of \<open>ScanRun\<close>, and its termination on disks whose
    extended tables are ranked; \<open>ScanTypes\<close> has another instance, the types and positions of what is reported.
    \<open>Roundtrip\<close> puts writers and scanner together, \<open>ScanProps\<close> states the properties.
  \<^item> \<open>TestTables\<close> (\<^verbatim>\<open>test/app/Basic.cpp\<close>): the tables of the library's tests, formatted and scanned, compared with
    the recorded output of \<^verbatim>\<open>blkid\<close>.
  \<^item> \<open>HostDisk\<close>: a host file that is formatted, synchronised, closed, opened and scanned again.
  \<^item> \<open>Printing\<close>: the \<^verbatim>\<open>printTo\<close> functions over a record \<open>printer\<close> of the framework's output functions, with the
    contract \<open>print_stream\<close>.

  \<^bold>\<open>State.\<close> A device is the record \<open>block_device\<close>: the state \<open>raw\<close> of the derived class, the buffers, the geometry
  and the counters. The list of partitions of a device (\<^verbatim>\<open>editablePartitions\<close>) and the table being formatted are
  lists of \<open>part_info\<close>, passed and returned; \<^verbatim>\<open>pop\<close> takes from the front of the table and \<^verbatim>\<open>add\<close> appends to the
  list. Memory that is allocated is an argument: \<open>None\<close> where \<^verbatim>\<open>new\<close> fails, and arbitrary bytes otherwise.

  \<^bold>\<open>What the lemmas show.\<close> For block devices: every operation keeps the cache coherent and acts on the content as
  on a plain array of bytes, failures change nothing outside of the addressed range, \<^verbatim>\<open>sync\<close> makes the medium
  equal to the content, and only the medium can make an operation fail. A whole sequence of calls, failed ones included,
  is one of calls on an array, and what was synchronised survives it. For \<^verbatim>\<open>validate\<close>: sizes, alignment, order
  and disjointness of what it plans, and where it fails or asserts. For \<^verbatim>\<open>formatDisk\<close>: exactly which bytes are written,
  what they mean, and what a failure leaves behind. For the scanner: what it lists on GPT disks, MBR disks and disks without a table,
  that it stays inside its buffers on sane sectors, where it ends, and of which type and where the partitions are that it reports,
  those of MBR tables modulo 4 GiB. Formatting and scanning are inverse to each other, for tables of any types and with volumes
  already in the partitions, up to the 128 entries that a GPT has here, also when the host file is closed in between. For \<^verbatim>\<open>printTo\<close>: it returns the number of characters it wrote.

  \<^bold>\<open>Words, bounds and fuel.\<close> \<^verbatim>\<open>storage_size_t\<close> has 64 bits, \<^verbatim>\<open>size_t\<close> has 32 where its width matters and is a natural
  number where it only counts; everything else has the width of its declaration. The sector size of the
  partitioning code is 512, the value of \<^verbatim>\<open>DISK_MIN_SECTOR_SIZE\<close> and \<^verbatim>\<open>DISK_MAX_SECTOR_SIZE\<close>. \<open>cache_limit\<close> is the number
  of bytes whose sector numbers fit the 32 bits of a buffer. The loops of \<^verbatim>\<open>validate\<close>'s offset assignment and of
  the scanner are partial functions, and their termination is proved where it holds. The fuel of the reference
  listing \<open>mbr_listing\<close> counts steps, and the theorem about it holds for every amount that suffices.

  \<^bold>\<open>Assumed of code elsewhere.\<close> \<open>size_bits_law\<close>, \<open>sort_law\<close>, \<open>uuid_law\<close> and \<open>fulltype_law\<close> say what the framework's
  \<^verbatim>\<open>getSizeBits\<close>, \<^verbatim>\<open>Vector::sort\<close>, \<^verbatim>\<open>Uuid\<close> and \<^verbatim>\<open>Partition::FullType\<close> do; \<open>sming_ref\<close> satisfies all of them. The
  system calls satisfy \<open>posix_file\<close>, as \<open>ref_posix\<close> and \<open>sparse_posix\<close> do, and \<open>sparse_posix\<close> is a \<open>posix_store\<close> too. The
  output functions satisfy \<open>print_stream\<close>: each appends to the stream and returns the number of characters it appended. \<^verbatim>\<open>sizeof(gpt_header_t)\<close> is 92.

  \<^bold>\<open>Not modelled.\<close> Debug output, which changes no state; the branches for Windows hosts and for other sector
  sizes, which are not compiled in; accessors that return a name or an enumerator as it is, and the pointers \<^verbatim>\<open>begin\<close>
  and \<^verbatim>\<open>end\<close> of a \<^verbatim>\<open>BufferList\<close>; the build files, the sample, and the code that drives the tests.
\<close>

end
